(* ===== verification/Prelude.thy ===== *)
theory Prelude
  imports Main "HOL-Library.Word"
begin

text \<open>
  Shared vocabulary of the development: the machine types of the sources, the ways a piece of
  C++ can go wrong (a value of type \<open>fault\<close>, so that undefined behaviour is a branch of the
  model and never silently a HOL default value), pointers with their uninitialised and null
  states, C strings, and the lemma collections the component theories extend.
\<close>

section \<open>Lemma collections\<close>

named_theorems fault_simps \<open>how faults travel through a computation\<close>
named_theorems frame_simps \<open>what an operation leaves unchanged\<close>
named_theorems inv_intros \<open>every operation keeps its component's invariant\<close>

section \<open>Machine types\<close>

type_synonym byte = "8 word"
type_synonym uint16 = "16 word"
type_synonym uint32 = "32 word"
type_synonym uint64 = "64 word"
type_synonym size_t = "64 word"

section \<open>Faults and results\<close>

text \<open>
  What the language leaves undefined, or what ends the process: dereferencing a null or an
  uninitialised pointer, using an object after its storage was released, touching memory outside
  an allocation, a failed \<^verbatim>\<open>assert\<close>, calling through a function pointer that was never set,
  setting a promise twice, blocking on a lock the thread already holds, an exception nobody
  catches (\<open>OutOfRange\<close>), a call that does not return, releasing memory that was not allocated,
  giving back a lock the thread does not hold.
\<close>

datatype fault =
    NullDeref
  | UninitRead
  | UseAfterFree
  | OutOfBounds
  | AssertFailed
  | UninitCall
  | PromiseAlreadySet
  | SelfDeadlock
  | OutOfRange
  | NoReturn
  | InvalidFree
  | NotOwner

type_synonym 'a result = "fault + 'a"

definition bindr :: "'a result \<Rightarrow> ('a \<Rightarrow> 'b result) \<Rightarrow> 'b result" where
  "bindr r f = (case r of Inl e \<Rightarrow> Inl e | Inr a \<Rightarrow> f a)"

lemma bindr_Inl [simp, fault_simps]: "bindr (Inl e) f = Inl e"
  by (simp add: bindr_def)

lemma bindr_Inr [simp, fault_simps]: "bindr (Inr a) f = f a"
  by (simp add: bindr_def)

lemma bindr_eq_Inr_iff [fault_simps]:
  "bindr r f = Inr b \<longleftrightarrow> (\<exists>a. r = Inr a \<and> f a = Inr b)"
  by (cases r) simp_all

lemma bindr_eq_InrE [elim]:
  assumes "bindr r f = Inr b"
  obtains a where "r = Inr a" and "f a = Inr b"
  using assms by (auto simp: bindr_eq_Inr_iff)

lemma bindr_assoc: "bindr (bindr r f) g = bindr r (\<lambda>a. bindr (f a) g)"
  by (cases r) simp_all

section \<open>Pointers\<close>

text \<open>
  A pointer variable is uninitialised until something is stored in it. \<open>Null\<close> is the null
  pointer and \<open>Ptr a\<close> points at the object numbered \<open>a\<close>.
\<close>

datatype ptr = Uninit | Null | Ptr nat

fun deref :: "ptr \<Rightarrow> nat result" where
  "deref Uninit = Inl UninitRead"
| "deref Null = Inl NullDeref"
| "deref (Ptr a) = Inr a"

lemma deref_eq_Inr_iff [simp]: "deref p = Inr a \<longleftrightarrow> p = Ptr a"
  by (cases p) simp_all

section \<open>C strings\<close>

text \<open>
  A \<^verbatim>\<open>std::string\<close> may hold NUL characters; \<^verbatim>\<open>c_str()\<close> read as a C string stops at the
  first one. \<^verbatim>\<open>strcmp\<close> compares what both arguments hold before their first NUL.
\<close>

definition c_str :: "string \<Rightarrow> string" where
  "c_str s = takeWhile (\<lambda>c. c \<noteq> CHR 0x00) s"

definition strcmp_eq :: "string \<Rightarrow> string \<Rightarrow> bool" where
  "strcmp_eq a b \<longleftrightarrow> c_str a = c_str b"

lemma c_str_idem [simp]: "c_str (c_str s) = c_str s"
  by (simp add: c_str_def)

lemma c_str_Nil [simp]: "c_str [] = []"
  by (simp add: c_str_def)

lemma c_str_id [simp]: "CHR 0x00 \<notin> set s \<Longrightarrow> c_str s = s"
  unfolding c_str_def by (rule takeWhile_eq_all_conv [THEN iffD2]) auto

lemma c_str_no_nul: "CHR 0x00 \<notin> set (c_str s)"
  by (auto simp: c_str_def dest: set_takeWhileD)

lemma c_str_append: "CHR 0x00 \<notin> set s \<Longrightarrow> c_str (s @ t) = s @ c_str t"
  unfolding c_str_def by (induction s) auto

lemma strcmp_eq_refl [simp]: "strcmp_eq s s"
  by (simp add: strcmp_eq_def)

section \<open>Lists\<close>

lemma nth_update_list_swap_length [simp]: "length (xs[i := x, j := y]) = length xs"
  by simp

lemma butlast_snoc_update: "i < length xs \<Longrightarrow> (xs @ [x])[i := y] = xs[i := y] @ [x]"
  by (simp add: list_update_append)

end
