(* ===== verification/Git_Common.thy ===== *)
theory Git_Common
  imports Prelude
begin

text \<open>
  What every part of the git service shares (\<^verbatim>\<open>common/GitServiceCommon.h\<close>): the request
  states, the gRPC status values the handlers hand out, \<^verbatim>\<open>const char*\<close> results with the
  difference between their characters and their address, \<^verbatim>\<open>Common::CheckForError\<close> and
  \<^verbatim>\<open>Common::Response\<close>, and the interface of libgit2 as far as the service calls it.

  libgit2 itself is not part of the sources. It is a parameter of every definition that calls
  it: a record of functions over an arbitrary library state \<open>'w\<close>.
\<close>

section \<open>Build configuration\<close>

text \<open>
  \<open>ndebug\<close>: the release configuration defines \<^verbatim>\<open>NDEBUG\<close>, which removes every \<^verbatim>\<open>assert\<close>.
  \<open>lits_shared\<close>: whether equal string literals have the same address, which C++ leaves open.
\<close>

record build_cfg =
  ndebug :: bool
  lits_shared :: bool

section \<open>Request states and response values\<close>

datatype RequestStatus = READ | WRITE | CONNECT | DONE | FINISH

datatype RequestType = GIT_PUSH | GIT_CLONE | UNKNOWN_TYPE

datatype StatusCode = OK | UNKNOWN | INTERNAL | UNIMPLEMENTED

record Status =
  code :: StatusCode
  error_message :: string

definition Status_OK :: Status where
  "Status_OK = \<lparr>code = OK, error_message = []\<rparr>"

record GenericResponse =
  success :: bool
  errorMessage :: string

definition GenericResponse_default :: GenericResponse where
  "GenericResponse_default = \<lparr>success = False, errorMessage = []\<rparr>"

section \<open>Results of type const char*\<close>

text \<open>
  A \<^verbatim>\<open>const char*\<close> is a string literal of the program or points into a buffer of the library.
  The sources compare such pointers with \<^verbatim>\<open>strcmp\<close>, after conversion to \<^verbatim>\<open>std::string\<close>,
  and in places with \<^verbatim>\<open>!=\<close>, which compares addresses.
\<close>

datatype cstring = Literal string | Buffer string

fun chars :: "cstring \<Rightarrow> string" where
  "chars (Literal s) = c_str s"
| "chars (Buffer s) = c_str s"

fun same_address :: "build_cfg \<Rightarrow> cstring \<Rightarrow> string \<Rightarrow> bool" where
  "same_address B (Literal s) l \<longleftrightarrow> s = l \<and> lits_shared B"
| "same_address B (Buffer s) l \<longleftrightarrow> False"

lemma same_address_chars: "same_address B m l \<Longrightarrow> chars m = c_str l"
  by (cases m) auto

section \<open>libgit2\<close>

type_synonym git_oid = "byte list"

text \<open>
  Out-parameters are passed with the value they held before the call, since the library may
  leave them alone when it fails. \<open>giterr_last\<close> is the message of the last error of the thread,
  if there is an error object and it carries a message.
\<close>

record 'w libgit2 =
  git_repository_open_bare :: "string \<Rightarrow> ptr \<Rightarrow> 'w \<Rightarrow> int \<times> ptr \<times> 'w"
  git_repository_open :: "string \<Rightarrow> ptr \<Rightarrow> 'w \<Rightarrow> int \<times> ptr \<times> 'w"
  git_repository_odb :: "ptr \<Rightarrow> ptr \<Rightarrow> 'w \<Rightarrow> int \<times> ptr \<times> 'w"
  git_odb_write_pack :: "ptr \<Rightarrow> ptr \<Rightarrow> 'w \<Rightarrow> int \<times> ptr \<times> 'w"
  writepack_append :: "nat \<Rightarrow> byte list \<Rightarrow> 'w \<Rightarrow> int \<times> 'w"
  writepack_commit :: "nat \<Rightarrow> 'w \<Rightarrow> int \<times> 'w"
  writepack_free :: "nat \<Rightarrow> 'w \<Rightarrow> 'w"
  git_odb_free :: "ptr \<Rightarrow> 'w \<Rightarrow> 'w"
  git_repository_free :: "ptr \<Rightarrow> 'w \<Rightarrow> 'w"
  git_oid_fromstr :: "string \<Rightarrow> git_oid \<Rightarrow> 'w \<Rightarrow> int \<times> git_oid \<times> 'w"
  git_reference_create :: "ptr \<Rightarrow> string \<Rightarrow> git_oid \<Rightarrow> int \<Rightarrow> ptr \<Rightarrow> 'w \<Rightarrow> int \<times> ptr \<times> 'w"
  git_repository_set_head :: "ptr \<Rightarrow> string \<Rightarrow> 'w \<Rightarrow> int \<times> 'w"
  git_reference_free :: "ptr \<Rightarrow> 'w \<Rightarrow> 'w"
  git_reference_iterator_new :: "ptr \<Rightarrow> ptr \<Rightarrow> 'w \<Rightarrow> int \<times> ptr \<times> 'w"
  git_reference_next :: "ptr \<Rightarrow> ptr \<Rightarrow> 'w \<Rightarrow> int \<times> ptr \<times> 'w"
  git_reference_name :: "nat \<Rightarrow> 'w \<Rightarrow> string"
  git_reference_name_to_id :: "ptr \<Rightarrow> string \<Rightarrow> 'w \<Rightarrow> int \<times> git_oid \<times> 'w"
  git_oid_tostr :: "nat \<Rightarrow> git_oid \<Rightarrow> string"
  git_reference_iterator_free :: "ptr \<Rightarrow> 'w \<Rightarrow> 'w"
  giterr_last :: "'w \<Rightarrow> string option"

definition GIT_ITEROVER :: int where
  "GIT_ITEROVER = -31"

definition GIT_OID_HEXSZ :: nat where
  "GIT_OID_HEXSZ = 40"

text \<open>Passing on a pointer variable that was never assigned is undefined; passing null is not.\<close>

fun assigned :: "ptr \<Rightarrow> ptr result" where
  "assigned Uninit = Inl UninitRead"
| "assigned p = Inr p"

lemma assigned_eq_Inr_iff [simp]: "assigned p = Inr q \<longleftrightarrow> q = p \<and> p \<noteq> Uninit"
  by (cases p) auto

lemma assigned_Inr [simp]: "p \<noteq> Uninit \<Longrightarrow> assigned p = Inr p"
  by simp

section \<open>Common\<close>

definition CheckForError :: "'w libgit2 \<Rightarrow> int \<Rightarrow> string \<Rightarrow> 'w \<Rightarrow> cstring" where
  "CheckForError L errCode message w =
     (case giterr_last L w of
        Some msg \<Rightarrow> Buffer msg
      | None \<Rightarrow> if errCode = 0 then Literal '''' else Literal '''')"

record CommonResponseInfo =
  requestStatus :: Status
  info_errorMessage :: string
  info_success :: bool

text \<open>The third argument of \<^verbatim>\<open>Common::Response\<close> is not used: the status is always OK.\<close>

definition Response :: "string \<Rightarrow> bool \<Rightarrow> StatusCode \<Rightarrow> CommonResponseInfo" where
  "Response msg success' status' =
     \<lparr>requestStatus = Status_OK, info_errorMessage = msg, info_success = success'\<rparr>"

definition DEFAULT_REPO_PATH :: string where
  "DEFAULT_REPO_PATH = ''/home/rstat1/Apps/test/''"

definition REPO_PATH :: "string \<Rightarrow> string" where
  "REPO_PATH name = DEFAULT_REPO_PATH @ name"

definition SERVER_SOCKET :: string where
  "SERVER_SOCKET = ''nexus_git_service''"

lemma DEFAULT_REPO_PATH_no_nul [simp]: "CHR 0x00 \<notin> set DEFAULT_REPO_PATH"
  by (simp add: DEFAULT_REPO_PATH_def)

lemma c_str_REPO_PATH: "c_str (REPO_PATH name) = REPO_PATH (c_str name)"
  by (simp add: REPO_PATH_def c_str_append)

text \<open>
  The result of a failing call is the library's message. When the library has none, it is the
  empty string: the call still counts as failed, but says nothing.
\<close>

lemma chars_CheckForError:
  "chars (CheckForError L errCode message w) =
     (case giterr_last L w of Some msg \<Rightarrow> c_str msg | None \<Rightarrow> '''')"
  by (simp add: CheckForError_def split: option.split)

lemma CheckForError_not_literal_success [simp]:
  "\<not> same_address B (CheckForError L errCode message w) ''success''"
  by (simp add: CheckForError_def split: option.split)

end
