(* ===== verification/Git_Repo.thy ===== *)
theory Git_Repo
  imports Git_Common
begin

text \<open>
  \<^verbatim>\<open>services/git/repository/GitRepo\<close>: one bare repository held open through libgit2, with its
  object database and the pack writer. The object's pointers are uninitialised until
  \<^verbatim>\<open>Open\<close> stores them; the destructor uses all three of them.
\<close>

section \<open>Data\<close>

record ReferenceInfo =
  refName :: string
  refHash :: string

record GetRefsResponse =
  refs_success :: bool
  refs_error :: string
  refs :: "ReferenceInfo list"

text \<open>\<^verbatim>\<open>tStats\<close> is only ever filled in by the library and never read, so it has no field here.\<close>

record GitRepo =
  odb :: ptr
  repoPath :: string
  repo :: ptr
  wp :: ptr
  valueName :: string

definition SetName :: "GitRepo \<Rightarrow> string \<Rightarrow> GitRepo" where
  "SetName r n = r\<lparr>valueName := n\<rparr>"

definition GetName :: "GitRepo \<Rightarrow> string" where
  "GetName r = valueName r"

section \<open>Operations\<close>

definition GitRepo_new :: "build_cfg \<Rightarrow> string \<Rightarrow> GitRepo result" where
  "GitRepo_new B name =
     (if \<not> ndebug B \<and> length name = 0 then Inl AssertFailed
      else
        let r = SetName \<lparr>odb = Uninit, repoPath = [], repo = Uninit, wp = Uninit, valueName = []\<rparr> name;
            r = r\<lparr>repoPath := repoPath r @ DEFAULT_REPO_PATH\<rparr>;
            r = r\<lparr>repoPath := repoPath r @ name\<rparr>
        in Inr r)"

definition GitRepo_delete :: "'w libgit2 \<Rightarrow> GitRepo \<Rightarrow> 'w \<Rightarrow> 'w result" where
  "GitRepo_delete L r w =
     bindr (deref (wp r)) (\<lambda>p.
     let w = writepack_free L p w in
     bindr (assigned (odb r)) (\<lambda>d.
     let w = git_odb_free L d w in
     bindr (assigned (repo r)) (\<lambda>g.
     Inr (git_repository_free L g w))))"

definition InitWritePackFunctions :: "'w libgit2 \<Rightarrow> GitRepo \<Rightarrow> 'w \<Rightarrow> (cstring \<times> GitRepo \<times> 'w) result" where
  "InitWritePackFunctions L r w =
     bindr (assigned (odb r)) (\<lambda>d.
     let (errCode, p, w) = git_odb_write_pack L (wp r) d w; r = r\<lparr>wp := p\<rparr> in
     if errCode \<noteq> 0 then Inr (CheckForError L errCode ''getting writepack funcptrs'' w, r, w)
     else Inr (Literal ''success'', r, w))"

definition Open :: "'w libgit2 \<Rightarrow> build_cfg \<Rightarrow> GitRepo \<Rightarrow> bool \<Rightarrow> 'w \<Rightarrow> (cstring \<times> GitRepo \<times> 'w) result" where
  "Open L B r bare w =
     (let (errCode, p, w) =
            (if bare then git_repository_open_bare L (c_str (repoPath r)) (repo r) w
             else git_repository_open L (c_str (repoPath r)) (repo r) w);
          r = r\<lparr>repo := p\<rparr> in
      if errCode \<noteq> 0 then Inr (CheckForError L errCode ''opening repo'' w, r, w)
      else
        bindr (assigned (repo r)) (\<lambda>g.
        let (errCode, p, w) = git_repository_odb L (odb r) g w; r = r\<lparr>odb := p\<rparr> in
        if errCode \<noteq> 0 then Inr (CheckForError L errCode ''getting odb ref'' w, r, w)
        else
          bindr (InitWritePackFunctions L r w) (\<lambda>(wpInitRet, r, w).
          if \<not> same_address B wpInitRet ''success'' then Inr (wpInitRet, r, w)
          else Inr (Literal ''success'', r, w))))"

definition PackAppend :: "'w libgit2 \<Rightarrow> GitRepo \<Rightarrow> byte list \<Rightarrow> 'w \<Rightarrow> (cstring \<times> 'w) result" where
  "PackAppend L r data w =
     bindr (deref (wp r)) (\<lambda>p.
     let (errCode, w) = writepack_append L p data w in
     if errCode \<noteq> 0 then Inr (CheckForError L errCode ''pack append'' w, w)
     else Inr (Literal ''success'', w))"

definition PackCommit :: "'w libgit2 \<Rightarrow> GitRepo \<Rightarrow> 'w \<Rightarrow> (cstring \<times> 'w) result" where
  "PackCommit L r w =
     bindr (deref (wp r)) (\<lambda>p.
     let (errCode, w) = writepack_commit L p w in
     if errCode \<noteq> 0 then Inr (CheckForError L errCode ''pack commit'' w, w)
     else Inr (Literal ''success'', w))"

text \<open>
  The object id is a local of the function, uninitialised before \<^verbatim>\<open>git_oid_fromstr\<close> fills it in;
  \<open>junk\<close> is what the stack held there. The new reference is released only on success.
\<close>

definition CreateReference ::
    "'w libgit2 \<Rightarrow> git_oid \<Rightarrow> GitRepo \<Rightarrow> string \<Rightarrow> string \<Rightarrow> 'w \<Rightarrow> (cstring \<times> 'w) result" where
  "CreateReference L junk r rrev rname w =
     (let (errCode, objectID, w) = git_oid_fromstr L rrev junk w in
      if errCode \<noteq> 0 then Inr (CheckForError L errCode ''failed to convert OID to string'' w, w)
      else
        bindr (assigned (repo r)) (\<lambda>g.
        let (errCode, newRef, w) = git_reference_create L g rname objectID 0 Uninit w in
        if errCode \<noteq> 0 then Inr (CheckForError L errCode ''failed to create reference'' w, w)
        else
          let (errCode, w) = git_repository_set_head L g rname w in
          if errCode \<noteq> 0 then Inr (CheckForError L errCode ''failed to set head'' w, w)
          else
            bindr (assigned newRef) (\<lambda>n.
            Inr (Literal ''success'', git_reference_free L n w))))"

text \<open>
  The loop of \<^verbatim>\<open>GetRepoReferences\<close>. \<open>objectID\<close> and \<open>refID\<close> are the function's local pointers;
  they are arguments here so that the loop is the code's loop whatever they hold. The stored
  pair is \<^verbatim>\<open>ReferenceInfo(refID, refName)\<close>, whose constructor takes the name first.
\<close>

partial_function (option) GetRepoReferences_loop ::
    "'w libgit2 \<Rightarrow> ptr \<Rightarrow> ptr \<Rightarrow> GitRepo \<Rightarrow> ptr \<Rightarrow> ptr \<Rightarrow> ReferenceInfo list \<Rightarrow> 'w
       \<Rightarrow> (GetRefsResponse \<times> 'w) result option" where
  "GetRepoReferences_loop L objectID refID r refIter ref' refs' w =
     (let (errCode, ref', w) = git_reference_next L refIter ref' w in
      if errCode = GIT_ITEROVER then
        Some (Inr (\<lparr>refs_success = True, refs_error = ''success'', refs = refs'\<rparr>,
                   git_reference_iterator_free L refIter w))
      else
        case deref ref' of
          Inl e \<Rightarrow> Some (Inl e)
        | Inr a \<Rightarrow>
            let name = git_reference_name L a w in
            case deref objectID of
              Inl e \<Rightarrow> Some (Inl e)
            | Inr out \<Rightarrow>
                let (errCode, oid, w) = git_reference_name_to_id L (repo r) name w in
                if errCode \<noteq> 0 then
                  Some (Inr (\<lparr>refs_success = False,
                              refs_error = chars (CheckForError L errCode ''failed to get reference ID'' w),
                              refs = []\<rparr>, w))
                else
                  case deref refID of
                    Inl e \<Rightarrow> Some (Inl e)
                  | Inr buf \<Rightarrow>
                      let hash = git_oid_tostr L GIT_OID_HEXSZ oid;
                          w = git_reference_free L ref' w in
                      GetRepoReferences_loop L objectID refID r refIter ref'
                        (refs' @ [\<lparr>refName = hash, refHash = name\<rparr>]) w)"

definition GetRepoReferences ::
    "'w libgit2 \<Rightarrow> GitRepo \<Rightarrow> 'w \<Rightarrow> (GetRefsResponse \<times> 'w) result option" where
  "GetRepoReferences L r w =
     (case assigned (repo r) of
        Inl e \<Rightarrow> Some (Inl e)
      | Inr g \<Rightarrow>
          let (errCode, refIter, w) = git_reference_iterator_new L g Uninit w in
          if errCode \<noteq> 0 then
            Some (Inr (\<lparr>refs_success = False,
                        refs_error = chars (CheckForError L errCode ''failed to create reference iterator'' w),
                        refs = []\<rparr>, w))
          else GetRepoReferences_loop L Uninit Uninit r refIter Uninit [] w)"

definition TransferProgressCB :: "'stats \<Rightarrow> 'p \<Rightarrow> int" where
  "TransferProgressCB stats payload = 0"

section \<open>What libgit2 promises\<close>

text \<open>
  The two facts of libgit2's documentation that the class relies on: a call that returns 0 has
  stored a handle in its out-parameter, and an error message never reads \<open>success\<close>.
\<close>

definition stores_handles :: "'w libgit2 \<Rightarrow> bool" where
  "stores_handles L \<longleftrightarrow>
     (\<forall>s p w q w'. git_repository_open_bare L s p w = (0, q, w') \<longrightarrow> (\<exists>a. q = Ptr a)) \<and>
     (\<forall>s p w q w'. git_repository_open L s p w = (0, q, w') \<longrightarrow> (\<exists>a. q = Ptr a)) \<and>
     (\<forall>p g w q w'. git_repository_odb L p g w = (0, q, w') \<longrightarrow> (\<exists>a. q = Ptr a)) \<and>
     (\<forall>p d w q w'. git_odb_write_pack L p d w = (0, q, w') \<longrightarrow> (\<exists>a. q = Ptr a)) \<and>
     (\<forall>g s i f p w q w'. git_reference_create L g s i f p w = (0, q, w') \<longrightarrow> (\<exists>a. q = Ptr a))"

definition errors_differ_from_success :: "'w libgit2 \<Rightarrow> bool" where
  "errors_differ_from_success L \<longleftrightarrow> (\<forall>w m. giterr_last L w = Some m \<longrightarrow> c_str m \<noteq> ''success'')"

text \<open>The reference for the pieces of a pack: written one after the other, each without error.\<close>

fun write_all :: "'w libgit2 \<Rightarrow> nat \<Rightarrow> byte list list \<Rightarrow> 'w \<Rightarrow> 'w option" where
  "write_all L p [] w = Some w"
| "write_all L p (d # ds) w =
     (let (e, w) = writepack_append L p d w in if e = 0 then write_all L p ds w else None)"

section \<open>Lemmas\<close>

lemma stores_handlesD:
  assumes "stores_handles L"
  shows "git_repository_open_bare L s p w = (0, q, w') \<Longrightarrow> \<exists>a. q = Ptr a"
    and "git_repository_open L s p w = (0, q, w') \<Longrightarrow> \<exists>a. q = Ptr a"
    and "git_repository_odb L p g w = (0, q, w') \<Longrightarrow> \<exists>a. q = Ptr a"
    and "git_odb_write_pack L p d w = (0, q, w') \<Longrightarrow> \<exists>a. q = Ptr a"
    and "git_reference_create L g s i f p w = (0, q, w') \<Longrightarrow> \<exists>a. q = Ptr a"
  using assms unfolding stores_handles_def by - (metis+)

definition repo_open :: "GitRepo \<Rightarrow> bool" where
  "repo_open r \<longleftrightarrow> (\<exists>a b c. repo r = Ptr a \<and> odb r = Ptr b \<and> wp r = Ptr c)"

lemma CheckForError_failure:
  "errors_differ_from_success L \<Longrightarrow> chars (CheckForError L e m w) \<noteq> ''success''"
  by (auto simp: chars_CheckForError errors_differ_from_success_def split: option.split)

lemma GitRepo_new_simps:
  "name \<noteq> [] \<or> ndebug B \<Longrightarrow> GitRepo_new B name =
     Inr \<lparr>odb = Uninit, repoPath = REPO_PATH name, repo = Uninit, wp = Uninit, valueName = name\<rparr>"
  by (auto simp: GitRepo_new_def SetName_def REPO_PATH_def Let_def)

lemma GitRepo_new_GetName: "GitRepo_new B name = Inr r \<Longrightarrow> GetName r = name"
  by (auto simp: GitRepo_new_def SetName_def GetName_def Let_def split: if_splits)

text \<open>
  \<open>Open\<close> keeps name and path. Whether literals share storage does not matter to the caller: both
  answers of the address comparison return the characters of the inner result.
\<close>

lemma Open_frame:
  assumes "Open L B r bare w = Inr (m, r', w')"
  shows "valueName r' = valueName r" and "repoPath r' = repoPath r"
  using assms
  by (auto simp: Open_def InitWritePackFunctions_def bindr_eq_Inr_iff Let_def
           split: prod.splits if_splits)

lemma same_address_success_Literal [simp]:
  "same_address B (Literal ''success'') ''success'' \<longleftrightarrow> lits_shared B"
  by simp

lemma Open_success_open:
  assumes "Open L B r bare w = Inr (m, r', w')" and "chars m = ''success''"
    and "stores_handles L" and "errors_differ_from_success L"
  shows "repo_open r'"
proof -
  note err = CheckForError_failure [OF assms(4)]
  from assms(1,2) obtain g w1 d w2 p where
      1: "(if bare then git_repository_open_bare L (c_str (repoPath r)) (repo r) w
           else git_repository_open L (c_str (repoPath r)) (repo r) w) = (0, g, w1)"
    and 2: "git_repository_odb L (odb r) g w1 = (0, d, w2)"
    and 3: "git_odb_write_pack L (wp r) d w2 = (0, p, w')"
    and r': "r' = r\<lparr>repo := g, odb := d, wp := p\<rparr>"
    by (auto simp: Open_def InitWritePackFunctions_def bindr_eq_Inr_iff Let_def err
             split: prod.splits if_splits)
  note out = stores_handlesD [OF assms(3)]
  from 1 have "\<exists>a. g = Ptr a" by (cases bare) (auto dest: out)
  with out(3) [OF 2] out(4) [OF 3] show ?thesis by (auto simp: repo_open_def r')
qed

lemma repo_open_delete:
  assumes "repo_open r"
  shows "\<exists>c. wp r = Ptr c \<and> GitRepo_delete L r w =
           Inr (git_repository_free L (repo r) (git_odb_free L (odb r) (writepack_free L c w)))"
  using assms by (auto simp: repo_open_def GitRepo_delete_def)

lemma GitRepo_delete_unopened:
  "wp r = Uninit \<Longrightarrow> GitRepo_delete L r w = Inl UninitRead"
  by (simp add: GitRepo_delete_def)

text \<open>A failing open of a fresh object leaves the pack writer uninitialised unless the last of
  the three library calls was reached.\<close>

lemma Open_fails_early_wp:
  assumes "git_repository_open_bare L (c_str (repoPath r)) (repo r) w = (e, g, w1)" and "e \<noteq> 0"
  shows "Open L B r True w = Inr (CheckForError L e ''opening repo'' w1, r\<lparr>repo := g\<rparr>, w1)"
  using assms by (simp add: Open_def)

lemma PackAppend_open:
  assumes "wp r = Ptr p" and "writepack_append L p data w = (e, w')"
  shows "PackAppend L r data w =
           Inr (if e \<noteq> 0 then CheckForError L e ''pack append'' w' else Literal ''success'', w')"
  using assms by (simp add: PackAppend_def)

lemma PackCommit_open:
  assumes "wp r = Ptr p" and "writepack_commit L p w = (e, w')"
  shows "PackCommit L r w =
           Inr (if e \<noteq> 0 then CheckForError L e ''pack commit'' w' else Literal ''success'', w')"
  using assms by (simp add: PackCommit_def)

lemma PackAppend_unopened: "wp r = Uninit \<Longrightarrow> PackAppend L r data w = Inl UninitRead"
  by (simp add: PackAppend_def)

lemma CreateReference_defined:
  assumes "repo r = Ptr g" and "stores_handles L"
  shows "\<exists>ret w'. CreateReference L junk r rrev rname w = Inr (ret, w')"
proof -
  obtain e1 oid w1 where 1: "git_oid_fromstr L rrev junk w = (e1, oid, w1)" by (metis prod_cases3)
  obtain e2 n w2 where 2: "git_reference_create L (Ptr g) rname oid 0 Uninit w1 = (e2, n, w2)"
    by (metis prod_cases3)
  obtain e3 w3 where 3: "git_repository_set_head L (Ptr g) rname w2 = (e3, w3)" by fastforce
  from 2 have "e2 = 0 \<Longrightarrow> n \<noteq> Uninit" using stores_handlesD(5) [OF assms(2)] by blast
  with 1 2 3 assms(1) show ?thesis
    by (cases "e1 = 0"; cases "e2 = 0"; cases "e3 = 0") (simp_all add: CreateReference_def)
qed

lemma GetRepoReferences_loop_uninit:
  assumes "git_reference_next L refIter ref' w = (e, ref'', w')"
  shows "GetRepoReferences_loop L Uninit refID r refIter ref' refs' w =
     Some (if e = GIT_ITEROVER
           then Inr (\<lparr>refs_success = True, refs_error = ''success'', refs = refs'\<rparr>,
                     git_reference_iterator_free L refIter w')
           else case deref ref'' of Inl f \<Rightarrow> Inl f | Inr a \<Rightarrow> Inl UninitRead)"
  using assms
  by (subst GetRepoReferences_loop.simps) (simp add: Let_def split: sum.split)

end
