(* ===== verification/Mem_Git.thy ===== *)
theory Mem_Git
  imports Git_Repo
begin

text \<open>
  A small in-memory object database with the interface of libgit2, at which the hypotheses about
  the library are shown to hold and the development's theorems are applied to concrete inputs.
  It models no code of the repository.
\<close>

record mem =
  disk :: "string list"
  handles :: nat
  packs :: "(nat \<times> byte list) list"
  commits :: "byte list list"
  mem_refs :: "(string \<times> git_oid) list"
  mem_head :: string
  failed :: bool
  freed :: "ptr list"

definition mem_new_handle :: "mem \<Rightarrow> int \<times> ptr \<times> mem" where
  "mem_new_handle m = (0, Ptr (handles m), m\<lparr>handles := Suc (handles m)\<rparr>)"

definition mem_open :: "string \<Rightarrow> ptr \<Rightarrow> mem \<Rightarrow> int \<times> ptr \<times> mem" where
  "mem_open s p m =
     (if s \<in> set (disk m) then mem_new_handle m else (-3, Null, m\<lparr>failed := True\<rparr>))"

definition mem_write_pack :: "ptr \<Rightarrow> ptr \<Rightarrow> mem \<Rightarrow> int \<times> ptr \<times> mem" where
  "mem_write_pack p d m = mem_new_handle (m\<lparr>packs := (handles m, []) # packs m\<rparr>)"

definition mem_packed :: "nat \<Rightarrow> mem \<Rightarrow> byte list" where
  "mem_packed p m = (case map_of (packs m) p of Some bs \<Rightarrow> bs | None \<Rightarrow> [])"

definition mem_append :: "nat \<Rightarrow> byte list \<Rightarrow> mem \<Rightarrow> int \<times> mem" where
  "mem_append p bs m = (0, m\<lparr>packs := (p, mem_packed p m @ bs) # packs m\<rparr>)"

definition mem_commit :: "nat \<Rightarrow> mem \<Rightarrow> int \<times> mem" where
  "mem_commit p m = (0, m\<lparr>commits := mem_packed p m # commits m\<rparr>)"

definition mem_create_ref :: "ptr \<Rightarrow> string \<Rightarrow> git_oid \<Rightarrow> int \<Rightarrow> ptr \<Rightarrow> mem \<Rightarrow> int \<times> ptr \<times> mem" where
  "mem_create_ref g s i f p m =
     (if f = 0 \<and> s \<in> fst ` set (mem_refs m) then (-4, p, m\<lparr>failed := True\<rparr>)
      else mem_new_handle (m\<lparr>mem_refs := (s, i) # mem_refs m\<rparr>))"

definition mem_set_head :: "ptr \<Rightarrow> string \<Rightarrow> mem \<Rightarrow> int \<times> mem" where
  "mem_set_head g s m =
     (if s \<in> fst ` set (mem_refs m) then (0, m\<lparr>mem_head := s\<rparr>) else (-1, m\<lparr>failed := True\<rparr>))"

definition mem_ref_next :: "ptr \<Rightarrow> ptr \<Rightarrow> mem \<Rightarrow> int \<times> ptr \<times> mem" where
  "mem_ref_next it p m = (if mem_refs m = [] then (GIT_ITEROVER, p, m) else (0, Ptr 0, m))"

definition mem_git :: "mem libgit2" where
  "mem_git =
     \<lparr>git_repository_open_bare = mem_open,
      git_repository_open = mem_open,
      git_repository_odb = \<lambda>p g. mem_new_handle,
      git_odb_write_pack = mem_write_pack,
      writepack_append = mem_append,
      writepack_commit = mem_commit,
      writepack_free = \<lambda>p m. m\<lparr>freed := Ptr p # freed m\<rparr>,
      git_odb_free = \<lambda>p m. m\<lparr>freed := p # freed m\<rparr>,
      git_repository_free = \<lambda>p m. m\<lparr>freed := p # freed m\<rparr>,
      git_oid_fromstr = \<lambda>s i m. (if length s = 40 then (0, replicate 20 0, m) else (-1, i, m\<lparr>failed := True\<rparr>)),
      git_reference_create = mem_create_ref,
      git_repository_set_head = mem_set_head,
      git_reference_free = \<lambda>p m. m\<lparr>freed := p # freed m\<rparr>,
      git_reference_iterator_new = \<lambda>g p. mem_new_handle,
      git_reference_next = mem_ref_next,
      git_reference_name = \<lambda>a m. (case mem_refs m of [] \<Rightarrow> [] | x # _ \<Rightarrow> fst x),
      git_reference_name_to_id = \<lambda>g s m. (case map_of (mem_refs m) s of Some i \<Rightarrow> (0, i, m) | None \<Rightarrow> (-3, [], m)),
      git_oid_tostr = \<lambda>n i. replicate (n - 1) CHR ''0'',
      git_reference_iterator_free = \<lambda>p m. m\<lparr>freed := p # freed m\<rparr>,
      giterr_last = \<lambda>m. if failed m then Some ''path not found'' else None\<rparr>"

definition mem_empty :: mem where
  "mem_empty = \<lparr>disk = [], handles = 1, packs = [], commits = [], mem_refs = [], mem_head = [],
                failed = False, freed = []\<rparr>"

definition mem_with_repo :: "string \<Rightarrow> mem" where
  "mem_with_repo name = mem_empty\<lparr>disk := [REPO_PATH name]\<rparr>"

lemmas mem_git_defs =
  mem_git_def mem_open_def mem_new_handle_def mem_write_pack_def mem_append_def mem_commit_def
  mem_packed_def mem_create_ref_def mem_set_head_def mem_ref_next_def mem_empty_def mem_with_repo_def

lemma mem_git_stores_handles: "stores_handles mem_git"
  by (auto simp: stores_handles_def mem_git_defs)

lemma mem_git_errors: "errors_differ_from_success mem_git"
  by (auto simp: errors_differ_from_success_def mem_git_def c_str_def)

definition debug_build :: build_cfg where
  "debug_build = \<lparr>ndebug = False, lits_shared = True\<rparr>"

definition release_build :: build_cfg where
  "release_build = \<lparr>ndebug = True, lits_shared = True\<rparr>"

end
