(* ===== verification/Step_Systems.thy ===== *)
theory Step_Systems
  imports Prelude
begin

text \<open>
  What the state machines of the development share: the manager, the pump's protocol, the unary handlers
  and the requests in the queue each have a step relation, states to start in, and an invariant. The locale
  \<open>step_invariant\<close> is their contract.
\<close>

inductive reachable :: "('s \<Rightarrow> bool) \<Rightarrow> ('s \<Rightarrow> 's \<Rightarrow> bool) \<Rightarrow> 's \<Rightarrow> bool"
  for start :: "'s \<Rightarrow> bool" and step :: "'s \<Rightarrow> 's \<Rightarrow> bool" where
  reachable_start: "start s \<Longrightarrow> reachable start step s"
| reachable_step: "reachable start step s \<Longrightarrow> step s s' \<Longrightarrow> reachable start step s'"

lemma reachable_init: "reachable (\<lambda>s. s = s0) step s0"
  by (simp add: reachable_start)

lemma reachable_steps: "step\<^sup>*\<^sup>* s s' \<Longrightarrow> reachable start step s \<Longrightarrow> reachable start step s'"
  by (induction rule: rtranclp_induct) (auto intro: reachable_step)

locale step_invariant =
  fixes start :: "'s \<Rightarrow> bool" and step :: "'s \<Rightarrow> 's \<Rightarrow> bool" and inv :: "'s \<Rightarrow> bool"
  assumes at_start: "start s \<Longrightarrow> inv s"
    and kept: "step s s' \<Longrightarrow> inv s \<Longrightarrow> inv s'"
begin

lemma holds: "reachable start step s \<Longrightarrow> inv s"
  by (induction rule: reachable.induct) (auto intro: at_start kept)

lemma kept_by_steps: "step\<^sup>*\<^sup>* s s' \<Longrightarrow> inv s \<Longrightarrow> inv s'"
  by (induction rule: rtranclp_induct) (auto intro: kept)

end

end
