(* ===== verification/Repository_Manager.thy ===== *)
theory Repository_Manager
  imports Mem_Git Step_Systems
begin

text \<open>
  \<^verbatim>\<open>services/git/repository/RepositoryManager\<close>: the singleton that owns the repository the
  server currently works on. Each operation takes the manager's lock for its whole body, so it is
  one atomic step here. What an operation stores in the promise of its argument object is the
  first component of its result.

  The manager's \<^verbatim>\<open>GitRepo\<close> objects live on the heap: \<open>objects\<close> lists every one ever
  allocated, in order of allocation, with \<open>None\<close> in place of those that were deleted. A pointer
  to an object is its position. \<open>world\<close> is the state of libgit2.
\<close>

section \<open>State\<close>

record 'w RepositoryManager =
  currentRepo :: "nat option"
  repoRefCnt :: "32 word"
  objects :: "GitRepo option list"
  world :: 'w

text \<open>The singleton is value-initialised: the pointer is null and the counter zero.\<close>

definition RepositoryManager_new :: "'w \<Rightarrow> 'w RepositoryManager" where
  "RepositoryManager_new w = \<lparr>currentRepo = None, repoRefCnt = 0, objects = [], world = w\<rparr>"

definition Init :: "'w RepositoryManager \<Rightarrow> 'w RepositoryManager" where
  "Init M = M\<lparr>repoRefCnt := 0\<rparr>"

definition object_at :: "'w RepositoryManager \<Rightarrow> nat \<Rightarrow> GitRepo result" where
  "object_at M a =
     (if a < length (objects M)
      then case objects M ! a of Some r \<Rightarrow> Inr r | None \<Rightarrow> Inl UseAfterFree
      else Inl OutOfBounds)"

definition current_object :: "'w RepositoryManager \<Rightarrow> GitRepo result" where
  "current_object M = (case currentRepo M of None \<Rightarrow> Inl NullDeref | Some a \<Rightarrow> object_at M a)"

section \<open>Operations\<close>

text \<open>\<open>name\<close> is the C string the argument object points to.\<close>

definition OpenRepo ::
    "'w libgit2 \<Rightarrow> build_cfg \<Rightarrow> string \<Rightarrow> 'w RepositoryManager \<Rightarrow> (string \<times> 'w RepositoryManager) result" where
  "OpenRepo L B name M =
     bindr (case currentRepo M of
              None \<Rightarrow> Inr True
            | Some a \<Rightarrow> bindr (object_at M a) (\<lambda>r. Inr (name \<noteq> GetName r))) (\<lambda>reopen.
     if reopen then
       bindr (GitRepo_new B name) (\<lambda>r.
       let a = length (objects M) in
       bindr (Open L B r True (world M)) (\<lambda>(result, r, w).
       let M = M\<lparr>currentRepo := Some a, objects := objects M @ [Some r], world := w\<rparr>;
           M = (if strcmp_eq (chars result) ''success'' then M\<lparr>repoRefCnt := 0\<rparr> else M)
       in Inr (chars result, M)))
     else Inr (''success'', M\<lparr>repoRefCnt := repoRefCnt M + 1\<rparr>))"

definition CloseRepo :: "'w libgit2 \<Rightarrow> 'w RepositoryManager \<Rightarrow> 'w RepositoryManager result" where
  "CloseRepo L M =
     bindr (case currentRepo M of
              None \<Rightarrow> Inr M
            | Some a \<Rightarrow>
                bindr (object_at M a) (\<lambda>r.
                bindr (GitRepo_delete L r (world M)) (\<lambda>w.
                Inr (M\<lparr>objects := (objects M)[a := None], world := w\<rparr>)))) (\<lambda>M.
     Inr (M\<lparr>currentRepo := None, repoRefCnt := 0\<rparr>))"

definition AppendDataToPack ::
    "'w libgit2 \<Rightarrow> byte list \<Rightarrow> 'w RepositoryManager \<Rightarrow> (string \<times> 'w RepositoryManager) result" where
  "AppendDataToPack L data M =
     bindr (current_object M) (\<lambda>r.
     bindr (PackAppend L r data (world M)) (\<lambda>(result, w).
     Inr (chars result, M\<lparr>world := w\<rparr>)))"

definition CommitPackChanges ::
    "'w libgit2 \<Rightarrow> 'w RepositoryManager \<Rightarrow> (string \<times> 'w RepositoryManager) result" where
  "CommitPackChanges L M =
     (if currentRepo M = None then Inr (''repo not open'', M)
      else
        bindr (current_object M) (\<lambda>r.
        bindr (PackCommit L r (world M)) (\<lambda>(ret, w).
        Inr (chars ret, M\<lparr>world := w\<rparr>))))"

definition NewReference ::
    "'w libgit2 \<Rightarrow> git_oid \<Rightarrow> string \<Rightarrow> string \<Rightarrow> 'w RepositoryManager
       \<Rightarrow> (string \<times> 'w RepositoryManager) result" where
  "NewReference L junk rname rrev M =
     (if currentRepo M \<noteq> None then
        bindr (current_object M) (\<lambda>r.
        bindr (CreateReference L junk r (c_str rrev) (c_str rname) (world M)) (\<lambda>(ret, w).
        Inr (chars ret, M\<lparr>world := w\<rparr>)))
      else Inr (''nope'', M))"

definition GetRepoRefs ::
    "'w libgit2 \<Rightarrow> 'w RepositoryManager \<Rightarrow> (GetRefsResponse \<times> 'w RepositoryManager) result option" where
  "GetRepoRefs L M =
     (if currentRepo M \<noteq> None then
        case current_object M of
          Inl e \<Rightarrow> Some (Inl e)
        | Inr r \<Rightarrow>
            map_option (\<lambda>res. bindr res (\<lambda>(resp, w). Inr (resp, M\<lparr>world := w\<rparr>)))
              (GetRepoReferences L r (world M))
      else
        Some (Inr (\<lparr>refs_success = False, refs_error = ''no repo open'', refs = []\<rparr>, M)))"

section \<open>Invariant\<close>

text \<open>
  The current pointer is null or points to a live object, and that is the last object allocated.
  Live objects the manager no longer points to are leaked: nothing can delete them any more.
\<close>

definition manager_inv :: "'w RepositoryManager \<Rightarrow> bool" where
  "manager_inv M \<longleftrightarrow>
     (\<forall>a. currentRepo M = Some a \<longrightarrow> Suc a = length (objects M) \<and> objects M ! a \<noteq> None)"

definition leaked :: "'w RepositoryManager \<Rightarrow> nat set" where
  "leaked M = {a. a < length (objects M) \<and> objects M ! a \<noteq> None \<and> currentRepo M \<noteq> Some a}"

text \<open>The stronger condition under which the pack and reference operations are safe.\<close>

definition healthy :: "'w RepositoryManager \<Rightarrow> bool" where
  "healthy M \<longleftrightarrow>
     (\<forall>a. currentRepo M = Some a \<longrightarrow>
        Suc a = length (objects M) \<and> (\<exists>r. objects M ! a = Some r \<and> repo_open r))"

lemma healthy_manager_inv [inv_intros]: "healthy M \<Longrightarrow> manager_inv M"
  by (auto simp: healthy_def manager_inv_def)

lemma manager_inv_new [inv_intros]: "manager_inv (RepositoryManager_new w)"
  by (simp add: manager_inv_def RepositoryManager_new_def)

lemma healthy_new [inv_intros]: "healthy (RepositoryManager_new w)"
  by (simp add: healthy_def RepositoryManager_new_def)

lemma object_at_Inr_iff [simp]:
  "object_at M a = Inr r \<longleftrightarrow> a < length (objects M) \<and> objects M ! a = Some r"
  by (auto simp: object_at_def split: option.splits)

lemma manager_inv_current:
  assumes "manager_inv M" and "currentRepo M = Some a"
  obtains r where "object_at M a = Inr r"
  using assms by (auto simp: manager_inv_def)

lemma healthy_current:
  assumes "healthy M" and "currentRepo M = Some a"
  obtains r where "object_at M a = Inr r" and "current_object M = Inr r" and "repo_open r"
  using assms by (fastforce simp: healthy_def current_object_def)

lemma current_object_Inr_iff [simp]:
  "current_object M = Inr r \<longleftrightarrow>
     (\<exists>a. currentRepo M = Some a \<and> a < length (objects M) \<and> objects M ! a = Some r)"
  by (auto simp: current_object_def split: option.split)

lemma current_object_world [simp]: "current_object (M\<lparr>world := w\<rparr>) = current_object M"
  by (simp add: current_object_def object_at_def split: option.split)

lemma current_object_open: "current_object M = Inr r \<Longrightarrow> \<exists>a. currentRepo M = Some a"
  by (simp add: current_object_def split: option.splits)

section \<open>The manager as a state machine\<close>

inductive manager_step :: "'w libgit2 \<Rightarrow> build_cfg \<Rightarrow> 'w RepositoryManager \<Rightarrow> 'w RepositoryManager \<Rightarrow> bool"
  for L :: "'w libgit2" and B :: build_cfg where
  step_open: "OpenRepo L B name M = Inr (s, M') \<Longrightarrow> manager_step L B M M'"
| step_close: "CloseRepo L M = Inr M' \<Longrightarrow> manager_step L B M M'"
| step_append: "AppendDataToPack L data M = Inr (s, M') \<Longrightarrow> manager_step L B M M'"
| step_commit: "CommitPackChanges L M = Inr (s, M') \<Longrightarrow> manager_step L B M M'"
| step_newref: "NewReference L junk rname rrev M = Inr (s, M') \<Longrightarrow> manager_step L B M M'"
| step_refs: "GetRepoRefs L M = Some (Inr (resp, M')) \<Longrightarrow> manager_step L B M M'"

abbreviation manager_reachable :: "'w libgit2 \<Rightarrow> build_cfg \<Rightarrow> 'w \<Rightarrow> 'w RepositoryManager \<Rightarrow> bool" where
  "manager_reachable L B w \<equiv> reachable (\<lambda>M. M = Init (RepositoryManager_new w)) (manager_step L B)"

text \<open>The operations that only talk to libgit2 change nothing but its state.\<close>

lemma AppendDataToPack_frame [frame_simps]:
  "AppendDataToPack L data M = Inr (s, M') \<Longrightarrow> \<exists>w. M' = M\<lparr>world := w\<rparr>"
  by (auto simp: AppendDataToPack_def bindr_eq_Inr_iff)

lemma CommitPackChanges_frame [frame_simps]:
  "CommitPackChanges L M = Inr (s, M') \<Longrightarrow> \<exists>w. M' = M\<lparr>world := w\<rparr>"
  by (auto simp: CommitPackChanges_def bindr_eq_Inr_iff split: if_splits intro: exI [of _ "world M"])

lemma NewReference_frame [frame_simps]:
  "NewReference L junk rname rrev M = Inr (s, M') \<Longrightarrow> \<exists>w. M' = M\<lparr>world := w\<rparr>"
  by (auto simp: NewReference_def bindr_eq_Inr_iff split: if_splits intro: exI [of _ "world M"])

lemma GetRepoRefs_frame [frame_simps]:
  "GetRepoRefs L M = Some (Inr (resp, M')) \<Longrightarrow> \<exists>w. M' = M\<lparr>world := w\<rparr>"
  by (auto simp: GetRepoRefs_def bindr_eq_Inr_iff split: if_splits sum.splits
           intro: exI [of _ "world M"])

lemma world_update_inv [simp]:
  "manager_inv (M\<lparr>world := w\<rparr>) = manager_inv M"
  "leaked (M\<lparr>world := w\<rparr>) = leaked M"
  "healthy (M\<lparr>world := w\<rparr>) = healthy M"
  by (simp_all add: manager_inv_def leaked_def healthy_def)

lemma CloseRepo_cases:
  assumes "CloseRepo L M = Inr M'"
  obtains "currentRepo M = None" and "M' = M\<lparr>currentRepo := None, repoRefCnt := 0\<rparr>"
  | a r w where "currentRepo M = Some a" and "object_at M a = Inr r"
      and "GitRepo_delete L r (world M) = Inr w"
      and "M' = M\<lparr>currentRepo := None, repoRefCnt := 0, objects := (objects M)[a := None], world := w\<rparr>"
  using assms by (auto simp: CloseRepo_def bindr_eq_Inr_iff split: option.splits)

lemma OpenRepo_cases:
  assumes "OpenRepo L B name M = Inr (s, M')"
  obtains (again) a r where "currentRepo M = Some a" and "object_at M a = Inr r" and "name = GetName r"
      and "s = ''success''" and "M' = M\<lparr>repoRefCnt := repoRefCnt M + 1\<rparr>"
  | (opened) r m r' w where "GitRepo_new B name = Inr r" and "Open L B r True (world M) = Inr (m, r', w)"
      and "s = chars m"
      and "M' = M\<lparr>currentRepo := Some (length (objects M)), objects := objects M @ [Some r'], world := w,
                  repoRefCnt := (if strcmp_eq (chars m) ''success'' then 0 else repoRefCnt M)\<rparr>"
proof -
  let ?decide = "case currentRepo M of None \<Rightarrow> Inr True
     | Some a \<Rightarrow> bindr (object_at M a) (\<lambda>r. Inr (name \<noteq> GetName r))"
  from assms obtain reopen where d: "?decide = Inr reopen"
    unfolding OpenRepo_def by (rule bindr_eq_InrE)
  show thesis
  proof (cases reopen)
    case True
    with assms d show thesis
      by (auto simp: OpenRepo_def bindr_eq_Inr_iff Let_def intro: opened split: if_splits)
  next
    case False
    with d obtain a r where "currentRepo M = Some a" "object_at M a = Inr r" "name = GetName r"
      by (auto simp: bindr_eq_Inr_iff split: option.splits)
    with assms show thesis by (intro again [of a r]) (auto simp: OpenRepo_def)
  qed
qed

lemma OpenRepo_inv [inv_intros]:
  assumes "OpenRepo L B name M = Inr (s, M')" and "manager_inv M"
  shows "manager_inv M'" and "leaked M \<subseteq> leaked M'"
  using assms by (cases rule: OpenRepo_cases; auto simp: manager_inv_def leaked_def nth_append)+

lemma CloseRepo_inv [inv_intros]:
  assumes "CloseRepo L M = Inr M'" and "manager_inv M"
  shows "manager_inv M'" and "leaked M' = leaked M"
  using assms
  by (cases rule: CloseRepo_cases; auto simp: manager_inv_def leaked_def nth_list_update)+

lemma manager_step_inv [inv_intros]:
  assumes "manager_step L B M M'" and "manager_inv M"
  shows "manager_inv M' \<and> leaked M \<subseteq> leaked M'"
  using assms
proof cases
  case step_open
  with assms(2) show ?thesis by (simp add: OpenRepo_inv)
next
  case step_close
  with assms(2) show ?thesis by (simp add: CloseRepo_inv)
qed (use assms(2) in \<open>auto dest!: frame_simps\<close>)

interpretation managers: step_invariant "\<lambda>M. M = Init (RepositoryManager_new w)" "manager_step L B" manager_inv for w L B
  by unfold_locales (simp add: manager_inv_def Init_def RepositoryManager_new_def, blast dest: manager_step_inv)

section \<open>Behaviour of the operations\<close>

lemma GitRepo_new_defined: "name \<noteq> [] \<or> ndebug B \<Longrightarrow> \<exists>r. GitRepo_new B name = Inr r"
  by (simp add: GitRepo_new_simps)

lemma Open_defined:
  assumes "stores_handles L"
  shows "\<exists>m r' w'. Open L B r bare w = Inr (m, r', w')"
proof -
  note out = stores_handlesD [OF assms]
  obtain e g w1 where 1: "(if bare then git_repository_open_bare L (c_str (repoPath r)) (repo r) w
      else git_repository_open L (c_str (repoPath r)) (repo r) w) = (e, g, w1)"
    by (metis prod_cases3)
  show ?thesis
  proof (cases "e = 0")
    case True
    with 1 have g: "g \<noteq> Uninit" by (cases bare) (auto dest: out)
    obtain e2 d w2 where 2: "git_repository_odb L (odb r) g w1 = (e2, d, w2)"
      by (metis prod_cases3)
    obtain e3 p w3 where 3: "git_odb_write_pack L (wp r) d w2 = (e3, p, w3)"
      by (metis prod_cases3)
    from 2 out(3) have "e2 = 0 \<Longrightarrow> d \<noteq> Uninit" by blast
    with 1 2 3 g True show ?thesis
      by (cases "e2 = 0"; cases "e3 = 0") (simp_all add: Open_def InitWritePackFunctions_def)
  qed (use 1 in \<open>auto simp: Open_def\<close>)
qed

lemma OpenRepo_defined:
  assumes "manager_inv M" and "name \<noteq> [] \<or> ndebug B" and "stores_handles L"
  shows "\<exists>s M'. OpenRepo L B name M = Inr (s, M')"
proof -
  obtain r where r: "GitRepo_new B name = Inr r"
    using GitRepo_new_defined [OF assms(2)] by blast
  obtain m r' w' where "Open L B r True (world M) = Inr (m, r', w')"
    using Open_defined [OF assms(3)] by blast
  with r show ?thesis
  proof (cases "currentRepo M")
    case (Some a)
    with assms(1) obtain c where "object_at M a = Inr c" by (rule manager_inv_current)
    with Some r \<open>Open L B r True (world M) = _\<close> show ?thesis
      by (auto simp: OpenRepo_def Let_def simp del: object_at_Inr_iff)
  qed (auto simp: OpenRepo_def Let_def)
qed

lemma OpenRepo_healthy:
  assumes "OpenRepo L B name M = Inr (''success'', M')" and "healthy M"
    and "stores_handles L" and "errors_differ_from_success L"
  shows "healthy M' \<and> (\<exists>r. current_object M' = Inr r \<and> GetName r = name)"
  using assms(1)
proof (cases rule: OpenRepo_cases)
  case (again a r)
  with assms(2) show ?thesis by (auto simp: healthy_def)
next
  case (opened r m r' w)
  with assms(3,4) have "repo_open r'" by (metis Open_success_open)
  moreover from opened have "GetName r' = name"
    by (metis GitRepo_new_GetName Open_frame(1) GetName_def)
  ultimately show ?thesis using opened by (auto simp: healthy_def)
qed

lemma healthy_ops_defined:
  assumes "healthy M" and "currentRepo M = Some a" and "stores_handles L"
  shows "\<exists>s M'. AppendDataToPack L data M = Inr (s, M') \<and> healthy M'"
    and "\<exists>s M'. CommitPackChanges L M = Inr (s, M') \<and> healthy M'"
    and "\<exists>s M'. NewReference L junk rname rrev M = Inr (s, M') \<and> healthy M'"
    and "\<exists>M'. CloseRepo L M = Inr M' \<and> healthy M' \<and> currentRepo M' = None \<and> leaked M' = leaked M"
proof -
  obtain r where r: "object_at M a = Inr r" "current_object M = Inr r" "repo_open r"
    using healthy_current [OF assms(1,2)] by blast
  from r(3) obtain g d p where ptrs: "repo r = Ptr g" "odb r = Ptr d" "wp r = Ptr p"
    by (auto simp: repo_open_def)
  show "\<exists>s M'. AppendDataToPack L data M = Inr (s, M') \<and> healthy M'"
    using r(2) assms(1) ptrs
    by (cases "writepack_append L p data (world M)")
       (auto simp: AppendDataToPack_def PackAppend_open simp del: current_object_Inr_iff)
  show "\<exists>s M'. CommitPackChanges L M = Inr (s, M') \<and> healthy M'"
    using r(2) assms(1,2) ptrs
    by (cases "writepack_commit L p (world M)")
       (auto simp: CommitPackChanges_def PackCommit_open simp del: current_object_Inr_iff)
  obtain ret w where "CreateReference L junk r (c_str rrev) (c_str rname) (world M) = Inr (ret, w)"
    using CreateReference_defined [OF ptrs(1) assms(3)] by blast
  with r(2) assms(1,2) show "\<exists>s M'. NewReference L junk rname rrev M = Inr (s, M') \<and> healthy M'"
    by (auto simp: NewReference_def simp del: current_object_Inr_iff)
  obtain w where w: "GitRepo_delete L r (world M) = Inr w"
    using repo_open_delete [OF r(3), of L "world M"] by auto
  define M' where "M' = M\<lparr>objects := (objects M)[a := None], world := w, currentRepo := None, repoRefCnt := 0\<rparr>"
  have M': "CloseRepo L M = Inr M'" "currentRepo M' = None"
    using r(1) w assms(2) by (simp_all add: CloseRepo_def M'_def del: object_at_Inr_iff)
  have "leaked M' = leaked M"
    by (rule CloseRepo_inv(2) [OF M'(1) healthy_manager_inv [OF assms(1)]])
  with M' show "\<exists>M'. CloseRepo L M = Inr M' \<and> healthy M' \<and> currentRepo M' = None \<and> leaked M' = leaked M"
    by (auto simp: healthy_def)
qed

section \<open>Properties\<close>

definition demo_name :: string where
  "demo_name = ''demo''"

definition demo_world :: mem where
  "demo_world = mem_with_repo demo_name"

definition demo_repo :: GitRepo where
  "demo_repo = \<lparr>odb = Ptr 2, repoPath = REPO_PATH demo_name, repo = Ptr 1, wp = Ptr 3,
                valueName = demo_name\<rparr>"

definition demo_open :: "mem RepositoryManager" where
  "demo_open =
     \<lparr>currentRepo = Some 0, repoRefCnt = 0,
      objects = [Some demo_repo],
      world = demo_world\<lparr>handles := 4, packs := [(3, [])]\<rparr>\<rparr>"

lemmas demo_defs = demo_name_def demo_world_def demo_repo_def demo_open_def mem_git_defs

lemma demo_open_healthy: "healthy demo_open"
  by (simp add: healthy_def repo_open_def demo_open_def demo_repo_def)

lemma demo_OpenRepo:
  "OpenRepo mem_git debug_build demo_name (Init (RepositoryManager_new demo_world)) =
     Inr (''success'', demo_open)"
  by (simp add: OpenRepo_def Init_def RepositoryManager_new_def GitRepo_new_def SetName_def Open_def
      InitWritePackFunctions_def debug_build_def demo_defs REPO_PATH_def DEFAULT_REPO_PATH_def
      c_str_def strcmp_eq_def Let_def)

text \<open>
  C8. In every state the manager can reach from start-up through its operations, the current
  pointer is null or points to a live object, and no operation ever releases a repository object
  that the manager does not currently point to: a leaked object stays leaked.
\<close>

theorem manager_reachable_inv:
  assumes "manager_reachable L B w M" and "manager_step L B M M'"
  shows "manager_inv M \<and> manager_inv M' \<and> leaked M \<subseteq> leaked M'"
  using managers.holds [OF assms(1)] manager_step_inv [OF assms(2)] by blast

theorem manager_reachable_inv_witness:
  "manager_inv demo_open \<and> leaked (Init (RepositoryManager_new demo_world)) \<subseteq> leaked demo_open"
  using manager_reachable_inv [OF reachable_init step_open [OF demo_OpenRepo]] by blast

text \<open>
  C9. Opening a repository cannot go wrong from a state the manager can be in: whatever libgit2
  answers, the operation ends with a result for the client, provided the name is not empty (an
  empty name fails the assertion of the constructor in debug builds).
\<close>

theorem OpenRepo_answers:
  assumes "manager_inv M" and "name \<noteq> [] \<or> ndebug B" and "stores_handles L"
  shows "\<exists>s M'. OpenRepo L B name M = Inr (s, M') \<and> manager_inv M'"
  using OpenRepo_defined [OF assms] OpenRepo_inv(1) [OF _ assms(1)] by blast

theorem OpenRepo_answers_witness:
  "\<exists>s M'. OpenRepo mem_git debug_build demo_name demo_open = Inr (s, M') \<and> manager_inv M'"
  by (rule OpenRepo_answers)
     (simp_all add: healthy_manager_inv demo_open_healthy demo_name_def mem_git_stores_handles)

text \<open>
  C10. When opening succeeds from a sound state, the manager holds an open repository of exactly
  the requested name, and from such a state appending, committing, creating a reference and
  closing never fault and lead to a sound state again; closing leaves no repository open and
  leaks nothing.
\<close>

theorem open_session_safe:
  assumes "healthy M" and "stores_handles L" and "errors_differ_from_success L"
    and "OpenRepo L B name M = Inr (''success'', M1)"
  shows "healthy M1 \<and> (\<exists>r. current_object M1 = Inr r \<and> GetName r = name) \<and>
    (\<exists>s M2. AppendDataToPack L data M1 = Inr (s, M2) \<and> healthy M2) \<and>
    (\<exists>s M2. CommitPackChanges L M1 = Inr (s, M2) \<and> healthy M2) \<and>
    (\<exists>s M2. NewReference L junk rname rrev M1 = Inr (s, M2) \<and> healthy M2) \<and>
    (\<exists>M2. CloseRepo L M1 = Inr M2 \<and> healthy M2 \<and> currentRepo M2 = None \<and> leaked M2 = leaked M1)"
proof -
  from OpenRepo_healthy [OF assms(4,1,2,3)]
  have h: "healthy M1" and c: "\<exists>r. current_object M1 = Inr r \<and> GetName r = name" by blast+
  from c obtain a where a: "currentRepo M1 = Some a" by auto
  show ?thesis
    using h c healthy_ops_defined [OF h a assms(2)] by blast
qed

theorem open_session_safe_witness:
  "\<exists>M2. CloseRepo mem_git demo_open = Inr M2 \<and> healthy M2 \<and> currentRepo M2 = None \<and>
        leaked M2 = leaked demo_open"
proof -
  have "healthy (Init (RepositoryManager_new demo_world))"
    by (simp add: healthy_def Init_def RepositoryManager_new_def)
  from open_session_safe [OF this mem_git_stores_handles mem_git_errors demo_OpenRepo]
  show ?thesis by blast
qed

text \<open>
  The pack writer of a new repository object after \<^verbatim>\<open>Open\<close>: nothing is stored in it before the
  repository and its object database are open, then what \<^verbatim>\<open>git_odb_write_pack\<close> stores.
\<close>

definition writer_left :: "'w libgit2 \<Rightarrow> string \<Rightarrow> 'w \<Rightarrow> ptr" where
  "writer_left L name w =
     (let (e, g, w) = git_repository_open_bare L (c_str (REPO_PATH name)) Uninit w in
      if e \<noteq> 0 then Uninit
      else
        let (e, d, w) = git_repository_odb L Uninit g w in
        if e \<noteq> 0 then Uninit else fst (snd (git_odb_write_pack L Uninit d w)))"

lemma Open_new_writer:
  assumes "GitRepo_new B name = Inr r" and "Open L B r True w = Inr (m, r', w')"
  shows "wp r' = writer_left L name w"
proof -
  from assms(1) have "r = \<lparr>odb = Uninit, repoPath = REPO_PATH name, repo = Uninit, wp = Uninit, valueName = name\<rparr>"
    by (auto simp: GitRepo_new_def SetName_def REPO_PATH_def Let_def split: if_splits)
  with assms(2) show ?thesis
    by (auto simp: writer_left_def Open_def InitWritePackFunctions_def bindr_eq_Inr_iff Let_def
        split: prod.splits if_splits)
qed

lemma unset_writer_faults:
  assumes "currentRepo M = Some a" and "object_at M a = Inr r" and "wp r = Uninit"
  shows "AppendDataToPack L data M = Inl UninitRead" and "CommitPackChanges L M = Inl UninitRead"
    and "CloseRepo L M = Inl UninitRead"
proof -
  have "current_object M = Inr r" using assms by simp
  with assms show "AppendDataToPack L data M = Inl UninitRead" "CommitPackChanges L M = Inl UninitRead"
    "CloseRepo L M = Inl UninitRead"
    by (simp_all add: AppendDataToPack_def PackAppend_def CommitPackChanges_def PackCommit_def CloseRepo_def
        GitRepo_delete_def del: current_object_Inr_iff object_at_Inr_iff)
qed

text \<open>
  C11. A failed open is remembered as if it had succeeded. After any open that answered with an
  error, whichever call of the library failed and whether or not a repository was open before, the
  manager points to the object of the failed one: asking for the same repository again answers
  \<open>success\<close> and only counts the reference. Its pack writer is what \<open>writer_left\<close> says; when the
  failure came before the writer was asked for, or no writer was stored, appending data,
  committing and closing then read an uninitialised pointer.
\<close>

theorem failed_open_is_remembered:
  assumes "OpenRepo L B name M = Inr (s, M1)" and "s \<noteq> ''success''"
  shows "\<exists>r. current_object M1 = Inr r \<and> GetName r = name \<and> wp r = writer_left L name (world M) \<and>
    OpenRepo L B name M1 = Inr (''success'', M1\<lparr>repoRefCnt := repoRefCnt M1 + 1\<rparr>) \<and>
    (writer_left L name (world M) = Uninit \<longrightarrow>
       AppendDataToPack L data M1 = Inl UninitRead \<and> CommitPackChanges L M1 = Inl UninitRead \<and>
       CloseRepo L M1 = Inl UninitRead)"
  using assms(1)
proof (cases rule: OpenRepo_cases)
  case (again a r)
  with assms(2) show ?thesis by simp
next
  case (opened r m r' w)
  then have cur: "currentRepo M1 = Some (length (objects M))" and obj: "object_at M1 (length (objects M)) = Inr r'"
    by simp_all
  have name: "GetName r' = name"
    using opened(1,2) GitRepo_new_GetName Open_frame(1) by (metis GetName_def)
  have "current_object M1 = Inr r'" using cur obj by simp
  moreover have "OpenRepo L B name M1 = Inr (''success'', M1\<lparr>repoRefCnt := repoRefCnt M1 + 1\<rparr>)"
    using cur obj name by (simp add: OpenRepo_def del: object_at_Inr_iff)
  moreover have "wp r' = writer_left L name (world M)" by (rule Open_new_writer [OF opened(1,2)])
  ultimately show ?thesis using name unset_writer_faults [OF cur obj] by auto
qed

text \<open>A repository is open; opening another, which does not exist, fails.\<close>

theorem failed_open_is_remembered_witness:
  "(let M = snd (projr (OpenRepo mem_git debug_build ''r'' (RepositoryManager_new (mem_with_repo ''r''))));
        M1 = snd (projr (OpenRepo mem_git debug_build ''ghost'' M)) in
    writer_left mem_git ''ghost'' (world M) = Uninit \<and>
    OpenRepo mem_git debug_build ''ghost'' M1 = Inr (''success'', M1\<lparr>repoRefCnt := repoRefCnt M1 + 1\<rparr>) \<and>
    AppendDataToPack mem_git [1] M1 = Inl UninitRead \<and> CommitPackChanges mem_git M1 = Inl UninitRead \<and>
    CloseRepo mem_git M1 = Inl UninitRead)"
proof -
  let ?M = "snd (projr (OpenRepo mem_git debug_build ''r'' (RepositoryManager_new (mem_with_repo ''r''))))"
  let ?r = "projr (OpenRepo mem_git debug_build ''ghost'' ?M)"
  have "OpenRepo mem_git debug_build ''ghost'' ?M = Inr (fst ?r, snd ?r)" "fst ?r \<noteq> ''success''"
    and w: "writer_left mem_git ''ghost'' (world ?M) = Uninit"
    by code_simp+
  from failed_open_is_remembered [OF this(1,2), of "[1]"] w show ?thesis unfolding Let_def by blast
qed

text \<open>
  Switching repositories leaks: opening a repository of another name while one is open leaves
  the old object allocated and unreachable, with its libgit2 handles never released.
\<close>

theorem switching_repositories_leaks:
  assumes "manager_inv M" and "current_object M = Inr r" and "currentRepo M = Some a"
    and "name \<noteq> GetName r" and "OpenRepo L B name M = Inr (s, M')"
  shows "leaked M' = insert a (leaked M) \<and> object_at M' a = Inr r"
  using assms(5)
proof (cases rule: OpenRepo_cases)
  case (again b c)
  with assms show ?thesis by auto
next
  case (opened c m r' w)
  with assms(1-3) show ?thesis
    by (auto simp: leaked_def manager_inv_def nth_append)
qed

theorem switching_repositories_leaks_witness:
  "\<exists>s M'. OpenRepo mem_git debug_build ''other'' demo_open = Inr (s, M') \<and>
          leaked M' = insert 0 (leaked demo_open)"
proof -
  obtain s M' where o: "OpenRepo mem_git debug_build ''other'' demo_open = Inr (s, M')"
    using OpenRepo_defined [OF healthy_manager_inv [OF demo_open_healthy] _ mem_git_stores_handles]
    by blast
  have "leaked M' = insert 0 (leaked demo_open)"
    by (rule conjunct1, rule switching_repositories_leaks
              [OF healthy_manager_inv [OF demo_open_healthy], of demo_repo, OF _ _ _ o])
       (simp_all add: demo_open_def demo_repo_def GetName_def demo_name_def)
  with o show ?thesis by blast
qed

text \<open>
  With no repository open, committing, creating a reference and listing references answer
  with an error message and change nothing, and closing is harmless; appending pack data is the
  one operation without the check, and dereferences the null pointer.
\<close>

theorem operations_without_repository:
  assumes "currentRepo M = None"
  shows "CommitPackChanges L M = Inr (''repo not open'', M) \<and>
    NewReference L junk rname rrev M = Inr (''nope'', M) \<and>
    GetRepoRefs L M = Some (Inr (\<lparr>refs_success = False, refs_error = ''no repo open'', refs = []\<rparr>, M)) \<and>
    CloseRepo L M = Inr (M\<lparr>repoRefCnt := 0\<rparr>) \<and>
    AppendDataToPack L data M = Inl NullDeref"
  using assms
  by (simp add: CommitPackChanges_def NewReference_def GetRepoRefs_def CloseRepo_def
      AppendDataToPack_def current_object_def)

theorem operations_without_repository_witness:
  "AppendDataToPack mem_git [1, 2] (RepositoryManager_new mem_empty) = Inl NullDeref"
  using operations_without_repository [of "RepositoryManager_new mem_empty" mem_git]
  by (simp add: RepositoryManager_new_def)

text \<open>
  C12. Listing references always ends, and never lists one: with no reference in the repository
  the list is empty, and with at least one the object id is written through a pointer that was
  never initialised.
\<close>

theorem GetRepoReferences_lists_nothing:
  "(\<exists>e. GetRepoReferences L r w = Some (Inl e)) \<or>
   (\<exists>resp w'. GetRepoReferences L r w = Some (Inr (resp, w')) \<and> refs resp = [])"
proof (cases "assigned (repo r)")
  case (Inr g)
  obtain e it w1 where 1: "git_reference_iterator_new L g Uninit w = (e, it, w1)" by (metis prod_cases3)
  obtain f p w2 where 2: "git_reference_next L it Uninit w1 = (f, p, w2)" by (metis prod_cases3)
  from 1 Inr GetRepoReferences_loop_uninit [OF 2] show ?thesis
    by (auto simp: GetRepoReferences_def split: sum.split)
qed (simp add: GetRepoReferences_def)

end
