(* ===== verification/Task_Types.thy ===== *)
theory Task_Types
  imports Prelude
begin

text \<open>
  \<^verbatim>\<open>base/threading/dispatcher/DispatcherTypes.h\<close>: a \<^verbatim>\<open>Task\<close> is a member function bound to an
  object and to at most one pointer argument. The class keeps five function pointers, one for
  each shape of function, and a few flags by which \<^verbatim>\<open>Invoke\<close> finds the pointer to call.

  Functions, objects and arguments are left abstract (\<open>'f\<close>, \<open>'o\<close>, \<open>'a\<close>). A function pointer that
  was never stored is \<open>None\<close>; calling through it is the fault \<open>UninitCall\<close>. The class has a
  user-provided empty constructor, so a member without initialiser starts as whatever the
  allocated memory held: \<open>junk\<close> is that content for the priority field.
\<close>

section \<open>Data\<close>

datatype TaskPriority = HIGH | NORMAL | LOW

fun prio_num :: "TaskPriority \<Rightarrow> int" where
  "prio_num HIGH = 0"
| "prio_num NORMAL = 1"
| "prio_num LOW = 2"

text \<open>Priorities compare as their numbers do: the smaller, the more urgent.\<close>

instantiation TaskPriority :: linorder
begin

definition less_eq_TaskPriority :: "TaskPriority \<Rightarrow> TaskPriority \<Rightarrow> bool" where
  "less_eq_TaskPriority p q \<longleftrightarrow> prio_num p \<le> prio_num q"

definition less_TaskPriority :: "TaskPriority \<Rightarrow> TaskPriority \<Rightarrow> bool" where
  "less_TaskPriority p q \<longleftrightarrow> prio_num p < prio_num q"

instance
proof
  fix p q :: TaskPriority
  show "p \<le> q \<Longrightarrow> q \<le> p \<Longrightarrow> p = q" by (cases p; cases q) (simp_all add: less_eq_TaskPriority_def)
qed (auto simp: less_eq_TaskPriority_def less_TaskPriority_def)

end

record ('f, 'o, 'a) Task =
  cbFunction :: "'f option"
  taskFunction :: "'f option"
  taskNothing :: "'f option"
  taskFuncNoArgs :: "'f option"
  taskFuncNoReturn :: "'f option"
  taskPriority :: int
  taskFuncInstance :: "'o option"
  cbFuncInstance :: "'o option"
  functionArguments :: "'a option"
  hasCB :: bool
  isCBTask :: bool
  hasArgs :: bool
  hasReturn :: bool
  isComplete :: bool
  cbThreadName :: string

definition Task_new :: "int \<Rightarrow> ('f, 'o, 'a) Task" where
  "Task_new junk =
     \<lparr>cbFunction = None, taskFunction = None, taskNothing = None, taskFuncNoArgs = None,
      taskFuncNoReturn = None, taskPriority = junk, taskFuncInstance = None, cbFuncInstance = None,
      functionArguments = None, hasCB = False, isCBTask = False, hasArgs = False, hasReturn = True,
      isComplete = False, cbThreadName = ''''\<rparr>"

section \<open>Binding\<close>

text \<open>\<^verbatim>\<open>TaskResult* (C::*)()\<close>\<close>

definition Bind_result0 :: "'f \<Rightarrow> 'o \<Rightarrow> TaskPriority \<Rightarrow> ('f, 'o, 'a) Task \<Rightarrow> ('f, 'o, 'a) Task" where
  "Bind_result0 f reference priority t =
     t\<lparr>taskFuncInstance := Some reference, functionArguments := None, hasCB := False, hasArgs := False,
       isCBTask := False, taskPriority := prio_num priority, taskFuncNoArgs := Some f\<rparr>"

text \<open>
  The overload for a static function, \<^verbatim>\<open>TaskResult* (*)(void*)\<close>, has no model: it stores the address
  of \<^verbatim>\<open>Method\<close>, which returns nothing, in a pointer to functions that return a \<^verbatim>\<open>TaskResult*\<close>, so no
  program that uses it compiles.
\<close>

text \<open>\<^verbatim>\<open>TaskResult* (C::*)(void*)\<close>\<close>

definition Bind_result1 ::
    "'f \<Rightarrow> 'o \<Rightarrow> 'a option \<Rightarrow> TaskPriority \<Rightarrow> ('f, 'o, 'a) Task \<Rightarrow> ('f, 'o, 'a) Task" where
  "Bind_result1 f reference args priority t =
     t\<lparr>taskFuncInstance := Some reference, functionArguments := args, hasCB := False, hasArgs := True,
       isCBTask := False, hasReturn := True, taskPriority := prio_num priority, taskFunction := Some f\<rparr>"

text \<open>\<^verbatim>\<open>void (C::*)(void*)\<close>: the one overload that does not store the priority.\<close>

definition Bind_void1 ::
    "'f \<Rightarrow> 'o \<Rightarrow> 'a option \<Rightarrow> TaskPriority \<Rightarrow> ('f, 'o, 'a) Task \<Rightarrow> ('f, 'o, 'a) Task" where
  "Bind_void1 f reference args priority t =
     t\<lparr>taskFuncInstance := Some reference, functionArguments := args, hasCB := False, hasArgs := True,
       isCBTask := False, hasReturn := False, taskFuncNoReturn := Some f\<rparr>"

text \<open>\<^verbatim>\<open>void (C::*)()\<close>\<close>

definition Bind_void0 :: "'f \<Rightarrow> 'o \<Rightarrow> TaskPriority \<Rightarrow> ('f, 'o, 'a) Task \<Rightarrow> ('f, 'o, 'a) Task" where
  "Bind_void0 f reference priority t =
     t\<lparr>taskFuncInstance := Some reference, functionArguments := None, hasCB := False, hasArgs := False,
       isCBTask := False, hasReturn := False, taskPriority := prio_num priority, taskNothing := Some f\<rparr>"

definition CallbackBind :: "'o \<Rightarrow> 'f \<Rightarrow> 'a option \<Rightarrow> ('f, 'o, 'a) Task \<Rightarrow> ('f, 'o, 'a) Task" where
  "CallbackBind reference cb args t =
     t\<lparr>cbFuncInstance := Some reference, functionArguments := args, cbFunction := Some cb,
       isCBTask := True, hasReturn := False, hasCB := False\<rparr>"

section \<open>Creating\<close>

definition Create_void1 :: "int \<Rightarrow> 'f \<Rightarrow> 'o \<Rightarrow> 'a option \<Rightarrow> TaskPriority \<Rightarrow> ('f, 'o, 'a) Task" where
  "Create_void1 junk f reference args priority = Bind_void1 f reference args priority (Task_new junk)"

definition Create_result1 :: "int \<Rightarrow> 'f \<Rightarrow> 'o \<Rightarrow> 'a option \<Rightarrow> TaskPriority \<Rightarrow> ('f, 'o, 'a) Task" where
  "Create_result1 junk f reference args priority = Bind_result1 f reference args priority (Task_new junk)"

definition Create_void0 :: "int \<Rightarrow> 'f \<Rightarrow> 'o \<Rightarrow> TaskPriority \<Rightarrow> ('f, 'o, 'a) Task" where
  "Create_void0 junk f reference priority = Bind_void0 f reference priority (Task_new junk)"

definition Create_result0 :: "int \<Rightarrow> 'f \<Rightarrow> 'o \<Rightarrow> TaskPriority \<Rightarrow> ('f, 'o, 'a) Task" where
  "Create_result0 junk f reference priority = Bind_result0 f reference priority (Task_new junk)"

text \<open>The macros by which the rest of the program creates tasks for \<^verbatim>\<open>void\<close> member functions.\<close>

definition RANKED_TASK0 :: "int \<Rightarrow> 'o \<Rightarrow> 'f \<Rightarrow> TaskPriority \<Rightarrow> ('f, 'o, 'a) Task" where
  "RANKED_TASK0 junk Ref fn TPriority = Create_void0 junk fn Ref TPriority"

definition RANKED_TASK1 :: "int \<Rightarrow> 'o \<Rightarrow> 'f \<Rightarrow> TaskPriority \<Rightarrow> 'a option \<Rightarrow> ('f, 'o, 'a) Task" where
  "RANKED_TASK1 junk Ref fn TPriority Args = Create_void1 junk fn Ref Args TPriority"

definition NEW_TASK0 :: "int \<Rightarrow> 'o \<Rightarrow> 'f \<Rightarrow> ('f, 'o, 'a) Task" where
  "NEW_TASK0 junk Ref fn = RANKED_TASK0 junk Ref fn LOW"

definition NEW_TASK1 :: "int \<Rightarrow> 'o \<Rightarrow> 'f \<Rightarrow> 'a option \<Rightarrow> ('f, 'o, 'a) Task" where
  "NEW_TASK1 junk Ref fn Args = RANKED_TASK1 junk Ref fn LOW Args"

text \<open>\<^verbatim>\<open>TaskHelpers.h\<close>\<close>

definition CreateTask :: "int \<Rightarrow> 'f \<Rightarrow> 'o \<Rightarrow> ('f, 'o, 'a) Task" where
  "CreateTask junk f ref' = Create_void0 junk f ref' LOW"

definition CreateRankedTask0 :: "int \<Rightarrow> 'f \<Rightarrow> 'o \<Rightarrow> TaskPriority \<Rightarrow> ('f, 'o, 'a) Task" where
  "CreateRankedTask0 junk f ref' priority = Create_void0 junk f ref' priority"

definition CreateRankedTask1 :: "int \<Rightarrow> 'f \<Rightarrow> 'o \<Rightarrow> 'a option \<Rightarrow> TaskPriority \<Rightarrow> ('f, 'o, 'a) Task" where
  "CreateRankedTask1 junk f ref' args priority = Create_void1 junk f ref' args priority"

section \<open>Invoking\<close>

text \<open>
  What a call through a bound pointer amounts to: the function, the object, the argument. The
  forwarding templates \<^verbatim>\<open>ClassMethod\<close> add nothing to it.
\<close>

record ('f, 'o, 'a) call =
  callee :: 'f
  object_ref :: "'o option"
  argument :: "'a option"

definition ClassMethod :: "'f option \<Rightarrow> 'o option \<Rightarrow> 'a option \<Rightarrow> ('f, 'o, 'a) call result" where
  "ClassMethod slot ptr args =
     (case slot of None \<Rightarrow> Inl UninitCall
      | Some f \<Rightarrow> Inr \<lparr>callee = f, object_ref = ptr, argument = args\<rparr>)"

definition Invoke :: "('f, 'o, 'a) Task \<Rightarrow> (('f, 'o, 'a) call \<times> ('f, 'o, 'a) Task) result" where
  "Invoke t =
     bindr
       (if functionArguments t \<noteq> None then
          if \<not> isCBTask t then
            if hasReturn t then ClassMethod (taskFunction t) (taskFuncInstance t) (functionArguments t)
            else ClassMethod (taskFuncNoReturn t) (taskFuncInstance t) (functionArguments t)
          else ClassMethod (cbFunction t) (cbFuncInstance t) (functionArguments t)
        else
          if hasReturn t then ClassMethod (taskFuncNoArgs t) (taskFuncInstance t) None
          else ClassMethod (taskNothing t) (taskFuncInstance t) None)
       (\<lambda>c. Inr (c, t\<lparr>isComplete := True\<rparr>))"

definition HasCallback :: "('f, 'o, 'a) Task \<Rightarrow> bool" where
  "HasCallback t = hasCB t"

definition HasArguments :: "('f, 'o, 'a) Task \<Rightarrow> bool" where
  "HasArguments t = hasArgs t"

definition IsComplete :: "('f, 'o, 'a) Task \<Rightarrow> bool" where
  "IsComplete t = isComplete t"

definition GetCallbackThreadName :: "('f, 'o, 'a) Task \<Rightarrow> string" where
  "GetCallbackThreadName t = cbThreadName t"

definition GetTaskPriority :: "('f, 'o, 'a) Task \<Rightarrow> int" where
  "GetTaskPriority t = taskPriority t"

text \<open>\<^verbatim>\<open>PriorityComparer\<close>: the first task comes after the second.\<close>

definition PriorityComparer :: "('f, 'o, 'a) Task \<Rightarrow> ('f, 'o, 'a) Task \<Rightarrow> bool" where
  "PriorityComparer x y \<longleftrightarrow> GetTaskPriority x > GetTaskPriority y"

lemmas bind_defs = Bind_result0_def Bind_result1_def Bind_void1_def Bind_void0_def
  CallbackBind_def Task_new_def
lemmas create_defs = Create_void1_def Create_result1_def Create_void0_def
  Create_result0_def RANKED_TASK0_def RANKED_TASK1_def NEW_TASK0_def NEW_TASK1_def
  CreateTask_def CreateRankedTask0_def CreateRankedTask1_def
lemmas invoke_defs = Invoke_def ClassMethod_def

lemma Invoke_Create_void1:
  "Invoke (Create_void1 junk f r (Some a) p) =
     Inr (\<lparr>callee = f, object_ref = Some r, argument = Some a\<rparr>,
          (Create_void1 junk f r (Some a) p)\<lparr>isComplete := True\<rparr>)"
  by (simp add: invoke_defs create_defs bind_defs)

lemma Invoke_Create_void0:
  "Invoke (Create_void0 junk f r p) =
     Inr (\<lparr>callee = f, object_ref = Some r, argument = None\<rparr>,
          (Create_void0 junk f r p)\<lparr>isComplete := True\<rparr>)"
  by (simp add: invoke_defs create_defs bind_defs)

text \<open>What the tasks of the macros do when they are invoked.\<close>

lemma macro_tasks [simp]:
  "Invoke (NEW_TASK1 junk r f (Some a)) = Inr (\<lparr>callee = f, object_ref = Some r, argument = Some a\<rparr>,
     (NEW_TASK1 junk r f (Some a))\<lparr>isComplete := True\<rparr>)"
  "Invoke (RANKED_TASK1 junk r f p (Some a)) = Inr (\<lparr>callee = f, object_ref = Some r, argument = Some a\<rparr>,
     (RANKED_TASK1 junk r f p (Some a))\<lparr>isComplete := True\<rparr>)"
  "Invoke (NEW_TASK0 junk r f) = Inr (\<lparr>callee = f, object_ref = Some r, argument = None\<rparr>,
     (NEW_TASK0 junk r f)\<lparr>isComplete := True\<rparr>)"
  "\<not> IsComplete (NEW_TASK1 junk r f (Some a))" "\<not> IsComplete (RANKED_TASK1 junk r f p (Some a))"
  "\<not> IsComplete (NEW_TASK0 junk r f)"
  by (simp_all add: invoke_defs create_defs bind_defs IsComplete_def)

section \<open>The bindings\<close>

text \<open>
  All the ways of making a task, as data: \<open>make_task\<close> calls the code's function, \<open>meant\<close> is the call
  its user asks for and \<open>ranked\<close> the number the queue will see. A function with a parameter has to
  be given an argument: with a null one \<open>Invoke\<close> looks for a function without parameter and calls
  a pointer that was never set.
\<close>

datatype ('f, 'o, 'a) binding =
    Result0 'f 'o TaskPriority
  | Void0 'f 'o TaskPriority
  | Result1 'f 'o "'a option" TaskPriority
  | Void1 'f 'o "'a option" TaskPriority
  | Callback 'o 'f "'a option"

fun make_task :: "int \<times> ('f, 'o, 'a) binding \<Rightarrow> ('f, 'o, 'a) Task" where
  "make_task (junk, Result0 f r p) = Create_result0 junk f r p"
| "make_task (junk, Void0 f r p) = Create_void0 junk f r p"
| "make_task (junk, Result1 f r a p) = Create_result1 junk f r a p"
| "make_task (junk, Void1 f r a p) = Create_void1 junk f r a p"
| "make_task (junk, Callback r f a) = CallbackBind r f a (Task_new junk)"

definition call_with :: "'f \<Rightarrow> 'o \<Rightarrow> 'a option \<Rightarrow> ('f, 'o, 'a) call result" where
  "call_with f r a =
     (case a of None \<Rightarrow> Inl UninitCall | Some _ \<Rightarrow> Inr \<lparr>callee = f, object_ref = Some r, argument = a\<rparr>)"

fun meant :: "int \<times> ('f, 'o, 'a) binding \<Rightarrow> ('f, 'o, 'a) call result" where
  "meant (_, Result0 f r p) = Inr \<lparr>callee = f, object_ref = Some r, argument = None\<rparr>"
| "meant (_, Void0 f r p) = Inr \<lparr>callee = f, object_ref = Some r, argument = None\<rparr>"
| "meant (_, Result1 f r a p) = call_with f r a"
| "meant (_, Void1 f r a p) = call_with f r a"
| "meant (_, Callback r f a) = call_with f r a"

fun ranked :: "int \<times> ('f, 'o, 'a) binding \<Rightarrow> int" where
  "ranked (_, Result0 f r p) = prio_num p"
| "ranked (_, Void0 f r p) = prio_num p"
| "ranked (_, Result1 f r a p) = prio_num p"
| "ranked (junk, Void1 f r a p) = junk"
| "ranked (junk, Callback r f a) = junk"

lemma make_task_ranked [simp]: "GetTaskPriority (make_task b) = ranked b"
  by (cases b rule: make_task.cases) (simp_all add: GetTaskPriority_def create_defs bind_defs)

lemma make_task_fresh [simp]: "\<not> IsComplete (make_task b)"
  by (cases b rule: make_task.cases) (simp_all add: IsComplete_def create_defs bind_defs)

lemma Invoke_make_task [simp]:
  "Invoke (make_task b) = map_sum id (\<lambda>c. (c, (make_task b)\<lparr>isComplete := True\<rparr>)) (meant b)"
  by (cases b rule: make_task.cases)
     (auto simp: call_with_def invoke_defs create_defs bind_defs split: option.split)

text \<open>
  The priority given to a task is what the queue sees for functions that return a result and for
  functions without argument. For a \<open>void\<close> member function with an
  argument, the case of every ranked task of the server, the given priority is lost: the
  queue sees what the memory of the task happened to hold.
\<close>

theorem task_priority:
  "GetTaskPriority (Create_result0 junk f r p :: ('f, 'o, 'a) Task) = prio_num p \<and>
   GetTaskPriority (Create_result1 junk f r args p :: ('f, 'o, 'a) Task) = prio_num p \<and>
   GetTaskPriority (Create_void0 junk f r p :: ('f, 'o, 'a) Task) = prio_num p \<and>
   GetTaskPriority (RANKED_TASK1 junk r f p args :: ('f, 'o, 'a) Task) = junk"
  by (simp add: GetTaskPriority_def create_defs bind_defs)

text \<open>So tasks that return a result are queued by the priority they were declared with.\<close>

lemma declared_order:
  "GetTaskPriority (Create_result0 junk f r p :: ('f, 'o, 'a) Task) \<le> GetTaskPriority (Create_result0 junk' f' r' q :: ('f, 'o, 'a) Task) \<longleftrightarrow> p \<le> q"
  "GetTaskPriority (Create_result1 junk f r a p :: ('f, 'o, 'a) Task) \<le> GetTaskPriority (Create_result1 junk' f' r' a' q :: ('f, 'o, 'a) Task) \<longleftrightarrow> p \<le> q"
  "GetTaskPriority (Create_void0 junk f r p :: ('f, 'o, 'a) Task) < GetTaskPriority (Create_void0 junk' f' r' q :: ('f, 'o, 'a) Task) \<longleftrightarrow> p < q"
  by (simp_all add: less_eq_TaskPriority_def less_TaskPriority_def GetTaskPriority_def create_defs bind_defs)

end
