(* ===== verification/Dispatcher.thy ===== *)
theory Dispatcher
  imports Task_Types
begin

text \<open>
  \<^verbatim>\<open>base/threading\<close>: the \<^verbatim>\<open>Dispatcher\<close> singleton maps names to task runners, threads and message
  pumps, and hands a posted task to whatever is registered under the receiver's name. The three
  registries share one contract (locale \<open>registry\<close>): the first registration of a name wins.

  The maps are keyed by C strings compared with \<^verbatim>\<open>strcmp\<close>, so a key is the characters before the
  first NUL. A message pump is a number here; \<open>delivery\<close> says which pump a task is queued on and
  with which arguments \<^verbatim>\<open>PostMessageToThread\<close> is called.
\<close>

section \<open>State\<close>

type_synonym ThreadID = "64 word"

record TaskRunner =
  runner_Id :: ThreadID
  runner_dmp :: ptr
  runnerName :: string
  runner_initTask :: ptr
  runner_extra :: ptr

record Thread =
  thread_Id :: ThreadID
  thread_dmp :: ptr
  dispatchWinName :: string
  thread_sts :: ptr

record Dispatcher =
  knownDMPs :: "string \<rightharpoonup> nat"
  namedThreads :: "string \<rightharpoonup> Thread"
  namedDMPs :: "string \<rightharpoonup> TaskRunner"
  threadIDs :: "ThreadID \<rightharpoonup> string"

definition Dispatcher_new :: Dispatcher where
  "Dispatcher_new = \<lparr>knownDMPs = Map.empty, namedThreads = Map.empty, namedDMPs = Map.empty,
                     threadIDs = Map.empty\<rparr>"

section \<open>Registration and lookup\<close>

definition AddMessagePump :: "string \<Rightarrow> nat \<Rightarrow> 32 word \<Rightarrow> Dispatcher \<Rightarrow> Dispatcher" where
  "AddMessagePump name dmp parentThreadID D =
     (if knownDMPs D (c_str name) = None
      then D\<lparr>knownDMPs := (knownDMPs D)(c_str name \<mapsto> dmp),
             threadIDs := (threadIDs D)(scast parentThreadID \<mapsto> name)\<rparr>
      else D)"

definition AddTaskRunner :: "string \<Rightarrow> TaskRunner \<Rightarrow> Dispatcher \<Rightarrow> Dispatcher" where
  "AddTaskRunner name dmpRef D =
     (if namedDMPs D (c_str name) = None
      then D\<lparr>namedDMPs := (namedDMPs D)(c_str name \<mapsto> dmpRef),
             threadIDs := (threadIDs D)(runner_Id dmpRef \<mapsto> name)\<rparr>
      else D)"

definition AddNamedThread :: "string \<Rightarrow> Thread \<Rightarrow> Dispatcher \<Rightarrow> Dispatcher" where
  "AddNamedThread name threadRef D =
     (if namedThreads D (c_str name) = None
      then D\<lparr>namedThreads := (namedThreads D)(c_str name \<mapsto> threadRef),
             threadIDs := (threadIDs D)(thread_Id threadRef \<mapsto> name)\<rparr>
      else D)"

definition GetTaskRunner :: "string \<Rightarrow> Dispatcher \<Rightarrow> TaskRunner option" where
  "GetTaskRunner name D = namedDMPs D (c_str name)"

definition GetThread :: "string \<Rightarrow> Dispatcher \<Rightarrow> Thread option" where
  "GetThread name D = namedThreads D (c_str name)"

definition GetMessagePump :: "string \<Rightarrow> Dispatcher \<Rightarrow> nat option" where
  "GetMessagePump name D = knownDMPs D (c_str name)"

definition GetThreadId :: "string \<Rightarrow> Dispatcher \<Rightarrow> ThreadID" where
  "GetThreadId name D =
     (case GetTaskRunner name D of
        Some r \<Rightarrow> runner_Id r
      | None \<Rightarrow> (case GetThread name D of Some t \<Rightarrow> thread_Id t | None \<Rightarrow> 0))"

text \<open>The parameter is an \<^verbatim>\<open>int\<close>; the map is keyed by \<^verbatim>\<open>pthread_t\<close>, which has 64 bits.\<close>

definition GetThreadNameFromId :: "32 word \<Rightarrow> Dispatcher \<Rightarrow> string" where
  "GetThreadNameFromId tid D = (case threadIDs D (scast tid) of Some n \<Rightarrow> n | None \<Rightarrow> '''')"

definition IsCorrectThread :: "ThreadID \<Rightarrow> string \<Rightarrow> Dispatcher \<Rightarrow> bool" where
  "IsCorrectThread pthread_self correctThread D \<longleftrightarrow> GetThreadId correctThread D = pthread_self"

section \<open>Posting\<close>

record delivery =
  pump :: nat
  thread_arg :: string
  isTaskRunner_arg :: bool

definition RunTask :: "TaskRunner \<Rightarrow> delivery result" where
  "RunTask r =
     bindr (deref (runner_dmp r)) (\<lambda>p.
     Inr \<lparr>pump = p, thread_arg = runnerName r, isTaskRunner_arg = True\<rparr>)"

definition Thread_PostTask :: "Thread \<Rightarrow> delivery result" where
  "Thread_PostTask t =
     bindr (deref (thread_dmp t)) (\<lambda>p.
     Inr \<lparr>pump = p, thread_arg = dispatchWinName t, isTaskRunner_arg = False\<rparr>)"

text \<open>\<open>None\<close>: nobody of that name is known, the task is logged and dropped.\<close>

definition PostTaskToTaskRunner :: "string \<Rightarrow> Dispatcher \<Rightarrow> delivery option result" where
  "PostTaskToTaskRunner DispatcherName D =
     (case GetTaskRunner DispatcherName D of
        Some r \<Rightarrow> bindr (RunTask r) (\<lambda>d. Inr (Some d))
      | None \<Rightarrow> Inr None)"

definition PostTaskToThread :: "string \<Rightarrow> Dispatcher \<Rightarrow> delivery option result" where
  "PostTaskToThread threadName D =
     (case GetThread threadName D of
        Some t \<Rightarrow> bindr (Thread_PostTask t) (\<lambda>d. Inr (Some d))
      | None \<Rightarrow> PostTaskToTaskRunner threadName D)"

definition PostTask :: "string \<Rightarrow> Dispatcher \<Rightarrow> delivery option result" where
  "PostTask receiver D =
     (let ref' = GetThread receiver D;
          runner = GetTaskRunner receiver D;
          messagePump = GetMessagePump receiver D in
      case runner of
        Some r \<Rightarrow> bindr (RunTask r) (\<lambda>d. Inr (Some d))
      | None \<Rightarrow>
          (case ref' of
             Some t \<Rightarrow> bindr (Thread_PostTask t) (\<lambda>d. Inr (Some d))
           | None \<Rightarrow>
               (case messagePump of
                  Some p \<Rightarrow> Inr (Some \<lparr>pump = p, thread_arg = receiver, isTaskRunner_arg = False\<rparr>)
                | None \<Rightarrow> Inr None)))"

section \<open>Task runners and threads\<close>

text \<open>
  \<^verbatim>\<open>TaskRunner::Init\<close> allocates the pump \<open>p\<close> and the shared thread state \<open>sts\<close> and registers the
  runner. \<^verbatim>\<open>Thread::Start\<close> allocates them too, but its registration with the dispatcher is
  commented out; \<open>tid\<close> is the id of the created thread, 0 if creation failed.
\<close>

definition TaskRunner_Init ::
    "ThreadID \<Rightarrow> nat \<Rightarrow> nat \<Rightarrow> string \<Rightarrow> ptr \<Rightarrow> Dispatcher \<Rightarrow> TaskRunner \<times> Dispatcher" where
  "TaskRunner_Init pthread_self p sts taskRunnerName TaskRunnerInitMethod D =
     (let r = \<lparr>runner_Id = pthread_self, runner_dmp = Ptr p, runnerName = taskRunnerName,
               runner_initTask = TaskRunnerInitMethod, runner_extra = Ptr sts\<rparr>
      in (r, AddTaskRunner taskRunnerName r D))"

definition Thread_Start :: "ThreadID \<Rightarrow> nat \<Rightarrow> nat \<Rightarrow> string \<Rightarrow> Thread \<Rightarrow> Dispatcher \<Rightarrow> Thread \<times> Dispatcher" where
  "Thread_Start tid p sts name t D =
     (let t = t\<lparr>dispatchWinName := name, thread_sts := Ptr sts, thread_dmp := Ptr p\<rparr>
      in (if tid = 0 then t else t\<lparr>thread_Id := tid\<rparr>, D))"

section \<open>The registry contract\<close>

locale registry =
  fixes add :: "string \<Rightarrow> 'v \<Rightarrow> 's \<Rightarrow> 's"
    and get :: "string \<Rightarrow> 's \<Rightarrow> 'v option"
  assumes get_add: "get n (add m v s) =
      (if c_str n = c_str m \<and> get n s = None then Some v else get n s)"
begin

lemma get_add_same: "get n s = None \<Longrightarrow> get n (add n v s) = Some v"
  by (simp add: get_add)

lemma get_add_kept: "get n s = Some v \<Longrightarrow> get n (add m w s) = Some v"
  by (simp add: get_add)

text \<open>After any sequence of registrations, a name stands for the first value given to it.\<close>

lemma get_after_registrations:
  "get n (fold (\<lambda>(m, v). add m v) xs s) =
     (case get n s of
        Some v \<Rightarrow> Some v
      | None \<Rightarrow> map_option snd (find (\<lambda>(m, v). c_str n = c_str m) xs))"
  by (induction xs arbitrary: s) (auto simp: get_add split: option.split)

end

interpretation runners: registry AddTaskRunner GetTaskRunner
  by unfold_locales (auto simp: AddTaskRunner_def GetTaskRunner_def)

interpretation threads: registry AddNamedThread GetThread
  by unfold_locales (auto simp: AddNamedThread_def GetThread_def)

interpretation pumps: registry "\<lambda>n v. AddMessagePump n v tid" GetMessagePump for tid
  by unfold_locales (auto simp: AddMessagePump_def GetMessagePump_def)

lemma registries_independent [frame_simps]:
  "GetThread n (AddTaskRunner m r D) = GetThread n D"
  "GetMessagePump n (AddTaskRunner m r D) = GetMessagePump n D"
  "GetTaskRunner n (AddNamedThread m t D) = GetTaskRunner n D"
  "GetMessagePump n (AddNamedThread m t D) = GetMessagePump n D"
  "GetTaskRunner n (AddMessagePump m p i D) = GetTaskRunner n D"
  "GetThread n (AddMessagePump m p i D) = GetThread n D"
  by (simp_all add: AddTaskRunner_def AddNamedThread_def AddMessagePump_def GetTaskRunner_def
      GetThread_def GetMessagePump_def)

lemma PostTask_runner:
  "GetTaskRunner n D = Some r \<Longrightarrow> runner_dmp r = Ptr p \<Longrightarrow>
   PostTask n D = Inr (Some \<lparr>pump = p, thread_arg = runnerName r, isTaskRunner_arg = True\<rparr>)"
  by (simp add: PostTask_def RunTask_def)

section \<open>Properties\<close>

text \<open>
  A task posted under a name goes to the first task runner ever registered under it, however
  many registrations followed, and whatever threads and pumps carry the same name.
\<close>

theorem PostTask_reaches_first_runner:
  assumes "GetTaskRunner name D = None" and "runner_dmp r = Ptr p"
  shows "PostTask name (fold (\<lambda>(m, v). AddTaskRunner m v) later (AddTaskRunner name r D)) =
           Inr (Some \<lparr>pump = p, thread_arg = runnerName r, isTaskRunner_arg = True\<rparr>)"
proof -
  have "GetTaskRunner name (fold (\<lambda>(m, v). AddTaskRunner m v) later (AddTaskRunner name r D)) = Some r"
    by (simp add: runners.get_after_registrations runners.get_add_same [OF assms(1)])
  then show ?thesis using assms(2) by (rule PostTask_runner)
qed

theorem PostTask_reaches_first_runner_witness:
  "PostTask ''Main'' (AddTaskRunner ''Main''
      \<lparr>runner_Id = 8, runner_dmp = Ptr 1, runnerName = ''Main'', runner_initTask = Null, runner_extra = Null\<rparr>
      (AddTaskRunner ''Main''
        \<lparr>runner_Id = 7, runner_dmp = Ptr 0, runnerName = ''Main'', runner_initTask = Null, runner_extra = Null\<rparr> Dispatcher_new)) =
     Inr (Some \<lparr>pump = 0, thread_arg = ''Main'', isTaskRunner_arg = True\<rparr>)"
  using PostTask_reaches_first_runner
      [of "''Main''" Dispatcher_new
          "\<lparr>runner_Id = 7, runner_dmp = Ptr 0, runnerName = ''Main'', runner_initTask = Null, runner_extra = Null\<rparr>" 0
          "[(''Main'', \<lparr>runner_Id = 8, runner_dmp = Ptr 1, runnerName = ''Main'', runner_initTask = Null, runner_extra = Null\<rparr>)]"]
  by (simp add: Dispatcher_new_def GetTaskRunner_def)

text \<open>
  A started thread cannot be reached by name: starting a thread registers nothing, so a task
  posted under the name of a thread that is not also a task runner or a pump is dropped.
\<close>

theorem started_thread_unreachable:
  assumes "GetTaskRunner name D = None" and "GetThread name D = None" and "GetMessagePump name D = None"
  shows "PostTask name (snd (Thread_Start tid p sts name t D)) = Inr None \<and>
         PostTaskToThread name (snd (Thread_Start tid p sts name t D)) = Inr None"
  using assms
  by (simp add: Thread_Start_def Let_def PostTask_def PostTaskToThread_def PostTaskToTaskRunner_def)

theorem started_thread_unreachable_witness:
  "PostTask ''MetricsSender'' (snd (Thread_Start 5 0 1 ''MetricsSender''
      \<lparr>thread_Id = 0, thread_dmp = Uninit, dispatchWinName = [], thread_sts = Uninit\<rparr> Dispatcher_new)) = Inr None"
  using started_thread_unreachable [of "''MetricsSender''" Dispatcher_new 5 0 1]
  by (simp add: Dispatcher_new_def GetTaskRunner_def GetThread_def GetMessagePump_def)

end
