(* ===== verification/Std_Heap.thy ===== *)
theory Std_Heap
  imports Prelude "HOL-Library.Multiset"
begin

text \<open>
  \<^verbatim>\<open>std::priority_queue<T, std::vector<T>, Compare>\<close>, which both message pump and task manager
  keep their tasks in. The contract the sources rely on is the locale \<open>prio_queue\<close>: which
  elements the queue holds after a push or a pop, and that no element is to be served before the
  top one. The C++ standard leaves open which of several equally urgent elements comes first, and
  so does the locale. The model of the container is the binary heap in a vector that
  \<^verbatim>\<open>push_heap\<close> and \<^verbatim>\<open>pop_heap\<close> maintain in the GNU library; it is shown to satisfy the
  contract.

  An element's urgency is \<open>key\<close>, smaller first: \<^verbatim>\<open>PriorityComparer\<close> compares the numeric
  priorities with \<^verbatim>\<open>std::greater\<close>, so the element with the smallest number is on top.
\<close>

section \<open>The contract\<close>

fun pops :: "('q \<Rightarrow> 'a) \<Rightarrow> ('q \<Rightarrow> 'q) \<Rightarrow> nat \<Rightarrow> 'q \<Rightarrow> 'a list" where
  "pops tp pp 0 q = []"
| "pops tp pp (Suc n) q = tp q # pops tp pp n (pp q)"

locale prio_queue =
  fixes key :: "'a \<Rightarrow> 'k::linorder"
    and emptyq :: 'q
    and push :: "'a \<Rightarrow> 'q \<Rightarrow> 'q"
    and top :: "'q \<Rightarrow> 'a"
    and pop :: "'q \<Rightarrow> 'q"
    and elems :: "'q \<Rightarrow> 'a multiset"
    and invar :: "'q \<Rightarrow> bool"
  assumes elems_empty: "elems emptyq = {#}"
    and elems_push: "invar q \<Longrightarrow> elems (push x q) = add_mset x (elems q)"
    and top_elem: "invar q \<Longrightarrow> elems q \<noteq> {#} \<Longrightarrow> top q \<in># elems q"
    and top_first: "invar q \<Longrightarrow> x \<in># elems q \<Longrightarrow> key (top q) \<le> key x"
    and elems_pop: "invar q \<Longrightarrow> elems q \<noteq> {#} \<Longrightarrow> elems (pop q) = elems q - {#top q#}"
    and invar_empty: "invar emptyq"
    and invar_push: "invar q \<Longrightarrow> invar (push x q)"
    and invar_pop: "invar q \<Longrightarrow> elems q \<noteq> {#} \<Longrightarrow> invar (pop q)"
begin

lemma pop_push_size:
  "invar q \<Longrightarrow> size (elems (push x q)) = Suc (size (elems q))"
  by (simp add: elems_push)

lemma size_pop:
  assumes "invar q" and "elems q \<noteq> {#}"
  shows "size (elems (pop q)) = size (elems q) - 1"
  using assms by (simp add: elems_pop top_elem size_Diff_singleton)

text \<open>What is more urgent than everything in the queue comes out next, and leaves what was there.\<close>

lemma pop_more_urgent:
  assumes "invar q" and "\<And>y. y \<in># elems q \<Longrightarrow> key x < key y"
  shows "top (push x q) = x" and "invar (pop (push x q))" and "elems (pop (push x q)) = elems q"
proof -
  have inv: "invar (push x q)" and el: "elems (push x q) = add_mset x (elems q)"
    using assms(1) by (simp_all add: invar_push elems_push)
  then have ne: "elems (push x q) \<noteq> {#}" by simp
  from top_elem [OF inv ne] top_first [OF inv, of x] assms(2) show top: "top (push x q) = x"
    by (fastforce simp: el)
  show "invar (pop (push x q))" "elems (pop (push x q)) = elems q"
    using invar_pop [OF inv ne] elems_pop [OF inv ne] by (simp_all add: top el)
qed

text \<open>Serving a queue to the end serves every element once, the most urgent first.\<close>

lemma pops_all:
  assumes "invar q" and "n = size (elems q)"
  shows "mset (pops top pop n q) = elems q \<and> sorted (map key (pops top pop n q))"
  using assms
proof (induction n arbitrary: q)
  case 0
  then show ?case by simp
next
  case (Suc n)
  then have ne: "elems q \<noteq> {#}" by auto
  have n: "n = size (elems (pop q))" using Suc.prems size_pop [OF _ ne] by simp
  have IH: "mset (pops top pop n (pop q)) = elems (pop q)"
           "sorted (map key (pops top pop n (pop q)))"
    using Suc.IH [OF invar_pop [OF Suc.prems(1) ne] n] by blast+
  have sub: "elems (pop q) = elems q - {#top q#}" by (rule elems_pop [OF Suc.prems(1) ne])
  have "\<forall>x \<in> set (pops top pop n (pop q)). key (top q) \<le> key x"
    using top_first [OF Suc.prems(1)] IH(1) sub by (metis in_diffD set_mset_mset)
  then show ?case
    using IH sub top_elem [OF Suc.prems(1) ne] by simp
qed

end

section \<open>The heap algorithms\<close>

definition comp :: "('a \<Rightarrow> 'k::linorder) \<Rightarrow> 'a \<Rightarrow> 'a \<Rightarrow> bool" where
  "comp key x y \<longleftrightarrow> key x > key y"

text \<open>\<^verbatim>\<open>std::__push_heap\<close>: move the hole towards the root until the value fits.\<close>

fun push_heap :: "('a \<Rightarrow> 'k::linorder) \<Rightarrow> 'a list \<Rightarrow> nat \<Rightarrow> 'a \<Rightarrow> 'a list" where
  "push_heap key xs hole v =
     (if hole > 0 \<and> comp key (xs ! ((hole - 1) div 2)) v
      then push_heap key (xs[hole := xs ! ((hole - 1) div 2)]) ((hole - 1) div 2) v
      else xs[hole := v])"

declare push_heap.simps [simp del]

text \<open>\<^verbatim>\<open>std::__adjust_heap\<close>: move the hole to a leaf along the more urgent children, then up.\<close>

function adjust_heap :: "('a \<Rightarrow> 'k::linorder) \<Rightarrow> 'a list \<Rightarrow> nat \<Rightarrow> 'a \<Rightarrow> 'a list" where
  "adjust_heap key xs hole v =
     (if hole < (length xs - 1) div 2 then
        let c = 2 * (hole + 1);
            c = (if comp key (xs ! c) (xs ! (c - 1)) then c - 1 else c)
        in adjust_heap key (xs[hole := xs ! c]) c v
      else if even (length xs) \<and> hole = (length xs - 2) div 2 then
        let c = 2 * (hole + 1)
        in push_heap key (xs[hole := xs ! (c - 1)]) (c - 1) v
      else push_heap key xs hole v)"
  by pat_completeness auto
termination
  by (relation "measure (\<lambda>(key, xs, hole, v). length xs - hole)") (auto simp: Let_def)

declare adjust_heap.simps [simp del]

definition heap_push :: "('a \<Rightarrow> 'k::linorder) \<Rightarrow> 'a \<Rightarrow> 'a list \<Rightarrow> 'a list" where
  "heap_push key x xs = push_heap key (xs @ [x]) (length xs) x"

definition heap_top :: "'a list \<Rightarrow> 'a" where
  "heap_top xs = xs ! 0"

definition heap_pop :: "('a \<Rightarrow> 'k::linorder) \<Rightarrow> 'a list \<Rightarrow> 'a list" where
  "heap_pop key xs =
     (if length xs > 1 then adjust_heap key (butlast xs) 0 (last xs) else butlast xs)"

lemma length_push_heap [simp]: "length (push_heap key xs h v) = length xs"
proof (induction key xs h v rule: push_heap.induct)
  case (1 key xs h v)
  then show ?case by (cases "h > 0 \<and> comp key (xs ! ((h - 1) div 2)) v")
      (auto simp: push_heap.simps [of key xs h v])
qed

lemma length_adjust_heap [simp]: "length (adjust_heap key xs h v) = length xs"
proof (induction key xs h v rule: adjust_heap.induct)
  case (1 key xs h v)
  then show ?case
    by (cases "h < (length xs - 1) div 2") (auto simp: adjust_heap.simps [of key xs h v] Let_def)
qed

lemma length_heap_pop [simp]: "length (heap_pop key xs) = length xs - 1"
  by (simp add: heap_pop_def)

lemma length_heap_push [simp]: "length (heap_push key x xs) = Suc (length xs)"
  by (simp add: heap_push_def)

section \<open>The heap satisfies the contract\<close>

definition parent :: "nat \<Rightarrow> nat" where
  "parent i = (i - 1) div 2"

definition is_heap :: "('a \<Rightarrow> 'k::linorder) \<Rightarrow> 'a list \<Rightarrow> bool" where
  "is_heap key xs \<longleftrightarrow> (\<forall>i < length xs. i > 0 \<longrightarrow> key (xs ! parent i) \<le> key (xs ! i))"

text \<open>Heap order everywhere except at the hole, bridging over the hole.\<close>

definition holed :: "('a \<Rightarrow> 'k::linorder) \<Rightarrow> 'a list \<Rightarrow> nat \<Rightarrow> bool" where
  "holed key xs h \<longleftrightarrow> h < length xs \<and>
     (\<forall>i < length xs. i > 0 \<longrightarrow> i \<noteq> h \<longrightarrow>
        (if parent i = h then h > 0 \<longrightarrow> key (xs ! parent h) \<le> key (xs ! i)
         else key (xs ! parent i) \<le> key (xs ! i)))"

definition fits :: "('a \<Rightarrow> 'k::linorder) \<Rightarrow> 'a list \<Rightarrow> nat \<Rightarrow> 'a \<Rightarrow> bool" where
  "fits key xs h v \<longleftrightarrow> (\<forall>i < length xs. i > 0 \<longrightarrow> parent i = h \<longrightarrow> key v \<le> key (xs ! i))"

lemma parent_less: "i > 0 \<Longrightarrow> parent i < i"
  by (simp add: parent_def)

lemma mset_move_hole:
  assumes "h < length xs" and "j < length xs" and "h \<noteq> j"
  shows "mset (xs[h := xs ! j, j := v]) = mset (xs[h := v])"
proof -
  have "xs[h := xs ! j, j := v] = (xs[h := v])[j := xs[h := v] ! h, h := xs[h := v] ! j]"
    using assms by (auto simp: list_eq_iff_nth_eq nth_list_update)
  then show ?thesis using assms by (metis length_list_update mset_swap)
qed

lemma push_heap_correct:
  assumes "holed key xs h" and "fits key xs h v"
  shows "is_heap key (push_heap key xs h v) \<and> mset (push_heap key xs h v) = mset (xs[h := v])"
  using assms
proof (induction key xs h v rule: push_heap.induct)
  case (1 key xs h v)
  from "1.prems"(1) have h: "h < length xs" by (simp add: holed_def)
  show ?case
  proof (cases "h > 0 \<and> comp key (xs ! parent h) v")
    case True
    let ?p = "parent h" and ?ys = "xs[h := xs ! parent h]"
    from True have p: "?p < h" and v: "key v < key (xs ! ?p)"
      by (simp_all add: parent_less comp_def)
    have up: "?p > 0 \<Longrightarrow> key (xs ! parent ?p) \<le> key (xs ! ?p)"
      using "1.prems"(1) h p parent_less [of ?p] unfolding holed_def by (metis less_trans nat_neq_iff)
    have "holed key ?ys ?p"
      unfolding holed_def
    proof (intro conjI allI impI)
      show "?p < length ?ys" using p h by simp
    next
      fix i assume i: "i < length ?ys" "i > 0" "i \<noteq> ?p"
      show "if parent i = ?p then ?p > 0 \<longrightarrow> key (?ys ! parent ?p) \<le> key (?ys ! i)
            else key (?ys ! parent i) \<le> key (?ys ! i)"
        using "1.prems"(1) i h p v up parent_less [of i] parent_less [of ?p]
        unfolding holed_def by (auto simp: nth_list_update split: if_splits intro: order_trans)
    qed
    moreover have "fits key ?ys ?p v"
      using "1.prems"(1) h p v unfolding holed_def fits_def
      by (auto simp: nth_list_update intro: order_trans less_imp_le)
    ultimately have "is_heap key (push_heap key ?ys ?p v) \<and>
        mset (push_heap key ?ys ?p v) = mset (?ys[?p := v])"
      using "1.IH" True unfolding parent_def by blast
    moreover have "push_heap key xs h v = push_heap key ?ys ?p v"
      using True by (subst push_heap.simps) (simp add: parent_def)
    ultimately show ?thesis using mset_move_hole [of h xs ?p v] h p by simp
  next
    case False
    then have "push_heap key xs h v = xs[h := v]"
      by (auto simp: parent_def push_heap.simps [of key xs h v])
    moreover have "is_heap key (xs[h := v])"
      using "1.prems" False h parent_less unfolding holed_def fits_def is_heap_def comp_def
      by (auto simp: nth_list_update not_less)
    ultimately show ?thesis by simp
  qed
qed

lemma holed_move_down:
  assumes "holed key xs h" and c: "c < length xs" "c > 0" "parent c = h"
    and least: "\<And>i. i < length xs \<Longrightarrow> i > 0 \<Longrightarrow> parent i = h \<Longrightarrow> key (xs ! c) \<le> key (xs ! i)"
  shows "holed key (xs[h := xs ! c]) c"
  unfolding holed_def
proof (intro conjI allI impI)
  show "c < length (xs[h := xs ! c])" using c by simp
next
  have hc: "h < c" using c parent_less by blast
  fix i assume i: "i < length (xs[h := xs ! c])" "i > 0" "i \<noteq> c"
  show "if parent i = c then c > 0 \<longrightarrow> key (xs[h := xs ! c] ! parent c) \<le> key (xs[h := xs ! c] ! i)
        else key (xs[h := xs ! c] ! parent i) \<le> key (xs[h := xs ! c] ! i)"
    using assms(1) c hc i least [of i] parent_less [of i] unfolding holed_def
    by (auto simp: nth_list_update split: if_splits)
qed

lemma children: "parent i = h \<and> i > 0 \<longleftrightarrow> i = 2 * h + 1 \<or> i = 2 * h + 2"
  unfolding parent_def by (cases i) auto

text \<open>The larger part of a step down: the hole moves to the child whose key is least.\<close>

lemma hole_to_child:
  assumes "holed key xs h" and "c < length xs" "c > 0" "parent c = h"
    and "\<And>i. i < length xs \<Longrightarrow> i > 0 \<Longrightarrow> parent i = h \<Longrightarrow> key (xs ! c) \<le> key (xs ! i)"
  shows "holed key (xs[h := xs ! c]) c" and "mset (xs[h := xs ! c, c := v]) = mset (xs[h := v])"
proof -
  show "holed key (xs[h := xs ! c]) c" by (rule holed_move_down [OF assms])
  from assms have "h < length xs" "h \<noteq> c" using parent_less [of c] by (auto simp: holed_def)
  with assms(2) show "mset (xs[h := xs ! c, c := v]) = mset (xs[h := v])" using mset_move_hole [of h xs c v] by simp
qed

lemma fits_childless:
  "(\<And>i. i < length xs \<Longrightarrow> i > 0 \<Longrightarrow> parent i \<noteq> h) \<Longrightarrow> fits key xs h v"
  unfolding fits_def by blast

lemma adjust_heap_inner:
  assumes "holed key xs h" and "h < (length xs - 1) div 2"
    and "c = (if comp key (xs ! (2 * (h + 1))) (xs ! (2 * (h + 1) - 1)) then 2 * (h + 1) - 1 else 2 * (h + 1))"
  shows "adjust_heap key xs h v = adjust_heap key (xs[h := xs ! c]) c v" and "holed key (xs[h := xs ! c]) c"
    and "mset (xs[h := xs ! c, c := v]) = mset (xs[h := v])"
proof -
  show "adjust_heap key xs h v = adjust_heap key (xs[h := xs ! c]) c v"
    using assms(2,3) by (subst adjust_heap.simps) simp
  have c: "c < length xs" "c > 0" "parent c = h" using assms(2,3) by (auto simp: parent_def split: if_splits)
  have least: "key (xs ! c) \<le> key (xs ! i)" if "i < length xs" "i > 0" "parent i = h" for i
    using children [of i h] that assms(3) by (auto simp: comp_def)
  show "holed key (xs[h := xs ! c]) c" by (rule hole_to_child(1) [OF assms(1) c least])
  show "mset (xs[h := xs ! c, c := v]) = mset (xs[h := v])" by (rule hole_to_child(2) [OF assms(1) c least])
qed

lemma adjust_heap_last:
  assumes "holed key xs h" and "\<not> h < (length xs - 1) div 2" and "even (length xs)" and "h = (length xs - 2) div 2"
  shows "is_heap key (adjust_heap key xs h v) \<and> mset (adjust_heap key xs h v) = mset (xs[h := v])"
proof -
  define c where "c = 2 * (h + 1) - 1"
  from assms(3) obtain k where k: "length xs = 2 * k" by (rule evenE)
  with assms(1) have "k > 0" by (cases k) (auto simp: holed_def)
  with k assms(4) have c: "c < length xs" "c > 0" "parent c = h" "Suc c = length xs"
    by (auto simp: c_def parent_def)
  have only: "i = c" if "i < length xs" "i > 0" "parent i = h" for i
    using children [of i h] that c(4) by (auto simp: c_def)
  have least: "key (xs ! c) \<le> key (xs ! i)" if "i < length xs" "i > 0" "parent i = h" for i
    using only [OF that] by simp
  have "parent i \<noteq> c" if "i < length xs" "i > 0" for i using parent_less [of i] that c(4) by auto
  then have "fits key (xs[h := xs ! c]) c v" by (intro fits_childless) simp
  moreover have "adjust_heap key xs h v = push_heap key (xs[h := xs ! c]) c v"
    using assms(2-4) by (subst adjust_heap.simps) (simp add: c_def)
  ultimately show ?thesis
    using push_heap_correct [of key "xs[h := xs ! c]" c v] hole_to_child [OF assms(1) c(1-3) least] by metis
qed

lemma adjust_heap_leaf:
  assumes "holed key xs h" and "\<not> h < (length xs - 1) div 2" and "\<not> (even (length xs) \<and> h = (length xs - 2) div 2)"
  shows "is_heap key (adjust_heap key xs h v) \<and> mset (adjust_heap key xs h v) = mset (xs[h := v])"
proof -
  have "h < length xs" using assms(1) by (simp add: holed_def)
  have "parent i \<noteq> h" if "i < length xs" "i > 0" for i
    using children [of i h] that assms(2,3) \<open>h < length xs\<close> by (auto elim!: oddE)
  then have "fits key xs h v" by (intro fits_childless)
  moreover have "adjust_heap key xs h v = push_heap key xs h v"
    using assms(2,3) by (subst adjust_heap.simps) auto
  ultimately show ?thesis using push_heap_correct assms(1) by metis
qed

lemma adjust_heap_correct:
  assumes "holed key xs h"
  shows "is_heap key (adjust_heap key xs h v) \<and> mset (adjust_heap key xs h v) = mset (xs[h := v])"
  using assms
proof (induction key xs h v rule: adjust_heap.induct)
  case (1 key xs h v)
  show ?case
  proof (cases "h < (length xs - 1) div 2")
    case True
    define c where "c = (if comp key (xs ! (2 * (h + 1))) (xs ! (2 * (h + 1) - 1)) then 2 * (h + 1) - 1 else 2 * (h + 1))"
    note step = adjust_heap_inner [OF "1.prems" True c_def]
    from "1.IH"(1) [OF True refl c_def step(2)] show ?thesis unfolding step(1) step(3) .
  next
    case False
    show ?thesis
    proof (cases "even (length xs) \<and> h = (length xs - 2) div 2")
      case True
      then show ?thesis using adjust_heap_last [OF "1.prems" False] by simp
    qed (rule adjust_heap_leaf [OF "1.prems" False])
  qed
qed

lemma is_heap_top:
  assumes "is_heap key xs" and "i < length xs"
  shows "key (xs ! 0) \<le> key (xs ! i)"
  using assms(2)
proof (induction i rule: less_induct)
  case (less i)
  show ?case
  proof (cases "i > 0")
    case True
    with less have "key (xs ! 0) \<le> key (xs ! parent i)" using parent_less [of i] by auto
    also have "\<dots> \<le> key (xs ! i)" using assms(1) less True by (simp add: is_heap_def)
    finally show ?thesis .
  qed simp
qed

lemma is_heap_butlast:
  assumes "is_heap key xs"
  shows "is_heap key (butlast xs)"
  unfolding is_heap_def
proof (intro allI impI)
  fix i assume i: "i < length (butlast xs)" "0 < i"
  with parent_less [OF i(2)] have "parent i < length (butlast xs)" by linarith
  with i show "key (butlast xs ! parent i) \<le> key (butlast xs ! i)"
    using assms by (simp add: is_heap_def nth_butlast)
qed

lemma is_heap_holed: "is_heap key xs \<Longrightarrow> xs \<noteq> [] \<Longrightarrow> holed key xs 0"
  by (auto simp: is_heap_def holed_def)

lemma heap_push_correct:
  assumes "is_heap key xs"
  shows "is_heap key (heap_push key x xs) \<and> mset (heap_push key x xs) = add_mset x (mset xs)"
proof -
  have "holed key (xs @ [x]) (length xs)"
    using assms parent_less unfolding holed_def is_heap_def
    by (fastforce simp: nth_append parent_def)
  moreover have "fits key (xs @ [x]) (length xs) x"
    unfolding fits_def using parent_less by (metis length_append_singleton not_less_eq)
  ultimately show ?thesis
    using push_heap_correct [of key "xs @ [x]" "length xs" x] by (simp add: heap_push_def)
qed

lemma mset_butlast_last: "xs \<noteq> [] \<Longrightarrow> add_mset (last xs) (mset (butlast xs)) = mset xs"
  by (cases xs rule: rev_cases) auto

lemma heap_pop_correct:
  assumes "is_heap key xs" and "xs \<noteq> []"
  shows "is_heap key (heap_pop key xs) \<and> mset (heap_pop key xs) = mset xs - {#heap_top xs#}"
proof (cases "length xs > 1")
  case True
  then have ne: "butlast xs \<noteq> []" by (cases xs rule: rev_cases) auto
  have "mset ((butlast xs)[0 := last xs]) = mset xs - {#heap_top xs#}"
    using True mset_butlast_last by (cases xs) (auto simp: heap_top_def)
  with adjust_heap_correct [OF is_heap_holed [OF is_heap_butlast [OF assms(1)] ne]] True
  show ?thesis by (simp add: heap_pop_def)
next
  case False
  with assms(2) obtain x where "xs = [x]" by (cases xs) auto
  then show ?thesis by (simp add: heap_pop_def heap_top_def is_heap_def)
qed

interpretation vector_heap: prio_queue key "[]" "heap_push key" heap_top "heap_pop key" mset "is_heap key"
  for key :: "'a \<Rightarrow> 'k::linorder"
proof unfold_locales
  show "is_heap key q \<Longrightarrow> mset (heap_push key x q) = add_mset x (mset q)" for q x
    by (simp add: heap_push_correct)
  show "is_heap key q \<Longrightarrow> is_heap key (heap_push key x q)" for q x
    by (simp add: heap_push_correct)
  show "mset q \<noteq> {#} \<Longrightarrow> heap_top q \<in># mset q" for q :: "'a list"
    by (simp add: heap_top_def)
  show "is_heap key q \<Longrightarrow> x \<in># mset q \<Longrightarrow> key (heap_top q) \<le> key x" for q x
    by (auto simp: heap_top_def in_set_conv_nth is_heap_top)
  show "is_heap key q \<Longrightarrow> mset q \<noteq> {#} \<Longrightarrow> mset (heap_pop key q) = mset q - {#heap_top q#}" for q
    by (simp add: heap_pop_correct)
  show "is_heap key q \<Longrightarrow> mset q \<noteq> {#} \<Longrightarrow> is_heap key (heap_pop key q)" for q
    by (simp add: heap_pop_correct)
qed (simp_all add: is_heap_def)

end
