(* ===== verification/Message_Pump.thy ===== *)
theory Message_Pump
  imports Dispatcher Std_Heap
begin

text \<open>
  \<^verbatim>\<open>base/platform/linux/dispatcher/MessagePumpEPoll\<close>: the message loop of a task runner. Posting
  pushes a task on the pump's priority queue and writes one byte to a pipe; the loop sleeps in
  \<^verbatim>\<open>epoll_wait\<close>, reads one byte per wake-up and then, holding the queue's lock, runs tasks until
  the queue is empty.

  This theory has the operations one by one, as the thread that performs them sees them. How the
  loop and the posting threads interleave is the subject of the theory on the pump protocol.
\<close>

section \<open>State\<close>

text \<open>
  \<open>None\<close> for \<open>pump_initTask\<close> means the pointer was never stored, \<open>Some None\<close> that it is null.
  \<open>fds_valid\<close> and \<open>epoll_valid\<close>: the pipe and the epoll registration were set up successfully.
  \<open>guard_held\<close>: the thread that performs the operation holds \<^verbatim>\<open>queueGuard\<close>, a mutex that cannot
  be taken twice.
\<close>

record SharedThreadState =
  fds_valid :: bool
  epoll_valid :: bool
  guard_held :: bool
  pipe_bytes :: nat

record ('f, 'o, 'a) MessagePumpEPoll =
  wndIdExtenstion :: string
  startComplete :: bool
  pump_initTask :: "('f, 'o, 'a) Task option option"
  isATaskRunner :: bool
  sts :: ptr
  taskQueue :: "('f, 'o, 'a) Task list"

definition MessagePumpEPoll_new :: "string \<Rightarrow> ('f, 'o, 'a) MessagePumpEPoll" where
  "MessagePumpEPoll_new winIDExt =
     \<lparr>wndIdExtenstion = winIDExt, startComplete = False, pump_initTask = None,
      isATaskRunner = False, sts = Uninit, taskQueue = []\<rparr>"

definition SharedThreadState_new :: SharedThreadState where
  "SharedThreadState_new = \<lparr>fds_valid = False, epoll_valid = False, guard_held = False, pipe_bytes = 0\<rparr>"

section \<open>Operations\<close>

definition GetSharedState ::
    "Dispatcher \<Rightarrow> bool \<Rightarrow> ('f, 'o, 'a) MessagePumpEPoll \<Rightarrow> (ptr \<times> ('f, 'o, 'a) MessagePumpEPoll) result" where
  "GetSharedState D isTaskRunner P =
     (if isTaskRunner then
        case GetTaskRunner (wndIdExtenstion P) D of
          None \<Rightarrow> Inl NullDeref
        | Some r \<Rightarrow>
            let P = P\<lparr>sts := runner_extra r\<rparr> in
            if sts P = Null then Inr (Null, P) else Inr (sts P, P)
      else
        case GetThread (wndIdExtenstion P) D of
          None \<Rightarrow> Inl NullDeref
        | Some t \<Rightarrow> Inr (thread_sts t, P))"

text \<open>
  The set-up half of \<^verbatim>\<open>MakeMessagePump\<close>, before it enters the loop. \<open>pipe_ok\<close> and \<open>epoll_ok\<close> are
  the outcomes of the system calls, \<open>S\<close> the shared thread state the pointer refers to. A failed
  call is only logged.
\<close>

definition MakeMessagePump ::
    "Dispatcher \<Rightarrow> bool \<Rightarrow> bool \<Rightarrow> bool \<Rightarrow> ('f, 'o, 'a) MessagePumpEPoll \<times> SharedThreadState
       \<Rightarrow> (('f, 'o, 'a) MessagePumpEPoll \<times> SharedThreadState) result" where
  "MakeMessagePump D pipe_ok epoll_ok isTaskRunner = (\<lambda>(P, S).
     let P = P\<lparr>isATaskRunner := isTaskRunner\<rparr> in
     bindr (GetSharedState D isTaskRunner P) (\<lambda>(s, P).
     let P = P\<lparr>sts := s\<rparr> in
     if s = Null then Inr (P, S)
     else if \<not> pipe_ok then Inr (P, S)
     else Inr (P, S\<lparr>fds_valid := True, epoll_valid := epoll_ok, pipe_bytes := 0\<rparr>)))"

definition MakeMessagePump_init ::
    "Dispatcher \<Rightarrow> bool \<Rightarrow> bool \<Rightarrow> ('f, 'o, 'a) Task option \<Rightarrow> bool
       \<Rightarrow> ('f, 'o, 'a) MessagePumpEPoll \<times> SharedThreadState
       \<Rightarrow> (('f, 'o, 'a) MessagePumpEPoll \<times> SharedThreadState) result" where
  "MakeMessagePump_init D pipe_ok epoll_ok InitTask isTaskRunner = (\<lambda>(P, S).
     MakeMessagePump D pipe_ok epoll_ok isTaskRunner (P\<lparr>pump_initTask := Some InitTask\<rparr>, S))"

text \<open>
  \<^verbatim>\<open>TaskRunner::Start\<close> and \<^verbatim>\<open>Thread::ThreadMain\<close> enter the pump from its own thread. \<open>task_at\<close> is
  the task at an address; \<open>init_fn\<close> and \<open>self\<close> are the thread's virtual \<^verbatim>\<open>Init\<close> and its object.
\<close>

definition TaskRunner_Start ::
    "(nat \<Rightarrow> ('f, 'o, 'a) Task) \<Rightarrow> Dispatcher \<Rightarrow> bool \<Rightarrow> bool \<Rightarrow> TaskRunner
       \<Rightarrow> ('f, 'o, 'a) MessagePumpEPoll \<times> SharedThreadState
       \<Rightarrow> (('f, 'o, 'a) MessagePumpEPoll \<times> SharedThreadState) result" where
  "TaskRunner_Start task_at D pipe_ok epoll_ok r PS =
     bindr (deref (runner_dmp r)) (\<lambda>_.
     case runner_initTask r of
       Uninit \<Rightarrow> Inl UninitRead
     | Null \<Rightarrow> MakeMessagePump_init D pipe_ok epoll_ok None True PS
     | Ptr t \<Rightarrow> MakeMessagePump_init D pipe_ok epoll_ok (Some (task_at t)) True PS)"

definition ThreadMain ::
    "int \<Rightarrow> 'f \<Rightarrow> 'o \<Rightarrow> Dispatcher \<Rightarrow> bool \<Rightarrow> bool \<Rightarrow> Thread
       \<Rightarrow> ('f, 'o, 'a) MessagePumpEPoll \<times> SharedThreadState
       \<Rightarrow> (('f, 'o, 'a) MessagePumpEPoll \<times> SharedThreadState) result" where
  "ThreadMain junk init_fn self D pipe_ok epoll_ok t PS =
     (let InitTask = NEW_TASK0 junk self init_fn in
      bindr (deref (thread_dmp t)) (\<lambda>_.
      MakeMessagePump_init D pipe_ok epoll_ok (Some InitTask) False PS))"

definition LockedPostTaskToQueue ::
    "('f, 'o, 'a) Task \<Rightarrow> ('f, 'o, 'a) MessagePumpEPoll \<times> SharedThreadState
       \<Rightarrow> (('f, 'o, 'a) MessagePumpEPoll \<times> SharedThreadState) result" where
  "LockedPostTaskToQueue task = (\<lambda>(P, S).
     bindr (deref (sts P)) (\<lambda>_.
     if guard_held S then Inl SelfDeadlock
     else Inr (P\<lparr>taskQueue := heap_push GetTaskPriority task (taskQueue P)\<rparr>, S)))"

text \<open>
  Posting to a pump that has started. The write to the non-blocking pipe fails when the pipe
  already holds \<open>cap\<close> bytes; the failure is only logged.
\<close>

definition write_byte :: "nat \<Rightarrow> SharedThreadState \<Rightarrow> SharedThreadState" where
  "write_byte cap S =
     (if fds_valid S \<and> pipe_bytes S < cap then S\<lparr>pipe_bytes := Suc (pipe_bytes S)\<rparr> else S)"

definition PostMessageToThread ::
    "nat \<Rightarrow> ('f, 'o, 'a) Task \<Rightarrow> ('f, 'o, 'a) MessagePumpEPoll \<times> SharedThreadState
       \<Rightarrow> (('f, 'o, 'a) MessagePumpEPoll \<times> SharedThreadState) result" where
  "PostMessageToThread cap task PS =
     bindr (LockedPostTaskToQueue task PS) (\<lambda>(P, S). Inr (P, write_byte cap S))"

text \<open>
  \<^verbatim>\<open>handlers\<close> maps a file descriptor to the function registered for it. After a wake-up the loop
  looks at all four entries of the event array, also at those \<^verbatim>\<open>epoll_wait\<close> did not fill in.
\<close>

definition RegisterMessageFilter :: "int \<Rightarrow> 'h \<Rightarrow> (int \<rightharpoonup> 'h) \<Rightarrow> (int \<rightharpoonup> 'h)" where
  "RegisterMessageFilter fd recv handlers = handlers(fd \<mapsto> recv)"

definition receivers_called :: "(int \<rightharpoonup> 'h) \<Rightarrow> int list \<Rightarrow> 'h list" where
  "receivers_called handlers events =
     List.map_filter (\<lambda>fd. if fd > 0 then handlers fd else None) (take 4 events)"

text \<open>
  The inner loop: serve the queue to the end. \<open>exec\<close> is the effect of a call on the rest of the
  program's state \<open>'s\<close>; the caller holds the queue's lock throughout.
\<close>

function run_tasks ::
    "(('f, 'o, 'a) call \<Rightarrow> 's \<Rightarrow> 's result) \<Rightarrow> ('f, 'o, 'a) Task list \<Rightarrow> 's \<Rightarrow> 's result" where
  "run_tasks exec q s =
     (if length q > 0 then
        let task = heap_top q; q = heap_pop GetTaskPriority q in
        if \<not> IsComplete task
        then bindr (Invoke task) (\<lambda>(c, _). bindr (exec c s) (run_tasks exec q))
        else run_tasks exec q s
      else Inr s)"
  by pat_completeness auto
termination
  by (relation "measure (\<lambda>(exec, q, s). length q)") auto

declare run_tasks.simps [simp del]

text \<open>
  One turn of the outer loop from the reading of the pipe on. The receivers it calls before that are
  \<open>receivers_called\<close>; no file of the program registers one.
\<close>

definition loop_turn ::
    "(('f, 'o, 'a) call \<Rightarrow> 's \<Rightarrow> 's result)
       \<Rightarrow> ('f, 'o, 'a) MessagePumpEPoll \<times> SharedThreadState \<times> 's
       \<Rightarrow> (('f, 'o, 'a) MessagePumpEPoll \<times> SharedThreadState \<times> 's) result" where
  "loop_turn exec = (\<lambda>(P, S, s).
     let S = S\<lparr>pipe_bytes := pipe_bytes S - 1\<rparr> in
     bindr (run_tasks exec (taskQueue P) s) (\<lambda>s.
     Inr (P\<lparr>taskQueue := []\<rparr>, S, s)))"

text \<open>The part of \<^verbatim>\<open>StartMessageLoop\<close> before the loop, with the first turn's posting of the
  initial task.\<close>

definition StartMessageLoop_begin ::
    "nat \<Rightarrow> Dispatcher \<Rightarrow> bool \<Rightarrow> ('f, 'o, 'a) MessagePumpEPoll \<times> SharedThreadState
       \<Rightarrow> (('f, 'o, 'a) MessagePumpEPoll \<times> SharedThreadState) result" where
  "StartMessageLoop_begin cap D isTaskRunner = (\<lambda>(P, S).
     bindr (if sts P = Null then GetSharedState D isTaskRunner P else Inr (sts P, P)) (\<lambda>(s, P).
     let P = P\<lparr>sts := s, startComplete := True\<rparr> in
     case pump_initTask P of
       None \<Rightarrow> Inl UninitRead
     | Some None \<Rightarrow> Inr (P, S)
     | Some (Some t) \<Rightarrow> PostMessageToThread cap t (P, S)))"

section \<open>Serving the queue\<close>

text \<open>The reference: run the tasks of a list in order.\<close>

fun run_list :: "(('f, 'o, 'a) call \<Rightarrow> 's \<Rightarrow> 's result) \<Rightarrow> ('f, 'o, 'a) Task list \<Rightarrow> 's \<Rightarrow> 's result" where
  "run_list exec [] s = Inr s"
| "run_list exec (t # ts) s =
     (if \<not> IsComplete t then bindr (Invoke t) (\<lambda>(c, _). bindr (exec c s) (run_list exec ts))
      else run_list exec ts s)"

abbreviation served :: "('f, 'o, 'a) Task list \<Rightarrow> ('f, 'o, 'a) Task list" where
  "served q \<equiv> pops heap_top (heap_pop GetTaskPriority) (length q) q"

lemma run_tasks_served: "run_tasks exec q s = run_list exec (served q) s"
proof (induction exec q s rule: run_tasks.induct)
  case (1 exec q s)
  show ?case
  proof (cases "length q")
    case 0
    then show ?thesis by (simp add: run_tasks.simps)
  next
    case (Suc n)
    have len: "length (heap_pop GetTaskPriority q) = n" by (simp add: Suc)
    have IH: "run_tasks exec (heap_pop GetTaskPriority q) s' =
                run_list exec (pops heap_top (heap_pop GetTaskPriority) n (heap_pop GetTaskPriority q)) s'"
      if "IsComplete (heap_top q) \<Longrightarrow> s' = s" for s'
      using "1.IH" Suc len that by (cases "IsComplete (heap_top q)") auto
    show ?thesis
      using Suc IH by (auto simp: run_tasks.simps [of exec q s] Let_def bindr_def split: sum.split)
  qed
qed

lemma run_tasks_single:
  "\<not> IsComplete t \<Longrightarrow> Invoke t = Inr (c, t') \<Longrightarrow> run_tasks exec [t] s = exec c s"
  by (simp add: run_tasks_served heap_top_def bindr_def split: sum.split)

lemma sorted_two:
  assumes "mset ts = {#t1, t2#}" and "sorted (map key ts)" and "key t1 < (key t2 :: 'k :: linorder)"
  shows "ts = [t1, t2]"
proof -
  have "length ts = 2" using arg_cong [OF assms(1), of size] by simp
  then obtain a b where "ts = [a, b]" by (auto simp: length_Suc_conv numeral_2_eq_2)
  with assms show ?thesis by (auto simp: add_eq_conv_ex)
qed

lemma run_tasks_two:
  assumes "is_heap GetTaskPriority q" and "mset q = {#t1, t2#}" and "GetTaskPriority t1 < GetTaskPriority t2"
  shows "run_tasks exec q s = run_list exec [t1, t2] s"
proof -
  note all = vector_heap.pops_all [OF assms(1) size_mset [symmetric]]
  have "served q = [t1, t2]"
    using sorted_two [of "served q" t1 t2 GetTaskPriority] all assms(2,3) by simp
  then show ?thesis by (simp only: run_tasks_served)
qed

lemma Post_heap [inv_intros]:
  assumes "PostMessageToThread cap t (P, S) = Inr (P', S')" and "is_heap GetTaskPriority (taskQueue P)"
  shows "is_heap GetTaskPriority (taskQueue P')" and "mset (taskQueue P') = add_mset t (mset (taskQueue P))"
  using assms
  by (auto simp: PostMessageToThread_def LockedPostTaskToQueue_def bindr_eq_Inr_iff heap_push_correct
           split: if_splits)

text \<open>Initialising and starting a task runner, up to its first wait.\<close>

lemma task_runner_starting:
  assumes "GetTaskRunner name D = None" and "TaskRunner_Init self p st name (Ptr a) D = (r, D')" and "cap > 0"
  shows "\<exists>P S. bindr (TaskRunner_Start task_at D' True True r (MessagePumpEPoll_new name, SharedThreadState_new))
                  (StartMessageLoop_begin cap D' True) = Inr (P, S) \<and>
             startComplete P \<and> sts P = Ptr st \<and> taskQueue P = [task_at a] \<and>
             fds_valid S \<and> epoll_valid S \<and> pipe_bytes S = 1"
proof -
  from assms(2) have r: "runner_extra r = Ptr st" "runner_dmp r = Ptr p" "runner_initTask r = Ptr a"
    and D': "D' = AddTaskRunner name r D"
    by (auto simp: TaskRunner_Init_def Let_def)
  have "GetTaskRunner name D' = Some r" using assms(1) D' by (simp add: runners.get_add_same)
  with r assms(3) show ?thesis
    by (simp add: TaskRunner_Start_def MakeMessagePump_init_def MakeMessagePump_def GetSharedState_def Let_def
        StartMessageLoop_begin_def PostMessageToThread_def LockedPostTaskToQueue_def write_byte_def
        MessagePumpEPoll_new_def SharedThreadState_new_def heap_push_def push_heap.simps)
qed

section \<open>Properties\<close>

text \<open>
  C14. One turn of the message loop runs every queued task exactly once, in the order of the
  priorities the queue sees (smallest number first), whatever the tasks do: the heap-based loop
  is the same as running a list of the same tasks that is sorted by priority. It stops at the
  first task that faults, as the program would.
\<close>

theorem loop_turn_serves_by_priority:
  assumes "is_heap GetTaskPriority (taskQueue P)"
  shows "\<exists>ts. mset ts = mset (taskQueue P) \<and> sorted (map GetTaskPriority ts) \<and>
    loop_turn exec (P, S, s) =
      bindr (run_list exec ts s) (\<lambda>s'. Inr (P\<lparr>taskQueue := []\<rparr>, S\<lparr>pipe_bytes := pipe_bytes S - 1\<rparr>, s'))"
proof (intro exI conjI)
  note all = vector_heap.pops_all [OF assms size_mset [symmetric]]
  show "mset (served (taskQueue P)) = mset (taskQueue P)" using all by blast
  show "sorted (map GetTaskPriority (served (taskQueue P)))" using all by blast
  show "loop_turn exec (P, S, s) = bindr (run_list exec (served (taskQueue P)) s)
      (\<lambda>s'. Inr (P\<lparr>taskQueue := []\<rparr>, S\<lparr>pipe_bytes := pipe_bytes S - 1\<rparr>, s'))"
    by (simp add: loop_turn_def run_tasks_served)
qed

definition log_call :: "('f, 'o, 'a) call \<Rightarrow> 'f list \<Rightarrow> 'f list result" where
  "log_call c l = Inr (l @ [callee c])"

definition two_tasks :: "(nat, nat, nat) MessagePumpEPoll" where
  "two_tasks = (MessagePumpEPoll_new ''Main'')
     \<lparr>taskQueue := heap_push GetTaskPriority (Create_void0 0 20 0 HIGH)
        (heap_push GetTaskPriority (Create_void0 0 10 0 LOW) [])\<rparr>"

theorem loop_turn_serves_by_priority_witness:
  "\<exists>ts. mset ts = mset (taskQueue two_tasks) \<and> sorted (map GetTaskPriority ts) \<and>
    loop_turn log_call (two_tasks, SharedThreadState_new, []) =
      bindr (run_list log_call ts []) (\<lambda>s'. Inr (two_tasks\<lparr>taskQueue := []\<rparr>,
        SharedThreadState_new\<lparr>pipe_bytes := pipe_bytes SharedThreadState_new - 1\<rparr>, s'))"
  by (rule loop_turn_serves_by_priority)
     (simp add: two_tasks_def vector_heap.invar_push vector_heap.invar_empty)













text \<open>
  Starting a task runner works end to end: after \<open>Init\<close> registered it, setting up its pump and
  entering the loop finds the shared state and leaves the initial task, and nothing else, in
  the queue with a byte in the pipe to wake the loop.
\<close>

theorem task_runner_starts:
  assumes "GetTaskRunner name D = None" and "TaskRunner_Init self p st name (Ptr a) D = (r, D')" and "cap > 0"
  shows "\<exists>P S. bindr (TaskRunner_Start task_at D' True True r (MessagePumpEPoll_new name, SharedThreadState_new))
                  (StartMessageLoop_begin cap D' True) = Inr (P, S) \<and>
             startComplete P \<and> sts P = Ptr st \<and> taskQueue P = [task_at a] \<and>
             fds_valid S \<and> epoll_valid S \<and> pipe_bytes S = 1"
  by (rule task_runner_starting [OF assms])

theorem task_runner_starts_witness:
  "(let (r, D) = TaskRunner_Init 7 0 1 ''Main'' (Ptr 3) Dispatcher_new;
        t = Create_void0 0 (10::nat) (0::nat) LOW :: (nat, nat, nat) Task in
    \<exists>P S. bindr (TaskRunner_Start (\<lambda>_. t) D True True r (MessagePumpEPoll_new ''Main'', SharedThreadState_new))
                (StartMessageLoop_begin 65536 D True) = Inr (P, S) \<and>
           startComplete P \<and> sts P = Ptr 1 \<and> taskQueue P = [t] \<and>
           fds_valid S \<and> epoll_valid S \<and> pipe_bytes S = 1)"
  unfolding Let_def split_def
  by (rule task_runner_starts [of _ Dispatcher_new, OF _ prod.collapse [symmetric]])
     (simp_all add: Dispatcher_new_def GetTaskRunner_def)

text \<open>
  A \<open>Thread\<close> cannot run its message loop: starting it does not register it, and the loop's
  first act is to look the thread up under its name and dereference the result, which is null.
\<close>

theorem thread_pump_faults:
  assumes "GetThread name D = None" and "Thread_Start tid p st name t D = (t', D')"
  shows "ThreadMain junk init_fn self D' pipe_ok epoll_ok t' (MessagePumpEPoll_new name, S) = Inl NullDeref"
  using assms
  by (auto simp: ThreadMain_def MakeMessagePump_init_def MakeMessagePump_def GetSharedState_def
      MessagePumpEPoll_new_def Thread_Start_def Let_def split: if_splits)

theorem thread_pump_faults_witness:
  "(let (t, D) = Thread_Start 5 0 1 ''MetricsSender''
        \<lparr>thread_Id = 0, thread_dmp = Uninit, dispatchWinName = [], thread_sts = Uninit\<rparr> Dispatcher_new in
    ThreadMain 0 (1::nat) (2::nat) D True True t
      (MessagePumpEPoll_new ''MetricsSender'' :: (nat, nat, nat) MessagePumpEPoll, SharedThreadState_new) = Inl NullDeref)"
  unfolding Let_def split_def
  by (rule thread_pump_faults [OF _ prod.collapse [symmetric]])
     (simp add: Dispatcher_new_def GetThread_def)

end
