(* ===== verification/Repo_Proxy.thy ===== *)
theory Repo_Proxy
  imports Repository_Manager Message_Pump
begin

text \<open>
  \<^verbatim>\<open>services/git/repository/RepoProxy\<close>: the request handlers run on threads of their own and reach
  the repository manager through the proxy, which allocates an argument object with a promise in
  it, wraps the manager's operation in a task, posts the task to the task runner \<^verbatim>\<open>Main\<close> and hands
  back the future. This theory puts the proxy, the dispatcher, the message pump and the manager
  together: one system state, on which posting a request and a turn of the main loop act.

  Argument objects are never deleted, so their addresses are positions in \<open>arg_objects\<close>. Character
  and byte storage the proxy's callers own is in \<open>char_buffers\<close> and \<open>byte_buffers\<close>; \<open>None\<close> is
  storage that was released. A promise without a value has no entry in \<open>promises\<close>.
\<close>

section \<open>State\<close>

datatype manager_fn =
    fn_OpenRepo
  | fn_CloseRepo
  | fn_AppendDataToPack
  | fn_CommitPackChanges
  | fn_NewReference
  | fn_GetRepoRefs

datatype args =
    OpenRepoArgs nat
  | WritePackDataArgs nat size_t
  | GenericArgs
  | NewReferenceArgs string string
  | GetReferenceListArgs

datatype answer = Text string | RefList GetRefsResponse

type_synonym repo_task = "(manager_fn, unit, nat) Task"
type_synonym repo_call = "(manager_fn, unit, nat) call"
type_synonym repo_pump = "(manager_fn, unit, nat) MessagePumpEPoll"

record 'w service =
  manager :: "'w RepositoryManager"
  char_buffers :: "nat \<rightharpoonup> string"
  byte_buffers :: "nat \<rightharpoonup> byte list"
  arg_objects :: "args list"
  promises :: "nat \<rightharpoonup> answer"

record 'w system =
  disp :: Dispatcher
  pumps :: "nat \<Rightarrow> repo_pump \<times> SharedThreadState"
  svc :: "'w service"

section \<open>Running a posted operation\<close>

text \<open>
  What the main loop does when it invokes a task of the proxy: the manager's operation reads its
  argument object and fulfils the promise in it. The cast from \<^verbatim>\<open>void*\<close> is unchecked; an argument
  of another type than the operation expects does not arise, and is \<open>OutOfBounds\<close> here. \<open>oid\<close> is
  the content of the uninitialised \<^verbatim>\<open>git_oid\<close> of a reference creation.
\<close>

definition set_value :: "nat \<Rightarrow> answer \<Rightarrow> 'w service \<Rightarrow> 'w service result" where
  "set_value a v s =
     (if promises s a = None then Inr (s\<lparr>promises := (promises s)(a \<mapsto> v)\<rparr>) else Inl PromiseAlreadySet)"

definition args_at :: "nat option \<Rightarrow> 'w service \<Rightarrow> (nat \<times> args) result" where
  "args_at p s =
     (case p of
        None \<Rightarrow> Inl NullDeref
      | Some a \<Rightarrow> if a < length (arg_objects s) then Inr (a, arg_objects s ! a) else Inl OutOfBounds)"

definition answered ::
    "nat \<Rightarrow> 'w service \<Rightarrow> (string \<times> 'w RepositoryManager) result \<Rightarrow> 'w service result" where
  "answered a s r = bindr r (\<lambda>(res, M). set_value a (Text res) (s\<lparr>manager := M\<rparr>))"

definition run_manager :: "'w libgit2 \<Rightarrow> build_cfg \<Rightarrow> git_oid \<Rightarrow> repo_call \<Rightarrow> 'w service \<Rightarrow> 'w service result" where
  "run_manager L B oid c s =
     (case callee c of
        fn_CloseRepo \<Rightarrow> bindr (CloseRepo L (manager s)) (\<lambda>M. Inr (s\<lparr>manager := M\<rparr>))
      | fn_OpenRepo \<Rightarrow>
          bindr (args_at (argument c) s) (\<lambda>(a, d).
          case d of
            OpenRepoArgs p \<Rightarrow>
              (case char_buffers s p of
                 None \<Rightarrow> Inl UseAfterFree
               | Some n \<Rightarrow> answered a s (OpenRepo L B (c_str n) (manager s)))
          | _ \<Rightarrow> Inl OutOfBounds)
      | fn_AppendDataToPack \<Rightarrow>
          bindr (args_at (argument c) s) (\<lambda>(a, d).
          case d of
            WritePackDataArgs p n \<Rightarrow>
              (case byte_buffers s p of
                 None \<Rightarrow> Inl UseAfterFree
               | Some bs \<Rightarrow>
                   if unat n \<le> length bs
                   then answered a s (AppendDataToPack L (take (unat n) bs) (manager s))
                   else Inl OutOfBounds)
          | _ \<Rightarrow> Inl OutOfBounds)
      | fn_CommitPackChanges \<Rightarrow>
          bindr (args_at (argument c) s) (\<lambda>(a, d).
          case d of
            GenericArgs \<Rightarrow> answered a s (CommitPackChanges L (manager s))
          | _ \<Rightarrow> Inl OutOfBounds)
      | fn_NewReference \<Rightarrow>
          bindr (args_at (argument c) s) (\<lambda>(a, d).
          case d of
            NewReferenceArgs n v \<Rightarrow> answered a s (NewReference L oid n v (manager s))
          | _ \<Rightarrow> Inl OutOfBounds)
      | fn_GetRepoRefs \<Rightarrow>
          bindr (args_at (argument c) s) (\<lambda>(a, d).
          case d of
            GetReferenceListArgs \<Rightarrow>
              (case GetRepoRefs L (manager s) of
                 None \<Rightarrow> Inl NoReturn
               | Some r \<Rightarrow> bindr r (\<lambda>(resp, M). set_value a (RefList resp) (s\<lparr>manager := M\<rparr>)))
          | _ \<Rightarrow> Inl OutOfBounds))"

section \<open>The proxy\<close>

text \<open>
  \<^verbatim>\<open>POST_TASK(task, "Main")\<close>: the dispatcher names the pump, or logs and drops the task. \<open>cap\<close> is
  the capacity of a pipe.
\<close>

definition POST_TASK :: "nat \<Rightarrow> repo_task \<Rightarrow> 'w system \<Rightarrow> 'w system result" where
  "POST_TASK cap t S =
     bindr (PostTask ''Main'' (disp S)) (\<lambda>d.
     case d of
       None \<Rightarrow> Inr S
     | Some d \<Rightarrow>
         bindr (PostMessageToThread cap t (pumps S (pump d))) (\<lambda>p.
         Inr (S\<lparr>pumps := (pumps S)(pump d := p)\<rparr>)))"

text \<open>
  Each function returns the address of the argument object, whose promise the future refers to.
  \<open>junk\<close> is what the memory of the new task held. \<open>p\<close> is the address of the characters of the
  proxy's own copy of the name, of the data of the caller.
\<close>

definition new_args :: "args \<Rightarrow> 'w system \<Rightarrow> nat \<times> 'w system" where
  "new_args d S =
     (length (arg_objects (svc S)), S\<lparr>svc := (svc S)\<lparr>arg_objects := arg_objects (svc S) @ [d]\<rparr>\<rparr>)"

definition Proxy_OpenRepo :: "nat \<Rightarrow> int \<Rightarrow> nat \<Rightarrow> 'w system \<Rightarrow> (nat \<times> 'w system) result" where
  "Proxy_OpenRepo cap junk p S =
     (let (a, S) = new_args (OpenRepoArgs p) S in
      bindr (POST_TASK cap (NEW_TASK1 junk () fn_OpenRepo (Some a)) S) (\<lambda>S. Inr (a, S)))"

definition Proxy_CloseRepo :: "nat \<Rightarrow> int \<Rightarrow> 'w system \<Rightarrow> 'w system result" where
  "Proxy_CloseRepo cap junk S = POST_TASK cap (NEW_TASK0 junk () fn_CloseRepo) S"

definition Proxy_PackAppend :: "nat \<Rightarrow> int \<Rightarrow> nat \<Rightarrow> size_t \<Rightarrow> 'w system \<Rightarrow> (nat \<times> 'w system) result" where
  "Proxy_PackAppend cap junk p n S =
     (let (a, S) = new_args (WritePackDataArgs p n) S in
      bindr (POST_TASK cap (RANKED_TASK1 junk () fn_AppendDataToPack HIGH (Some a)) S) (\<lambda>S. Inr (a, S)))"

definition Proxy_PackCommit :: "nat \<Rightarrow> int \<Rightarrow> 'w system \<Rightarrow> (nat \<times> 'w system) result" where
  "Proxy_PackCommit cap junk S =
     (let (a, S) = new_args GenericArgs S in
      bindr (POST_TASK cap (RANKED_TASK1 junk () fn_CommitPackChanges HIGH (Some a)) S) (\<lambda>S. Inr (a, S)))"

definition Proxy_CreateReference :: "nat \<Rightarrow> int \<Rightarrow> string \<Rightarrow> string \<Rightarrow> 'w system \<Rightarrow> (nat \<times> 'w system) result" where
  "Proxy_CreateReference cap junk rname rrev S =
     (let (a, S) = new_args (NewReferenceArgs rname rrev) S in
      bindr (POST_TASK cap (NEW_TASK1 junk () fn_NewReference (Some a)) S) (\<lambda>S. Inr (a, S)))"

definition Proxy_GetReferences :: "nat \<Rightarrow> int \<Rightarrow> 'w system \<Rightarrow> (nat \<times> 'w system) result" where
  "Proxy_GetReferences cap junk S =
     (let (a, S) = new_args GetReferenceListArgs S in
      bindr (POST_TASK cap (NEW_TASK1 junk () fn_GetRepoRefs (Some a)) S) (\<lambda>S. Inr (a, S)))"

text \<open>One turn of the loop of pump \<open>p\<close>.\<close>

definition pump_turn :: "'w libgit2 \<Rightarrow> build_cfg \<Rightarrow> git_oid \<Rightarrow> nat \<Rightarrow> 'w system \<Rightarrow> 'w system result" where
  "pump_turn L B oid p S =
     bindr (loop_turn (run_manager L B oid) (fst (pumps S p), snd (pumps S p), svc S)) (\<lambda>(P, T, s).
     Inr (S\<lparr>pumps := (pumps S)(p := (P, T)), svc := s\<rparr>))"

text \<open>The main task runner is registered as pump \<open>p\<close> and its loop runs.\<close>

definition main_ready :: "nat \<Rightarrow> 'w system \<Rightarrow> bool" where
  "main_ready p S \<longleftrightarrow>
     (\<exists>r. GetTaskRunner ''Main'' (disp S) = Some r \<and> runner_dmp r = Ptr p) \<and>
     (\<exists>a. sts (fst (pumps S p)) = Ptr a) \<and> \<not> guard_held (snd (pumps S p)) \<and>
     is_heap GetTaskPriority (taskQueue (fst (pumps S p)))"

lemma guard_held_write_byte [simp]: "guard_held (write_byte cap T) = guard_held T"
  by (simp add: write_byte_def)

definition with_task :: "nat \<Rightarrow> nat \<Rightarrow> repo_task \<Rightarrow> 'w system \<Rightarrow> 'w system" where
  "with_task cap p t S = S\<lparr>pumps := (pumps S)(p :=
     ((fst (pumps S p))\<lparr>taskQueue := heap_push GetTaskPriority t (taskQueue (fst (pumps S p)))\<rparr>,
      write_byte cap (snd (pumps S p))))\<rparr>"

lemma POST_TASK_ready: "main_ready p S \<Longrightarrow> POST_TASK cap t S = Inr (with_task cap p t S)"
  by (cases "pumps S p")
     (auto simp: POST_TASK_def main_ready_def PostTask_runner PostMessageToThread_def
        LockedPostTaskToQueue_def with_task_def)

lemma main_ready_with_task: "main_ready p S \<Longrightarrow> main_ready p (with_task cap p t S)"
  by (auto simp: main_ready_def with_task_def heap_push_correct)

lemma main_ready_new_args [simp]: "main_ready p (S\<lparr>svc := s\<rparr>) = main_ready p S"
  by (simp add: main_ready_def)

lemma with_task_simps [simp]:
  "disp (with_task cap p t S) = disp S" "svc (with_task cap p t S) = svc S"
  "taskQueue (fst (pumps (with_task cap p t S) p)) = heap_push GetTaskPriority t (taskQueue (fst (pumps S p)))"
  by (simp_all add: with_task_def)

lemmas proxy_defs = Proxy_OpenRepo_def Proxy_CloseRepo_def Proxy_PackAppend_def Proxy_PackCommit_def
  Proxy_CreateReference_def Proxy_GetReferences_def new_args_def Let_def

lemma posted_args [simp]:
  "functionArguments (NEW_TASK1 junk () f (Some x) :: repo_task) = Some x"
  "functionArguments (RANKED_TASK1 junk () f k (Some x) :: repo_task) = Some x"
  "functionArguments (NEW_TASK0 junk () f :: repo_task) = None"
  by (simp_all add: create_defs bind_defs)

lemma heap_push_Nil [simp]: "heap_push key t [] = [t]"
  by (simp add: heap_push_def push_heap.simps)

text \<open>A turn of the loop with one task in the queue runs the operation bound to it.\<close>

definition served_state :: "nat \<Rightarrow> nat \<Rightarrow> 'w system \<Rightarrow> 'w service \<Rightarrow> 'w system" where
  "served_state cap p S s = S\<lparr>pumps := (pumps S)(p :=
     ((fst (pumps S p))\<lparr>taskQueue := []\<rparr>,
      (write_byte cap (snd (pumps S p)))\<lparr>pipe_bytes := pipe_bytes (write_byte cap (snd (pumps S p))) - 1\<rparr>)),
     svc := s\<rparr>"

lemma turn_single:
  assumes "taskQueue (fst (pumps S p)) = []" and "\<not> IsComplete t" and "Invoke t = Inr (c, t')"
  shows "pump_turn L B oid p (with_task cap p t S) =
           map_sum id (served_state cap p S) (run_manager L B oid c (svc S))"
  using assms
  by (cases "run_manager L B oid c (svc S)")
     (auto simp: pump_turn_def loop_turn_def run_tasks_single served_state_def with_task_def)

section \<open>A request and its answer\<close>

definition ask ::
    "'w libgit2 \<Rightarrow> build_cfg \<Rightarrow> git_oid \<Rightarrow> nat \<Rightarrow> ('w system \<Rightarrow> (nat \<times> 'w system) result) \<Rightarrow> 'w system
       \<Rightarrow> (answer option \<times> 'w system) result" where
  "ask L B oid p request S =
     bindr (request S) (\<lambda>(a, S).
     bindr (pump_turn L B oid p S) (\<lambda>S.
     Inr (promises (svc S) a, S)))"

text \<open>No promise has a value before its argument object exists.\<close>

definition promises_fresh :: "'w service \<Rightarrow> bool" where
  "promises_fresh s \<longleftrightarrow> dom (promises s) \<subseteq> {..<length (arg_objects s)}"

lemma fresh_promise [simp]: "promises_fresh s \<Longrightarrow> promises s (length (arg_objects s)) = None"
  by (auto simp: promises_fresh_def)

definition outcome :: "(answer option \<times> 'w system) result \<Rightarrow> (answer option \<times> 'w RepositoryManager) result" where
  "outcome = map_sum id (\<lambda>(v, S). (v, manager (svc S)))"

definition text_answer :: "(string \<times> 'w RepositoryManager) result \<Rightarrow> (answer option \<times> 'w RepositoryManager) result" where
  "text_answer = map_sum id (\<lambda>(r, M). (Some (Text r), M))"

lemma served_state_svc [simp]: "svc (served_state cap p S s) = s"
  by (simp add: served_state_def)

definition with_args :: "args \<Rightarrow> 'w service \<Rightarrow> 'w service" where
  "with_args d s = s\<lparr>arg_objects := arg_objects s @ [d]\<rparr>"

lemma with_args_simps [simp]:
  "manager (with_args d s) = manager s" "promises (with_args d s) = promises s"
  "char_buffers (with_args d s) = char_buffers s" "byte_buffers (with_args d s) = byte_buffers s"
  "args_at (Some (length (arg_objects s))) (with_args d s) = Inr (length (arg_objects s), d)"
  by (simp_all add: with_args_def args_at_def)

lemma new_args_eq: "new_args d S = (length (arg_objects (svc S)), S\<lparr>svc := with_args d (svc S)\<rparr>)"
  by (simp add: new_args_def with_args_def)

lemma ask_task:
  assumes "main_ready p S" and "taskQueue (fst (pumps S p)) = []"
    and "request S = (let (a, S) = new_args d S in bindr (POST_TASK cap (t a) S) (\<lambda>S. Inr (a, S)))"
    and "a = length (arg_objects (svc S))" and "\<not> IsComplete (t a)" and "Invoke (t a) = Inr (c, t')"
  shows "ask L B oid p request S =
     bindr (run_manager L B oid c (with_args d (svc S))) (\<lambda>s.
       Inr (promises s a, served_state cap p S s))"
proof -
  let ?S = "S\<lparr>svc := with_args d (svc S)\<rparr>"
  have post: "POST_TASK cap (t a) ?S = Inr (with_task cap p (t a) ?S)"
    using assms(1) by (intro POST_TASK_ready) simp
  have "pump_turn L B oid p (with_task cap p (t a) ?S) = map_sum id (served_state cap p ?S) (run_manager L B oid c (svc ?S))"
    using assms by (intro turn_single) auto
  with post assms(3,4) show ?thesis
    by (cases "run_manager L B oid c (svc ?S)") (simp_all add: ask_def new_args_eq served_state_def)
qed

lemma text_answered:
  assumes "promises_fresh s" and "a = length (arg_objects s)"
  shows "outcome (bindr (answered a (with_args d s) r) (\<lambda>s''. Inr (promises s'' a, served_state cap p S s''))) =
    text_answer r"
  using assms by (cases r) (auto simp: answered_def set_value_def outcome_def text_answer_def)

lemma ask_proxy:
  assumes "main_ready p S" and "taskQueue (fst (pumps S p)) = []" and "promises_fresh (svc S)"
  shows "char_buffers (svc S) n = Some name \<Longrightarrow>
           outcome (ask L B oid p (Proxy_OpenRepo cap junk n) S) =
             text_answer (OpenRepo L B (c_str name) (manager (svc S)))"
    and "byte_buffers (svc S) d = Some bs \<Longrightarrow> unat k \<le> length bs \<Longrightarrow>
           outcome (ask L B oid p (Proxy_PackAppend cap junk d k) S) =
             text_answer (AppendDataToPack L (take (unat k) bs) (manager (svc S)))"
    and "outcome (ask L B oid p (Proxy_PackCommit cap junk) S) =
           text_answer (CommitPackChanges L (manager (svc S)))"
    and "outcome (ask L B oid p (Proxy_CreateReference cap junk rname rrev) S) =
           text_answer (NewReference L oid rname rrev (manager (svc S)))"
  using assms(3)
  by (simp_all add: run_manager_def text_answered
        ask_task [OF assms(1,2), where request = "Proxy_OpenRepo cap junk n"
          and t = "\<lambda>a. NEW_TASK1 junk () fn_OpenRepo (Some a)", OF Proxy_OpenRepo_def refl]
        ask_task [OF assms(1,2), where request = "Proxy_PackAppend cap junk d k"
          and t = "\<lambda>a. RANKED_TASK1 junk () fn_AppendDataToPack HIGH (Some a)", OF Proxy_PackAppend_def refl]
        ask_task [OF assms(1,2), where request = "Proxy_PackCommit cap junk"
          and t = "\<lambda>a. RANKED_TASK1 junk () fn_CommitPackChanges HIGH (Some a)", OF Proxy_PackCommit_def refl]
        ask_task [OF assms(1,2), where request = "Proxy_CreateReference cap junk rname rrev"
          and t = "\<lambda>a. NEW_TASK1 junk () fn_NewReference (Some a)", OF Proxy_CreateReference_def refl])

lemma Proxy_OpenRepo_ready:
  assumes "main_ready p S" and "a = length (arg_objects (svc S))"
  shows "Proxy_OpenRepo cap junk n S =
    Inr (a, with_task cap p (NEW_TASK1 junk () fn_OpenRepo (Some a)) (S\<lparr>svc := with_args (OpenRepoArgs n) (svc S)\<rparr>))"
proof -
  have "main_ready p (S\<lparr>svc := with_args (OpenRepoArgs n) (svc S)\<rparr>)" using assms(1) by simp
  from POST_TASK_ready [OF this] assms(2) show ?thesis by (simp add: Proxy_OpenRepo_def new_args_eq)
qed

lemma fresh_set_value:
  "promises_fresh s \<Longrightarrow> a < length (arg_objects s) \<Longrightarrow> set_value a v (s\<lparr>manager := M\<rparr>) = Inr s' \<Longrightarrow> promises_fresh s'"
  by (fastforce simp: set_value_def promises_fresh_def split: if_splits)

lemma fresh_answered:
  "promises_fresh s \<Longrightarrow> a < length (arg_objects s) \<Longrightarrow> answered a s r = Inr s' \<Longrightarrow> promises_fresh s'"
  by (auto simp: answered_def bindr_eq_Inr_iff dest: fresh_set_value)

lemma run_manager_fresh:
  assumes "run_manager L B oid c s = Inr s'" and "promises_fresh s"
  shows "promises_fresh s'"
proof (cases "callee c = fn_CloseRepo")
  case True
  with assms show ?thesis by (fastforce simp: run_manager_def promises_fresh_def bindr_eq_Inr_iff)
next
  case False
  with assms(1) obtain a where a: "argument c = Some a" "a < length (arg_objects s)"
    by (cases "callee c") (auto simp: run_manager_def args_at_def split: option.splits if_splits)
  with False assms(1) show ?thesis
    by (cases "callee c"; cases "arg_objects s ! a")
       (auto simp: run_manager_def args_at_def bindr_eq_Inr_iff split: option.splits if_splits
          dest: fresh_answered [OF assms(2) a(2)] fresh_set_value [OF assms(2) a(2)])
qed

section \<open>A queue of requests\<close>

text \<open>The tasks the proxy posts: a request with its argument object, or closing.\<close>

definition proxy_task :: "repo_task \<Rightarrow> bool" where
  "proxy_task t \<longleftrightarrow> \<not> IsComplete t \<and>
     ((\<exists>f a t'. f \<noteq> fn_CloseRepo \<and> functionArguments t = Some a \<and>
         Invoke t = Inr (\<lparr>callee = f, object_ref = Some (), argument = Some a\<rparr>, t')) \<or>
      (\<exists>t'. functionArguments t = None \<and>
         Invoke t = Inr (\<lparr>callee = fn_CloseRepo, object_ref = Some (), argument = None\<rparr>, t')))"

definition requests :: "repo_task list \<Rightarrow> nat set" where
  "requests q = {a. \<exists>t \<in> set q. functionArguments t = Some a}"

lemma requests_simps [simp]:
  "requests [] = {}"
  "requests (t # q) = (case functionArguments t of None \<Rightarrow> requests q | Some a \<Rightarrow> insert a (requests q))"
  by (auto simp: requests_def split: option.split)

lemma proxy_task_posted:
  "f \<noteq> fn_CloseRepo \<Longrightarrow> proxy_task (NEW_TASK1 junk () f (Some a))"
  "f \<noteq> fn_CloseRepo \<Longrightarrow> proxy_task (RANKED_TASK1 junk () f p (Some a))"
  "proxy_task (NEW_TASK0 junk () fn_CloseRepo)"
  by (auto simp: proxy_task_def)

definition answers :: "nat \<Rightarrow> 'w service \<Rightarrow> 'w service \<Rightarrow> bool" where
  "answers a s s' \<longleftrightarrow> promises s a = None \<and> promises s' a \<noteq> None \<and> (\<forall>b. b \<noteq> a \<longrightarrow> promises s' b = promises s b)"

lemma set_value_answers: "set_value a v s = Inr s' \<Longrightarrow> answers a s s'"
  by (auto simp: set_value_def answers_def split: if_splits)

lemma answered_answers: "answered a s r = Inr s' \<Longrightarrow> answers a s s'"
  by (cases r) (auto simp: answered_def answers_def set_value_def split: if_splits)

lemma run_manager_request:
  assumes "run_manager L B oid \<lparr>callee = f, object_ref = r, argument = Some a\<rparr> s = Inr s'" and "f \<noteq> fn_CloseRepo"
  shows "answers a s s'"
proof -
  have "a < length (arg_objects s)"
    using assms by (cases f) (auto simp: run_manager_def args_at_def split: if_splits)
  with assms show ?thesis
    by (cases f; cases "arg_objects s ! a")
       (auto simp: run_manager_def args_at_def bindr_eq_Inr_iff set_value_def answers_def
         split: option.splits if_splits dest!: answered_answers)
qed

lemma run_manager_close:
  "run_manager L B oid \<lparr>callee = fn_CloseRepo, object_ref = r, argument = None\<rparr> s = Inr s' \<Longrightarrow>
   promises s' = promises s"
  by (auto simp: run_manager_def bindr_eq_Inr_iff)

lemma run_list_answers:
  assumes "run_list (run_manager L B oid) ts s = Inr s'" and "\<forall>t \<in> set ts. proxy_task t"
  shows "dom (promises s') = dom (promises s) \<union> requests ts \<and>
         (\<forall>a \<in> dom (promises s). promises s' a = promises s a) \<and> requests ts \<inter> dom (promises s) = {}"
  using assms
proof (induction ts arbitrary: s)
  case (Cons t ts)
  from Cons.prems(2) consider
      (request) f a t' where "f \<noteq> fn_CloseRepo" "functionArguments t = Some a" "\<not> IsComplete t"
        "Invoke t = Inr (\<lparr>callee = f, object_ref = Some (), argument = Some a\<rparr>, t')"
    | (close) t' where "functionArguments t = None" "\<not> IsComplete t"
        "Invoke t = Inr (\<lparr>callee = fn_CloseRepo, object_ref = Some (), argument = None\<rparr>, t')"
    by (auto simp: proxy_task_def)
  then show ?case
  proof cases
    case request
    with Cons.prems(1) obtain s1 where
      1: "run_manager L B oid \<lparr>callee = f, object_ref = Some (), argument = Some a\<rparr> s = Inr s1"
      "run_list (run_manager L B oid) ts s1 = Inr s'"
      by (auto simp: bindr_eq_Inr_iff)
    have a: "answers a s s1" by (rule run_manager_request [OF 1(1) request(1)])
    then have "dom (promises s1) = insert a (dom (promises s))"
      by (fastforce simp: answers_def dom_def)
    with a Cons.IH [OF 1(2)] Cons.prems(2) request(2) show ?thesis
      by (auto simp: answers_def) (metis option.distinct(1))
  next
    case close
    with Cons.prems(1) obtain s1 where
      1: "run_manager L B oid \<lparr>callee = fn_CloseRepo, object_ref = Some (), argument = None\<rparr> s = Inr s1"
      "run_list (run_manager L B oid) ts s1 = Inr s'"
      by (auto simp: bindr_eq_Inr_iff)
    with Cons.IH [OF 1(2)] Cons.prems(2) close(1) run_manager_close [OF 1(1)] show ?thesis by simp
  qed
qed auto

lemma requests_mset: "mset q = mset q' \<Longrightarrow> requests q = requests q'"
  unfolding requests_def by (drule mset_eq_setD) simp

section \<open>Properties\<close>

text \<open>
  Asking the repository manager through the proxy is the same as calling it directly: when
  the main loop runs and nothing else is queued, posting a request and one turn of the loop
  fulfils the request's promise with exactly the result of the manager's operation on the
  caller's arguments and leaves the manager in the state the operation produces; a fault of the
  operation is the only thing that can prevent it. This holds for opening, appending,
  committing and creating a reference, provided the storage the arguments point to is still there
  when the loop runs.
\<close>

theorem proxy_refines_manager:
  assumes "main_ready p S" and "taskQueue (fst (pumps S p)) = []" and "promises_fresh (svc S)"
    and "char_buffers (svc S) n = Some name"
    and "byte_buffers (svc S) d = Some bs" and "unat k \<le> length bs"
  shows "outcome (ask L B oid p (Proxy_OpenRepo cap junk n) S) =
           text_answer (OpenRepo L B (c_str name) (manager (svc S))) \<and>
         outcome (ask L B oid p (Proxy_PackAppend cap junk d k) S) =
           text_answer (AppendDataToPack L (take (unat k) bs) (manager (svc S))) \<and>
         outcome (ask L B oid p (Proxy_PackCommit cap junk) S) =
           text_answer (CommitPackChanges L (manager (svc S))) \<and>
         outcome (ask L B oid p (Proxy_CreateReference cap junk rname rrev) S) =
           text_answer (NewReference L oid rname rrev (manager (svc S)))"
  by (intro conjI ask_proxy [OF assms(1-3)] assms(4-))

definition main_system :: "'w \<Rightarrow> string \<Rightarrow> byte list \<Rightarrow> 'w system" where
  "main_system w name bs =
     \<lparr>disp = snd (TaskRunner_Init 7 0 1 ''Main'' Null Dispatcher_new),
      pumps = \<lambda>_. ((MessagePumpEPoll_new ''Main'')\<lparr>startComplete := True, sts := Ptr 1\<rparr>,
                    SharedThreadState_new\<lparr>fds_valid := True, epoll_valid := True\<rparr>),
      svc = \<lparr>manager = Init (RepositoryManager_new w), char_buffers = [0 \<mapsto> name], byte_buffers = [0 \<mapsto> bs],
             arg_objects = [], promises = Map.empty\<rparr>\<rparr>"

lemma main_system_ready:
  "main_ready 0 (main_system w name bs)" "taskQueue (fst (pumps (main_system w name bs) 0)) = []"
  "promises_fresh (svc (main_system w name bs))" "char_buffers (svc (main_system w name bs)) 0 = Some name"
  "byte_buffers (svc (main_system w name bs)) 0 = Some bs"
  by (simp_all add: main_system_def main_ready_def TaskRunner_Init_def Let_def AddTaskRunner_def
      GetTaskRunner_def Dispatcher_new_def MessagePumpEPoll_new_def SharedThreadState_new_def
      is_heap_def promises_fresh_def)

theorem proxy_refines_manager_witness:
  "(let S = main_system (mem_with_repo ''r'') ''r'' [1, 2, 3] in
    outcome (ask mem_git debug_build [] 0 (Proxy_OpenRepo 1 9 0) S) =
      text_answer (OpenRepo mem_git debug_build (c_str ''r'') (manager (svc S))) \<and>
    outcome (ask mem_git debug_build [] 0 (Proxy_PackAppend 1 9 0 2) S) =
      text_answer (AppendDataToPack mem_git (take (unat (2 :: size_t)) [1, 2, 3]) (manager (svc S))) \<and>
    outcome (ask mem_git debug_build [] 0 (Proxy_PackCommit 1 9) S) =
      text_answer (CommitPackChanges mem_git (manager (svc S))) \<and>
    outcome (ask mem_git debug_build [] 0 (Proxy_CreateReference 1 9 ''a'' ''b'') S) =
      text_answer (NewReference mem_git [] ''a'' ''b'' (manager (svc S))))"
  unfolding Let_def by (rule proxy_refines_manager [OF main_system_ready]) simp

definition release :: "nat \<Rightarrow> 'w system \<Rightarrow> 'w system" where
  "release n S = S\<lparr>svc := (svc S)\<lparr>char_buffers := (char_buffers (svc S))(n := None)\<rparr>\<rparr>"

text \<open>
  C21. An open request can read released memory: the proxy stores a pointer to the characters of
  its own parameter, which is destroyed when the proxy returns. If that happens before the
  main loop runs the task, the manager reads freed storage.
\<close>

theorem open_request_dangles:
  assumes "main_ready p S" and "taskQueue (fst (pumps S p)) = []"
    and "Proxy_OpenRepo cap junk n S = Inr (a, S')"
  shows "pump_turn L B oid p (release n S') = Inl UseAfterFree"
proof -
  let ?t = "NEW_TASK1 junk () fn_OpenRepo (Some (length (arg_objects (svc S)))) :: repo_task"
  have "S' = with_task cap p ?t (S\<lparr>svc := with_args (OpenRepoArgs n) (svc S)\<rparr>)"
    using assms(3) by (auto simp: Proxy_OpenRepo_ready [OF assms(1) refl])
  then show ?thesis
    using assms(2)
    by (simp add: pump_turn_def loop_turn_def with_task_def release_def run_tasks_single run_manager_def
        args_at_def with_args_def)
qed

theorem open_request_dangles_witness:
  "pump_turn mem_git debug_build [] 0
     (release 0 (snd (projr (Proxy_OpenRepo 1 9 0 (main_system (mem_with_repo ''r'') ''r'' []))))) = Inl UseAfterFree"
  by (rule open_request_dangles [where S = "main_system (mem_with_repo ''r'') ''r'' []" and cap = 1 and junk = 9 and a = 0])
     (simp_all add: main_system_ready Proxy_OpenRepo_ready [OF main_system_ready(1) refl], simp add: main_system_def)

text \<open>
  C22. Closing and opening again can lose the repository. The close request is answered without
  waiting for it and its task has the lowest priority; the open task that follows has whatever
  priority its memory held. When both are queued and that number is smaller, the loop opens
  first and closes afterwards: the client is told the result of the open, and no repository is
  open.
\<close>

theorem close_then_open_reordered:
  assumes "main_ready p S" and "taskQueue (fst (pumps S p)) = []" and "promises_fresh (svc S)"
    and "char_buffers (svc S) n = Some name" and "junk < 2"
    and "Proxy_CloseRepo cap junk' S = Inr S1" and "Proxy_OpenRepo cap junk n S1 = Inr (a, S2)"
    and "OpenRepo L B (c_str name) (manager (svc S)) = Inr (res, M)" and "CloseRepo L M = Inr M'"
  shows "\<exists>S3. pump_turn L B oid p S2 = Inr S3 \<and> promises (svc S3) a = Some (Text res) \<and>
           manager (svc S3) = M' \<and> currentRepo M' = None"
proof -
  let ?c = "NEW_TASK0 junk' () fn_CloseRepo :: repo_task"
  let ?o = "NEW_TASK1 junk () fn_OpenRepo (Some (length (arg_objects (svc S)))) :: repo_task"
  let ?q = "heap_push GetTaskPriority ?o (heap_push GetTaskPriority ?c [])"
  have S1: "S1 = with_task cap p ?c S"
    using assms(1,6) by (simp add: Proxy_CloseRepo_def POST_TASK_ready)
  then have a: "a = length (arg_objects (svc S))"
    and S2: "S2 = with_task cap p ?o (S1\<lparr>svc := with_args (OpenRepoArgs n) (svc S)\<rparr>)"
    using assms(7) by (auto simp: Proxy_OpenRepo_ready [OF main_ready_with_task [OF assms(1)] refl])
  have q: "taskQueue (fst (pumps S2 p)) = ?q" using S1 S2 assms(2) by (simp add: with_task_def)
  have "mset ?q = {#?o, ?c#}" and "is_heap GetTaskPriority ?q"
    using heap_push_correct [of GetTaskPriority "[?c]" ?o] by (simp_all add: is_heap_def)
  moreover have "GetTaskPriority ?o < GetTaskPriority ?c"
    using assms(5) by (simp add: GetTaskPriority_def create_defs bind_defs)
  ultimately have run: "run_tasks (run_manager L B oid) ?q s = run_list (run_manager L B oid) [?o, ?c] s" for s
    by (intro run_tasks_two)
  have "currentRepo M' = None" using assms(9) by (auto elim: CloseRepo_cases)
  with S1 S2 a q run assms(3,4,8,9) show ?thesis
    by (auto simp: pump_turn_def loop_turn_def run_manager_def answered_def set_value_def)
qed

theorem close_then_open_reordered_witness:
  "(let S = main_system (mem_with_repo ''r'') ''r'' [];
        S1 = projr (Proxy_CloseRepo 2 0 S); (a, S2) = projr (Proxy_OpenRepo 2 1 0 S1);
        M = snd (projr (OpenRepo mem_git debug_build ''r'' (manager (svc S)))); M' = projr (CloseRepo mem_git M) in
    \<exists>S3. pump_turn mem_git debug_build [] 0 S2 = Inr S3 \<and> promises (svc S3) a = Some (Text ''success'') \<and>
           manager (svc S3) = M' \<and> currentRepo M' = None)"
  unfolding Let_def split_def
proof (rule close_then_open_reordered [where S = "main_system (mem_with_repo ''r'') ''r'' []" and n = 0
      and name = "''r''" and cap = 2 and junk = 1 and junk' = 0])
  let ?S = "main_system (mem_with_repo ''r'') ''r'' []"
  have close: "Proxy_CloseRepo 2 0 ?S = Inr (with_task 2 0 (NEW_TASK0 0 () fn_CloseRepo) ?S)"
    by (simp add: Proxy_CloseRepo_def POST_TASK_ready [OF main_system_ready(1)])
  then show "Proxy_CloseRepo 2 0 ?S = Inr (projr (Proxy_CloseRepo 2 0 ?S))" by simp
  show "Proxy_OpenRepo 2 1 0 (projr (Proxy_CloseRepo 2 0 ?S)) =
      Inr (fst (projr (Proxy_OpenRepo 2 1 0 (projr (Proxy_CloseRepo 2 0 ?S)))),
           snd (projr (Proxy_OpenRepo 2 1 0 (projr (Proxy_CloseRepo 2 0 ?S)))))"
    by (simp add: close Proxy_OpenRepo_ready [OF main_ready_with_task [OF main_system_ready(1)] refl])
  show "OpenRepo mem_git debug_build (c_str ''r'') (manager (svc ?S)) =
      Inr (''success'', snd (projr (OpenRepo mem_git debug_build ''r'' (manager (svc ?S)))))"
    by code_simp
  show "CloseRepo mem_git (snd (projr (OpenRepo mem_git debug_build ''r'' (manager (svc ?S))))) =
      Inr (projr (CloseRepo mem_git (snd (projr (OpenRepo mem_git debug_build ''r'' (manager (svc ?S)))))))"
    by code_simp
qed (simp_all add: main_system_ready)

text \<open>
  Every queued request is answered exactly once. Whatever requests are queued and in
  whatever order the loop takes them, a turn that comes to its end has given a value to the
  promise of each of them, none of which had one before, has left every earlier answer as it
  was, and has answered nothing else.
\<close>

theorem turn_answers_every_request:
  assumes "is_heap GetTaskPriority (taskQueue (fst (pumps S p)))"
    and "\<forall>t \<in> set (taskQueue (fst (pumps S p))). proxy_task t"
    and "pump_turn L B oid p S = Inr S'"
  shows "dom (promises (svc S')) = dom (promises (svc S)) \<union> requests (taskQueue (fst (pumps S p))) \<and>
         requests (taskQueue (fst (pumps S p))) \<inter> dom (promises (svc S)) = {} \<and>
         (\<forall>a \<in> dom (promises (svc S)). promises (svc S') a = promises (svc S) a) \<and>
         taskQueue (fst (pumps S' p)) = []"
proof -
  let ?q = "taskQueue (fst (pumps S p))"
  have perm: "mset (served ?q) = mset ?q"
    using vector_heap.pops_all [OF assms(1) size_mset [symmetric]] by blast
  from assms(3) obtain s where s: "run_list (run_manager L B oid) (served ?q) (svc S) = Inr s"
    and S': "svc S' = s" "taskQueue (fst (pumps S' p)) = []"
    by (auto simp: pump_turn_def loop_turn_def run_tasks_served bindr_eq_Inr_iff)
  have "\<forall>t \<in> set (served ?q). proxy_task t" using assms(2) perm by (metis set_mset_mset)
  from run_list_answers [OF s this] S' requests_mset [OF perm] show ?thesis by simp
qed

theorem turn_answers_every_request_witness:
  "(let S = with_task 2 0 (NEW_TASK1 5 () fn_NewReference (Some 0))
               (main_system mem_empty ''r'' [])\<lparr>svc := with_args (NewReferenceArgs ''a'' ''b'') (svc (main_system mem_empty ''r'' []))\<rparr>;
        S' = projr (pump_turn mem_git debug_build [] 0 S) in
    dom (promises (svc S')) = dom (promises (svc S)) \<union> requests (taskQueue (fst (pumps S 0))) \<and>
    requests (taskQueue (fst (pumps S 0))) \<inter> dom (promises (svc S)) = {} \<and>
    (\<forall>a \<in> dom (promises (svc S)). promises (svc S') a = promises (svc S) a) \<and>
    taskQueue (fst (pumps S' 0)) = [])"
  unfolding Let_def
  by (rule turn_answers_every_request [where L = mem_git and B = debug_build and oid = "[]"])
     (simp_all add: main_system_ready is_heap_def proxy_task_posted pump_turn_def loop_turn_def run_tasks_single
        run_manager_def main_system_def answered_def NewReference_def Init_def RepositoryManager_new_def set_value_def
        with_task_def with_args_def args_at_def MessagePumpEPoll_new_def)

end
