(* ===== verification/Unary_Requests.thy ===== *)
theory Unary_Requests
  imports Repo_Proxy
begin

text \<open>
  \<^verbatim>\<open>services/git/requests\<close>: the handlers of the calls that take one message and give one answer,
  \<^verbatim>\<open>WriteReference\<close>, \<^verbatim>\<open>RepoStateChange\<close> and \<^verbatim>\<open>ListRefRequests\<close>. Each has a thread that takes tags
  from its own completion queue; a tag is the address of a \<^verbatim>\<open>Request\<close> object, which goes through
  the states CONNECT, READ and FINISH and deletes itself.

  The three classes share their skeleton and differ in \<^verbatim>\<open>Read\<close>. The skeleton is written once, with
  \<^verbatim>\<open>Read\<close> as its first argument, and its properties are proved in the locale \<open>unary_handler\<close>, which
  asks of \<^verbatim>\<open>Read\<close> only that it finishes the call once.

  gRPC is not part of the sources. \<open>waiting\<close> has the requests registered for a call that has not
  come yet, \<open>finishing\<close> those whose answer was handed to gRPC and whose completion has not come
  back. What gRPC promises is that a tag comes back once for every operation it was given to, with
  \<open>ok\<close> not set when the operation failed: the server is shutting down while it waits for a call, or
  the call is dead and its answer cannot be sent. The handler ignores such a tag; \<open>abandoned\<close> has the
  requests it happened to. \<open>live\<close> gives the state of each \<^verbatim>\<open>Request\<close> object that exists.
\<close>

section \<open>State\<close>

type_synonym reply = "GenericResponse \<times> Status"

record ('q, 's) rpc =
  live :: "nat \<rightharpoonup> RequestStatus"
  fresh :: nat
  body :: "nat \<rightharpoonup> 'q"
  waiting :: "nat list"
  finishing :: "nat list"
  abandoned :: "nat list"
  replies :: "(nat \<times> reply) list"
  backend :: 's

definition rpc_init :: "'s \<Rightarrow> ('q, 's) rpc" where
  "rpc_init s = \<lparr>live = Map.empty, fresh = 0, body = Map.empty, waiting = [], finishing = [],
                 abandoned = [], replies = [], backend = s\<rparr>"

section \<open>The skeleton\<close>

text \<open>\<^verbatim>\<open>ProcessRequest\<close> in state CONNECT, which the constructor calls.\<close>

definition connect :: "nat \<Rightarrow> ('q, 's) rpc \<Rightarrow> ('q, 's) rpc" where
  "connect a R = R\<lparr>live := (live R)(a \<mapsto> READ), waiting := waiting R @ [a]\<rparr>"

definition Request_new :: "('q, 's) rpc \<Rightarrow> ('q, 's) rpc" where
  "Request_new R =
     (let a = fresh R in
      connect a (R\<lparr>fresh := Suc a, live := (live R)(a \<mapsto> CONNECT)\<rparr>))"

definition ProcessRequest ::
    "(nat \<Rightarrow> ('q, 's) rpc \<Rightarrow> ('q, 's) rpc result) \<Rightarrow> nat \<Rightarrow> ('q, 's) rpc \<Rightarrow> ('q, 's) rpc result" where
  "ProcessRequest Read a R =
     (case live R a of
        None \<Rightarrow> Inl UseAfterFree
      | Some status \<Rightarrow>
          if status = CONNECT then Inr (connect a R)
          else if status = READ then
            let R = Request_new R in
            bindr (Read a R) (\<lambda>R. Inr (R\<lparr>live := (live R)(a \<mapsto> FINISH)\<rparr>))
          else if status = FINISH then Inr (R\<lparr>live := (live R)(a := None)\<rparr>)
          else Inl AssertFailed)"

text \<open>The body of the loop of \<^verbatim>\<open>HandlerThread\<close>, and what precedes the loop.\<close>

definition HandlerThread_turn ::
    "(nat \<Rightarrow> ('q, 's) rpc \<Rightarrow> ('q, 's) rpc result) \<Rightarrow> nat \<Rightarrow> bool \<Rightarrow> ('q, 's) rpc \<Rightarrow> ('q, 's) rpc result" where
  "HandlerThread_turn Read tag ok R = (if ok then ProcessRequest Read tag R else Inr R)"

definition HandlerThread_begin :: "('q, 's) rpc \<Rightarrow> ('q, 's) rpc" where
  "HandlerThread_begin R = Request_new R"

definition Finish :: "nat \<Rightarrow> GenericResponse \<Rightarrow> Status \<Rightarrow> ('q, 's) rpc \<Rightarrow> ('q, 's) rpc" where
  "Finish a r st R = R\<lparr>replies := replies R @ [(a, r, st)], finishing := finishing R @ [a]\<rparr>"

section \<open>The three classes\<close>

subsection \<open>WriteReference\<close>

record WriteReferenceRequest =
  refname :: string
  refrev :: string

definition WriteReference_Write :: "nat \<Rightarrow> string \<Rightarrow> ('q, 's) rpc \<Rightarrow> ('q, 's) rpc" where
  "WriteReference_Write a msg R =
     (let r = GenericResponse_default\<lparr>errorMessage := msg\<rparr> in
      if strcmp_eq msg ''Success''
      then Finish a (r\<lparr>success := True\<rparr>) \<lparr>code = OK, error_message = ''Success''\<rparr> R
      else Finish a (r\<lparr>success := False\<rparr>) \<lparr>code = INTERNAL, error_message = msg\<rparr> R)"

text \<open>
  \<open>create\<close> is \<^verbatim>\<open>RepoProxy::CreateReference\<close> followed by waiting for the future.
\<close>

definition WriteReference_Read ::
    "(string \<Rightarrow> string \<Rightarrow> 's \<Rightarrow> (string \<times> 's) result) \<Rightarrow> nat
       \<Rightarrow> (WriteReferenceRequest, 's) rpc \<Rightarrow> (WriteReferenceRequest, 's) rpc result" where
  "WriteReference_Read create a R =
     (case body R a of
        None \<Rightarrow> Inl UninitRead
      | Some q \<Rightarrow>
          bindr (create (refname q) (refrev q) (backend R)) (\<lambda>(err, s).
          let R = R\<lparr>backend := s\<rparr> in
          if err \<noteq> ''success'' then Inr (WriteReference_Write a (c_str err) R)
          else Inr (WriteReference_Write a ''Success'' R)))"

subsection \<open>RepoStateChange\<close>

record RepoStateChangeRequest =
  reponame :: string
  newrepostate :: bool

definition RepoStateChange_Write :: "nat \<Rightarrow> string \<Rightarrow> ('q, 's) rpc \<Rightarrow> ('q, 's) rpc" where
  "RepoStateChange_Write a msg R =
     (let r = GenericResponse_default\<lparr>errorMessage := msg\<rparr> in
      if strcmp_eq msg ''success''
      then Finish a (r\<lparr>success := True\<rparr>) \<lparr>code = OK, error_message = ''Success''\<rparr> R
      else Finish a (r\<lparr>success := False\<rparr>) \<lparr>code = INTERNAL, error_message = msg\<rparr> R)"

text \<open>
  \<open>open_repo\<close> is \<^verbatim>\<open>RepoProxy::OpenRepo\<close> followed by waiting for the future; \<open>close_repo\<close> is
  \<^verbatim>\<open>RepoProxy::CloseRepo\<close>, which nobody waits for.
\<close>

definition RepoStateChange_Read ::
    "(string \<Rightarrow> 's \<Rightarrow> (string \<times> 's) result) \<Rightarrow> ('s \<Rightarrow> 's result) \<Rightarrow> nat
       \<Rightarrow> (RepoStateChangeRequest, 's) rpc \<Rightarrow> (RepoStateChangeRequest, 's) rpc result" where
  "RepoStateChange_Read open_repo close_repo a R =
     (case body R a of
        None \<Rightarrow> Inl UninitRead
      | Some q \<Rightarrow>
          if newrepostate q then
            bindr (open_repo (reponame q) (backend R)) (\<lambda>(err, s).
            Inr (RepoStateChange_Write a (c_str err) (R\<lparr>backend := s\<rparr>)))
          else
            bindr (close_repo (backend R)) (\<lambda>s.
            Inr (RepoStateChange_Write a ''success'' (R\<lparr>backend := s\<rparr>))))"

definition RepoStateChange_ProcessRequest ::
    "(string \<Rightarrow> 's \<Rightarrow> (string \<times> 's) result) \<Rightarrow> ('s \<Rightarrow> 's result) \<Rightarrow> nat
       \<Rightarrow> (RepoStateChangeRequest, 's) rpc \<Rightarrow> (RepoStateChangeRequest, 's) rpc result" where
  "RepoStateChange_ProcessRequest open_repo close_repo = ProcessRequest (RepoStateChange_Read open_repo close_repo)"

definition RepoStateChange_HandlerThread_turn ::
    "(string \<Rightarrow> 's \<Rightarrow> (string \<times> 's) result) \<Rightarrow> ('s \<Rightarrow> 's result) \<Rightarrow> nat \<Rightarrow> bool
       \<Rightarrow> (RepoStateChangeRequest, 's) rpc \<Rightarrow> (RepoStateChangeRequest, 's) rpc result" where
  "RepoStateChange_HandlerThread_turn open_repo close_repo tag ok R =
     (if ok then RepoStateChange_ProcessRequest open_repo close_repo tag R else Inr R)"

definition RepoStateChange_Request_new :: "(RepoStateChangeRequest, 's) rpc \<Rightarrow> (RepoStateChangeRequest, 's) rpc" where
  "RepoStateChange_Request_new R = Request_new R"

subsection \<open>ListRefRequests\<close>

text \<open>\<^verbatim>\<open>Read\<close>, \<^verbatim>\<open>HandlerThread\<close> and \<^verbatim>\<open>StartHandlerThread\<close> have empty bodies.\<close>

definition ListRefRequests_Read :: "nat \<Rightarrow> ('q, 's) rpc \<Rightarrow> ('q, 's) rpc result" where
  "ListRefRequests_Read a R = Inr R"

definition ListRefRequests_ProcessRequest :: "nat \<Rightarrow> ('q, 's) rpc \<Rightarrow> ('q, 's) rpc result" where
  "ListRefRequests_ProcessRequest = ProcessRequest ListRefRequests_Read"

definition ListRefRequests_Request_new :: "('q, 's) rpc \<Rightarrow> ('q, 's) rpc" where
  "ListRefRequests_Request_new R = Request_new R"

definition ListRefRequests_HandlerThread :: "('q, 's) rpc \<Rightarrow> ('q, 's) rpc" where
  "ListRefRequests_HandlerThread R = R"

section \<open>The handler thread and gRPC\<close>

inductive rpc_step ::
    "(nat \<Rightarrow> ('q, 's) rpc \<Rightarrow> ('q, 's) rpc result) \<Rightarrow> ('q, 's) rpc \<Rightarrow> ('q, 's) rpc \<Rightarrow> bool"
  for Read :: "nat \<Rightarrow> ('q, 's) rpc \<Rightarrow> ('q, 's) rpc result" where
  call: "a \<in> set (waiting R) \<Longrightarrow>
     HandlerThread_turn Read a True (R\<lparr>waiting := remove1 a (waiting R), body := (body R)(a \<mapsto> q)\<rparr>) = Inr R' \<Longrightarrow>
     rpc_step Read R R'"
| finished: "a \<in> set (finishing R) \<Longrightarrow>
     HandlerThread_turn Read a True (R\<lparr>finishing := remove1 a (finishing R)\<rparr>) = Inr R' \<Longrightarrow>
     rpc_step Read R R'"
| shut_down: "a \<in> set (waiting R) \<Longrightarrow>
     HandlerThread_turn Read a False (R\<lparr>waiting := remove1 a (waiting R), abandoned := abandoned R @ [a]\<rparr>) = Inr R' \<Longrightarrow>
     rpc_step Read R R'"
| call_dead: "a \<in> set (finishing R) \<Longrightarrow>
     HandlerThread_turn Read a False (R\<lparr>finishing := remove1 a (finishing R), abandoned := abandoned R @ [a]\<rparr>) = Inr R' \<Longrightarrow>
     rpc_step Read R R'"

inductive_cases rpc_stepE [consumes 1, case_names call finished shut_down call_dead]: "rpc_step Read R R'"

abbreviation rpc_reachable ::
    "(nat \<Rightarrow> ('q, 's) rpc \<Rightarrow> ('q, 's) rpc result) \<Rightarrow> 's \<Rightarrow> ('q, 's) rpc \<Rightarrow> bool" where
  "rpc_reachable Read s \<equiv> reachable (\<lambda>R. R = HandlerThread_begin (rpc_init s)) (rpc_step Read)"

lemmas rpc_next = reachable_step [of "\<lambda>R. R = HandlerThread_begin (rpc_init s)" "rpc_step Read" for s Read]

text \<open>
  The invariant. One request, \<open>w\<close>, has not been given a call: it is registered for the next one, or
  its tag came back without a call because the server is shutting down. The objects that exist are
  that one, in state READ, and, in state FINISH, those whose answer is on its way and those whose
  answer could not be sent. Every call taken so far has been given exactly one answer.
\<close>

definition rpc_inv :: "('q, 's) rpc \<Rightarrow> bool" where
  "rpc_inv R \<longleftrightarrow>
     (\<exists>w. (waiting R = [w] \<and> w \<notin> set (abandoned R) \<or> waiting R = [] \<and> w \<in> set (abandoned R)) \<and>
       w < fresh R \<and> w \<notin> set (finishing R) \<and> distinct (finishing R @ abandoned R) \<and>
       set (finishing R) \<union> set (abandoned R) \<subseteq> {..<fresh R} \<and>
       live R = (\<lambda>a. if a = w then Some READ else if a \<in> set (finishing R) \<union> set (abandoned R) then Some FINISH else None) \<and>
       distinct (map fst (replies R)) \<and> set (map fst (replies R)) = {..<fresh R} - {w})"

locale unary_handler =
  fixes Read :: "nat \<Rightarrow> ('q, 's) rpc \<Rightarrow> ('q, 's) rpc result"
  assumes Read_finishes: "Read a R = Inr R' \<Longrightarrow> \<exists>r st s. R' = Finish a r st (R\<lparr>backend := s\<rparr>)"
begin

lemma call_step:
  assumes "rpc_inv R" and "a \<in> set (waiting R)"
    and "HandlerThread_turn Read a True (R\<lparr>waiting := remove1 a (waiting R), body := (body R)(a \<mapsto> q)\<rparr>) = Inr R'"
  shows "rpc_inv R'" and "waiting R' = [fresh R]" and "finishing R' = finishing R @ [a]"
    and "fresh R' = Suc (fresh R)" and "\<exists>r. replies R' = replies R @ [(a, r)]"
proof -
  from assms(1) obtain w0 where w0: "waiting R = [w0] \<and> w0 \<notin> set (abandoned R) \<or> waiting R = [] \<and> w0 \<in> set (abandoned R)"
      "w0 < fresh R" "w0 \<notin> set (finishing R)" "distinct (finishing R @ abandoned R)"
      "set (finishing R) \<union> set (abandoned R) \<subseteq> {..<fresh R}"
      "distinct (map fst (replies R))" "set (map fst (replies R)) = {..<fresh R} - {w0}"
    and l0: "live R = (\<lambda>b. if b = w0 then Some READ else if b \<in> set (finishing R) \<union> set (abandoned R) then Some FINISH else None)"
    unfolding rpc_inv_def by blast
  from w0(1) assms(2) have "w0 = a" and "waiting R = [a]" "a \<notin> set (abandoned R)" by auto
  note w = this(2,3) w0(2-) [unfolded \<open>w0 = a\<close>] and l = l0 [unfolded \<open>w0 = a\<close>]
  let ?R = "Request_new (R\<lparr>waiting := [], body := (body R)(a \<mapsto> q)\<rparr>)"
  from assms(3) w(1) l obtain R1 where r: "Read a ?R = Inr R1" and R': "R' = R1\<lparr>live := (live R1)(a \<mapsto> FINISH)\<rparr>"
    by (auto simp: HandlerThread_turn_def ProcessRequest_def Let_def bindr_eq_Inr_iff)
  from Read_finishes [OF r] obtain v st s where R1: "R1 = Finish a v st (?R\<lparr>backend := s\<rparr>)" by blast
  from R' R1 show parts: "waiting R' = [fresh R]" "finishing R' = finishing R @ [a]" "fresh R' = Suc (fresh R)"
    "\<exists>r. replies R' = replies R @ [(a, r)]"
    by (simp_all add: Finish_def Request_new_def connect_def Let_def)
  from R' R1 have abandoned: "abandoned R' = abandoned R"
    by (simp add: Finish_def Request_new_def connect_def Let_def)
  have new: "fresh R \<notin> set (abandoned R)" "fresh R \<notin> set (finishing R)" using w(6) by auto
  have "live R' = (\<lambda>b. if b = fresh R then Some READ else if b \<in> set (finishing R') \<union> set (abandoned R') then Some FINISH else None)"
    using R' R1 w(1-4) l new by (auto simp: Finish_def Request_new_def connect_def Let_def fun_eq_iff)
  moreover from parts(4) obtain r where r': "replies R' = replies R @ [(a, r)]" by blast
  have "a \<notin> set (map fst (replies R))" unfolding w(8) by simp
  with r' w(7) have "distinct (map fst (replies R'))" by simp
  moreover have "set (map fst (replies R')) = {..<fresh R'} - {fresh R}"
    using r' w(3,8) parts(3) by (simp add: lessThan_Suc insert_absorb)
  ultimately show "rpc_inv R'"
    using parts(1-3) abandoned w(2-6) new unfolding rpc_inv_def by (intro exI [of _ "fresh R"]) auto
qed

lemma finished_step:
  assumes "rpc_inv R" and "a \<in> set (finishing R)"
    and "HandlerThread_turn Read a True (R\<lparr>finishing := remove1 a (finishing R)\<rparr>) = Inr R'"
  shows "R' = R\<lparr>finishing := remove1 a (finishing R), live := (live R)(a := None)\<rparr>" and "rpc_inv R'"
proof -
  from assms(1) obtain w where w: "w \<notin> set (finishing R)" "distinct (finishing R @ abandoned R)"
    and l: "live R = (\<lambda>b. if b = w then Some READ else if b \<in> set (finishing R) \<union> set (abandoned R) then Some FINISH else None)"
    and rest: "waiting R = [w] \<and> w \<notin> set (abandoned R) \<or> waiting R = [] \<and> w \<in> set (abandoned R)" "w < fresh R"
      "set (finishing R) \<union> set (abandoned R) \<subseteq> {..<fresh R}"
      "distinct (map fst (replies R))" "set (map fst (replies R)) = {..<fresh R} - {w}"
    unfolding rpc_inv_def by blast
  from assms(2) w have a: "a \<noteq> w" "a \<notin> set (abandoned R)" by auto
  with assms(2,3) l show R': "R' = R\<lparr>finishing := remove1 a (finishing R), live := (live R)(a := None)\<rparr>"
    by (auto simp: HandlerThread_turn_def ProcessRequest_def)
  have "live R' = (\<lambda>b. if b = w then Some READ else if b \<in> set (finishing R') \<union> set (abandoned R') then Some FINISH else None)"
    using a w l R' by (auto simp: fun_eq_iff)
  moreover have "waiting R' = waiting R" "fresh R' = fresh R" "finishing R' = remove1 a (finishing R)"
    "abandoned R' = abandoned R" "replies R' = replies R" using R' by simp_all
  ultimately show "rpc_inv R'"
    using w rest unfolding rpc_inv_def by (intro exI [of _ w]) (auto dest: notin_set_remove1)
qed

text \<open>A tag that comes back without \<open>ok\<close> leaves its request object where it is, for good.\<close>

lemma ignored_tag:
  assumes "rpc_inv R" and "a \<in> set (waiting R) \<union> set (finishing R)"
  shows "rpc_inv (R\<lparr>waiting := remove1 a (waiting R), finishing := remove1 a (finishing R), abandoned := abandoned R @ [a]\<rparr>)"
proof -
  from assms(1) obtain w where w: "waiting R = [w] \<and> w \<notin> set (abandoned R) \<or> waiting R = [] \<and> w \<in> set (abandoned R)"
      "w < fresh R" "w \<notin> set (finishing R)" "distinct (finishing R @ abandoned R)"
      "set (finishing R) \<union> set (abandoned R) \<subseteq> {..<fresh R}"
      "distinct (map fst (replies R))" "set (map fst (replies R)) = {..<fresh R} - {w}"
    and l: "live R = (\<lambda>b. if b = w then Some READ else if b \<in> set (finishing R) \<union> set (abandoned R) then Some FINISH else None)"
    unfolding rpc_inv_def by blast
  let ?R = "R\<lparr>waiting := remove1 a (waiting R), finishing := remove1 a (finishing R), abandoned := abandoned R @ [a]\<rparr>"
  have "live ?R = (\<lambda>b. if b = w then Some READ else if b \<in> set (finishing ?R) \<union> set (abandoned ?R) then Some FINISH else None)"
    using w(1,4) l assms(2) by (auto simp: fun_eq_iff)
  then show ?thesis
    using w assms(2) unfolding rpc_inv_def by (intro exI [of _ w]) auto
qed

lemma shut_down_step:
  assumes "rpc_inv R" and "a \<in> set (waiting R)"
    and "HandlerThread_turn Read a False (R\<lparr>waiting := remove1 a (waiting R), abandoned := abandoned R @ [a]\<rparr>) = Inr R'"
  shows "rpc_inv R'"
proof -
  have "a \<notin> set (finishing R)" using assms(1,2) by (auto simp: rpc_inv_def)
  with assms(3) have "R' = R\<lparr>waiting := remove1 a (waiting R), finishing := remove1 a (finishing R), abandoned := abandoned R @ [a]\<rparr>"
    by (auto simp: HandlerThread_turn_def remove1_idem)
  with ignored_tag [OF assms(1), of a] assms(2) show ?thesis by simp
qed

lemma call_dead_step:
  assumes "rpc_inv R" and "a \<in> set (finishing R)"
    and "HandlerThread_turn Read a False (R\<lparr>finishing := remove1 a (finishing R), abandoned := abandoned R @ [a]\<rparr>) = Inr R'"
  shows "rpc_inv R'"
proof -
  have "a \<notin> set (waiting R)" using assms(1,2) by (auto simp: rpc_inv_def)
  with assms(3) have "R' = R\<lparr>waiting := remove1 a (waiting R), finishing := remove1 a (finishing R), abandoned := abandoned R @ [a]\<rparr>"
    by (auto simp: HandlerThread_turn_def remove1_idem)
  with ignored_tag [OF assms(1), of a] assms(2) show ?thesis by simp
qed

lemma begin_inv: "rpc_inv (HandlerThread_begin (rpc_init s))"
  by (auto simp: rpc_inv_def HandlerThread_begin_def rpc_init_def Request_new_def connect_def Let_def)

lemma step_inv: "rpc_step Read R R' \<Longrightarrow> rpc_inv R \<Longrightarrow> rpc_inv R'"
  by (cases rule: rpc_stepE) (auto intro: call_step(1) finished_step(2) shut_down_step call_dead_step)

lemma no_fault_of_its_own:
  assumes "rpc_inv R" and "a \<in> set (waiting R)"
    and "HandlerThread_turn Read a True (R\<lparr>waiting := remove1 a (waiting R), body := (body R)(a \<mapsto> q)\<rparr>) = Inl e"
  shows "Read a (Request_new (R\<lparr>waiting := remove1 a (waiting R), body := (body R)(a \<mapsto> q)\<rparr>)) = Inl e"
  using assms by (auto simp: rpc_inv_def HandlerThread_turn_def ProcessRequest_def Let_def bindr_def split: sum.splits)

end

sublocale unary_handler \<subseteq> calls: step_invariant "\<lambda>R. R = HandlerThread_begin (rpc_init s)" "rpc_step Read" rpc_inv for s
  by unfold_locales (simp add: begin_inv, rule step_inv)

interpretation write_reference: unary_handler "WriteReference_Read create" for create
  by unfold_locales
     (auto simp: WriteReference_Read_def WriteReference_Write_def bindr_eq_Inr_iff Let_def
        split: option.splits if_splits)

interpretation repo_state_change: unary_handler "RepoStateChange_Read open_repo close_repo" for open_repo close_repo
  by unfold_locales
     (auto simp: RepoStateChange_Read_def RepoStateChange_Write_def bindr_eq_Inr_iff Let_def
        split: option.splits if_splits)

section \<open>Properties\<close>

lemma rpc_invD:
  assumes "rpc_inv R"
  shows "\<exists>w. (waiting R = [w] \<and> w \<notin> set (abandoned R) \<or> waiting R = [] \<and> w \<in> set (abandoned R)) \<and>
    dom (live R) = insert w (set (finishing R) \<union> set (abandoned R)) \<and> set (finishing R) \<inter> set (abandoned R) = {} \<and>
    distinct (map fst (replies R)) \<and> set (map fst (replies R)) = {..<fresh R} - {w}"
proof -
  from assms obtain w where w: "waiting R = [w] \<and> w \<notin> set (abandoned R) \<or> waiting R = [] \<and> w \<in> set (abandoned R)"
      "distinct (finishing R @ abandoned R)" "distinct (map fst (replies R))" "set (map fst (replies R)) = {..<fresh R} - {w}"
    and "live R = (\<lambda>b. if b = w then Some READ else if b \<in> set (finishing R) \<union> set (abandoned R) then Some FINISH else None)"
    unfolding rpc_inv_def by blast
  then have "dom (live R) = insert w (set (finishing R) \<union> set (abandoned R))" by (auto simp: dom_def split: if_splits)
  with w show ?thesis by (intro exI [of _ w]) simp
qed

text \<open>
  C24. The \<open>WriteReference\<close> handler never answers a call twice and never leaves one without an
  answer. In every state it can reach, whatever clients do and however the operations on gRPC end,
  one request object is registered for the next call, unless its tag came back with the server
  shutting down; each of the other requests, that is each call taken so far, has been given exactly
  one answer. Every tag that can still come back is that of an object that exists. Besides those,
  the objects that exist are exactly the requests whose answer could not be sent: they are never deleted.
\<close>

theorem write_reference_serves:
  assumes "rpc_reachable (WriteReference_Read create) s R"
  shows "\<exists>w. (waiting R = [w] \<and> w \<notin> set (abandoned R) \<or> waiting R = [] \<and> w \<in> set (abandoned R)) \<and>
    dom (live R) = insert w (set (finishing R) \<union> set (abandoned R)) \<and> set (finishing R) \<inter> set (abandoned R) = {} \<and>
    distinct (map fst (replies R)) \<and> set (map fst (replies R)) = {..<fresh R} - {w}"
  by (rule rpc_invD [OF write_reference.calls.holds [OF assms]])

definition one_call :: "(nat \<Rightarrow> ('q, 's) rpc \<Rightarrow> ('q, 's) rpc result) \<Rightarrow> 'q \<Rightarrow> 's \<Rightarrow> ('q, 's) rpc result" where
  "one_call Read q s =
     (let R = HandlerThread_begin (rpc_init s) in
      HandlerThread_turn Read 0 True (R\<lparr>waiting := remove1 0 (waiting R), body := (body R)(0 \<mapsto> q)\<rparr>))"

lemma one_call_reachable: "one_call Read q s = Inr R \<Longrightarrow> rpc_reachable Read s R"
  unfolding one_call_def Let_def
  by (rule rpc_next [OF reachable_init call [where a = 0]])
     (simp_all add: HandlerThread_begin_def Request_new_def connect_def Let_def rpc_init_def)

lemmas one_call_simps = one_call_def HandlerThread_turn_def ProcessRequest_def HandlerThread_begin_def
  Request_new_def connect_def Let_def rpc_init_def

text \<open>A call whose operation fails, and whose client is gone when it is told so.\<close>

definition dead_call :: "(WriteReferenceRequest, unit) rpc" where
  "dead_call =
     (let R = projr (one_call (WriteReference_Read (\<lambda>n v s. Inr (''nope'', s))) \<lparr>refname = ''a'', refrev = ''b''\<rparr> ()) in
      R\<lparr>finishing := [], abandoned := [0]\<rparr>)"

lemma dead_call_reachable: "rpc_reachable (WriteReference_Read (\<lambda>n v s. Inr (''nope'', s))) () dead_call"
proof (rule rpc_next [OF one_call_reachable])
  let ?Read = "WriteReference_Read (\<lambda>n v s. Inr (''nope'', s)) :: nat \<Rightarrow> (WriteReferenceRequest, unit) rpc \<Rightarrow> _"
  let ?call = "one_call ?Read \<lparr>refname = ''a'', refrev = ''b''\<rparr> ()"
  show "?call = Inr (projr ?call)" by (simp add: one_call_simps WriteReference_Read_def)
  show "rpc_step ?Read (projr ?call) dead_call"
    by (rule call_dead [where a = 0])
       (simp_all add: dead_call_def one_call_simps WriteReference_Read_def WriteReference_Write_def Finish_def)
qed

theorem write_reference_serves_witness:
  "(let R = dead_call in
    \<exists>w. (waiting R = [w] \<and> w \<notin> set (abandoned R) \<or> waiting R = [] \<and> w \<in> set (abandoned R)) \<and>
      dom (live R) = insert w (set (finishing R) \<union> set (abandoned R)) \<and> set (finishing R) \<inter> set (abandoned R) = {} \<and>
      distinct (map fst (replies R)) \<and> set (map fst (replies R)) = {..<fresh R} - {w})"
  unfolding Let_def by (rule write_reference_serves [OF dead_call_reachable])

text \<open>
  The same for the \<open>RepoStateChange\<close> handler.
\<close>

theorem repo_state_change_serves:
  assumes "rpc_reachable (RepoStateChange_Read open_repo close_repo) s R"
  shows "\<exists>w. (waiting R = [w] \<and> w \<notin> set (abandoned R) \<or> waiting R = [] \<and> w \<in> set (abandoned R)) \<and>
      dom (live R) = insert w (set (finishing R) \<union> set (abandoned R)) \<and> set (finishing R) \<inter> set (abandoned R) = {} \<and>
      distinct (map fst (replies R)) \<and> set (map fst (replies R)) = {..<fresh R} - {w}"
  by (rule rpc_invD [OF repo_state_change.calls.holds [OF assms]])

theorem repo_state_change_serves_witness:
  "(let R = projr (one_call (RepoStateChange_Read (\<lambda>n s. Inr (''success'', s)) Inr) \<lparr>reponame = ''r'', newrepostate = True\<rparr> ()) in
    \<exists>w. (waiting R = [w] \<and> w \<notin> set (abandoned R) \<or> waiting R = [] \<and> w \<in> set (abandoned R)) \<and>
      dom (live R) = insert w (set (finishing R) \<union> set (abandoned R)) \<and> set (finishing R) \<inter> set (abandoned R) = {} \<and>
      distinct (map fst (replies R)) \<and> set (map fst (replies R)) = {..<fresh R} - {w})"
  unfolding Let_def
  by (rule repo_state_change_serves [where open_repo = "\<lambda>n s. Inr (''success'', s)" and close_repo = Inr],
      rule one_call_reachable [where q = "\<lparr>reponame = ''r'', newrepostate = True\<rparr>"])
     (simp add: one_call_simps RepoStateChange_Read_def)

definition unanswered :: "('q, 's) rpc \<Rightarrow> bool" where
  "unanswered R \<longleftrightarrow> replies R = [] \<and> finishing R = [] \<and> dom (live R) = {..<fresh R} \<and>
     (waiting R = [] \<or> (\<exists>w < fresh R. waiting R = [w] \<and> live R w = Some READ))"

interpretation list_refs: step_invariant "\<lambda>R. R = HandlerThread_begin (rpc_init s)" "rpc_step ListRefRequests_Read"
  "unanswered :: ('q, 's) rpc \<Rightarrow> bool" for s :: 's
proof unfold_locales
  fix R R' :: "('q, 's) rpc"
  assume step: "rpc_step ListRefRequests_Read R R'" and un: "unanswered R"
  from step show "unanswered R'"
  proof (cases rule: rpc_stepE)
    case (call a q)
    with un have w: "a < fresh R" "waiting R = [a]" "live R a = Some READ"
      "replies R = []" "finishing R = []" "dom (live R) = {..<fresh R}" by (auto simp: unanswered_def)
    with call have "R' = (Request_new (R\<lparr>waiting := [], body := (body R)(a \<mapsto> q)\<rparr>))\<lparr>live := (live R)(fresh R \<mapsto> READ, a \<mapsto> FINISH)\<rparr>"
      by (auto simp: HandlerThread_turn_def ProcessRequest_def ListRefRequests_Read_def Request_new_def connect_def Let_def)
    moreover have "dom ((live R)(fresh R \<mapsto> READ, a \<mapsto> FINISH)) = {..<Suc (fresh R)}"
      using w(1,6) by (simp only: dom_fun_upd) auto
    moreover have "((live R)(fresh R \<mapsto> READ, a \<mapsto> FINISH)) (fresh R) = Some READ" using w(1) by simp
    ultimately show ?thesis
      using w by (simp add: unanswered_def Request_new_def connect_def Let_def del: dom_fun_upd fun_upd_apply)
  next
    case (shut_down a)
    with un have "R' = R\<lparr>waiting := [], abandoned := abandoned R @ [a]\<rparr>"
      by (auto simp: unanswered_def HandlerThread_turn_def)
    with un show ?thesis by (simp add: unanswered_def)
  qed (use un in \<open>simp_all add: unanswered_def\<close>)
qed (auto simp: unanswered_def HandlerThread_begin_def Request_new_def connect_def Let_def rpc_init_def split: if_splits)

text \<open>
  A \<open>ListRefs\<close> call is never answered. The server does not even register for one, since the
  handler's thread functions are empty; were it registered, every call would be taken, given no
  answer, and its request object kept for ever.
\<close>

theorem list_refs_never_answered:
  assumes "rpc_reachable ListRefRequests_Read s R"
  shows "replies R = [] \<and> finishing R = [] \<and> dom (live R) = {..<fresh R} \<and>
    waiting (ListRefRequests_HandlerThread (rpc_init s :: ('q, 's) rpc)) = []"
  using list_refs.holds [OF assms] by (auto simp: unanswered_def ListRefRequests_HandlerThread_def rpc_init_def)

theorem list_refs_never_answered_witness:
  "(let R = projr (one_call ListRefRequests_Read ''r'' ()) in
    replies R = [] \<and> finishing R = [] \<and> dom (live R) = {..<fresh R} \<and>
    waiting (ListRefRequests_HandlerThread (rpc_init () :: (string, unit) rpc)) = [])"
  unfolding Let_def
  by (rule list_refs_never_answered [OF one_call_reachable]) (simp add: one_call_simps ListRefRequests_Read_def)

end
