(* ===== verification/Recv_Pack_Stream.thy ===== *)
theory Recv_Pack_Stream
  imports Unary_Requests
begin

text \<open>
  \<^verbatim>\<open>services/git/requests/RecvPackStream\<close>: the bidirectional stream by which a client sends a pack
  in pieces. One request object exists at a time; the tags on its completion queue are request
  states. The handler asks gRPC for the next message before it works on the one it has. Both are the
  same object, but gRPC stores a message only when it delivers the tag of the read, inside the call
  of \<^verbatim>\<open>Next\<close> by the handler's own thread, so not while the handler is at work.

  \<open>pending\<close> has the tags that were given to gRPC and have not come back. \<open>sent\<close> are the answers
  written to the stream, \<open>closed\<close> the answer and status a stream was finished with. \<open>pack_append\<close> and
  \<open>pack_commit\<close> are \<^verbatim>\<open>RepoProxy::PackAppend\<close> and \<^verbatim>\<open>RepoProxy::PackCommit\<close> followed by waiting for the future.
\<close>

section \<open>State\<close>

record ReceivePackRequest =
  pack_data :: "byte list"
  pack_done :: bool
  pack_reponame :: string

definition empty_msg :: ReceivePackRequest where
  "empty_msg = \<lparr>pack_data = [], pack_done = False, pack_reponame = []\<rparr>"

record 's recv =
  currentStatus :: RequestStatus
  repoOpen :: bool
  isRunning :: bool
  msg :: ReceivePackRequest
  resp :: "CommonResponseInfo option"
  pending :: "RequestStatus list"
  sent :: "GenericResponse list"
  closed :: "reply list"
  created :: nat
  store :: 's

section \<open>Operations\<close>

definition Recv_Request_new :: "'s recv \<Rightarrow> 's recv" where
  "Recv_Request_new R =
     R\<lparr>currentStatus := CONNECT, repoOpen := False, isRunning := True, msg := empty_msg, resp := None,
       pending := pending R @ [CONNECT], created := Suc (created R)\<rparr>"

definition recv_init :: "'s \<Rightarrow> 's recv" where
  "recv_init s =
     \<lparr>currentStatus = CONNECT, repoOpen = False, isRunning = True, msg = empty_msg, resp = None,
      pending = [], sent = [], closed = [], created = 0, store = s\<rparr>"

definition WriteResponse :: "'s recv \<Rightarrow> 's recv" where
  "WriteResponse R =
     R\<lparr>sent := sent R @ [\<lparr>success = True, errorMessage = ''Success''\<rparr>], pending := pending R @ [WRITE]\<rparr>"

definition ReadMessage ::
    "(byte list \<Rightarrow> 's \<Rightarrow> (string \<times> 's) result) \<Rightarrow> 's recv \<Rightarrow> 's recv result" where
  "ReadMessage pack_append R =
     (if isRunning R then
        let R = R\<lparr>pending := pending R @ [READ]\<rparr> in
        bindr
          (if length (pack_data (msg R)) > 0 then
             let R = R\<lparr>repoOpen := True\<rparr> in
             bindr (pack_append (pack_data (msg R)) (store R)) (\<lambda>(err, s).
             let R = R\<lparr>store := s\<rparr> in
             if err \<noteq> ''success'' then Inr (False, R\<lparr>resp := Some (Response (c_str err) False INTERNAL)\<rparr>)
             else Inr (True, R))
           else Inr (True, R)) (\<lambda>(go_on, R).
        if go_on \<and> pack_done (msg R)
        then Inr (R\<lparr>pending := pending R @ [DONE], msg := (msg R)\<lparr>pack_data := [], pack_reponame := []\<rparr>\<rparr>)
        else Inr R)
      else Inr R)"

definition FinishRequest :: "('s \<Rightarrow> (string \<times> 's) result) \<Rightarrow> 's recv \<Rightarrow> 's recv result" where
  "FinishRequest pack_commit R =
     (if repoOpen R then
        bindr (pack_commit (store R)) (\<lambda>(ret, s).
        let R = R\<lparr>store := s\<rparr> in
        if ret \<noteq> ''success'' then
          let i = Response (c_str ret) False INTERNAL in
          Inr (R\<lparr>resp := Some i,
                 closed := closed R @ [(\<lparr>success = info_success i, errorMessage = info_errorMessage i\<rparr>,
                                        \<lparr>code = INTERNAL, error_message = info_errorMessage i\<rparr>)],
                 pending := pending R @ [FINISH], repoOpen := False\<rparr>)
        else
          Inr (R\<lparr>closed := closed R @ [(\<lparr>success = True, errorMessage = ''success''\<rparr>, Status_OK)],
                 pending := pending R @ [FINISH], repoOpen := False\<rparr>))
      else Inr R)"

definition Recv_ProcessRequest ::
    "(byte list \<Rightarrow> 's \<Rightarrow> (string \<times> 's) result) \<Rightarrow> ('s \<Rightarrow> (string \<times> 's) result)
       \<Rightarrow> RequestStatus \<Rightarrow> 's recv \<Rightarrow> 's recv result" where
  "Recv_ProcessRequest pack_append pack_commit status' R =
     (let R = R\<lparr>currentStatus := status'\<rparr> in
      case status' of
        CONNECT \<Rightarrow> ReadMessage pack_append R
      | READ \<Rightarrow> Inr (WriteResponse R)
      | WRITE \<Rightarrow> ReadMessage pack_append R
      | DONE \<Rightarrow>
          let R = R\<lparr>isRunning := False\<rparr> in
          if repoOpen R then FinishRequest pack_commit R else Inr R
      | FINISH \<Rightarrow> Inr (R\<lparr>isRunning := False\<rparr>))"

definition Recv_HandlerThread_turn ::
    "(byte list \<Rightarrow> 's \<Rightarrow> (string \<times> 's) result) \<Rightarrow> ('s \<Rightarrow> (string \<times> 's) result)
       \<Rightarrow> RequestStatus \<Rightarrow> bool \<Rightarrow> 's recv \<Rightarrow> 's recv result" where
  "Recv_HandlerThread_turn pack_append pack_commit tag ok R =
     bindr (if ok then Recv_ProcessRequest pack_append pack_commit tag R else Inr R) (\<lambda>R.
     if tag = FINISH then Inr (Recv_Request_new R) else Inr R)"

definition Recv_HandlerThread_begin :: "'s recv \<Rightarrow> 's recv" where
  "Recv_HandlerThread_begin R = Recv_Request_new R"

section \<open>The handler thread and gRPC\<close>

text \<open>
  A tag comes back with \<open>ok\<close> set, or not set when the client is gone or has ended its side of the
  stream. When the tag is READ and \<open>ok\<close> is set, gRPC stores the client's message \<open>m\<close> as it hands out
  the tag.
\<close>

inductive recv_step ::
    "(byte list \<Rightarrow> 's \<Rightarrow> (string \<times> 's) result) \<Rightarrow> ('s \<Rightarrow> (string \<times> 's) result) \<Rightarrow> 's recv \<Rightarrow> 's recv \<Rightarrow> bool"
  for pack_append :: "byte list \<Rightarrow> 's \<Rightarrow> (string \<times> 's) result" and pack_commit :: "'s \<Rightarrow> (string \<times> 's) result" where
  tag_back: "t \<in> set (pending R) \<Longrightarrow> (t \<noteq> READ \<or> \<not> ok \<Longrightarrow> m = msg R) \<Longrightarrow>
     Recv_HandlerThread_turn pack_append pack_commit t ok (R\<lparr>pending := remove1 t (pending R), msg := m\<rparr>) = Inr R' \<Longrightarrow>
     recv_step pack_append pack_commit R R'"

inductive_cases recv_stepE [consumes 1, case_names tag_back]: "recv_step pack_append pack_commit R R'"

abbreviation recv_steps where
  "recv_steps pack_append pack_commit \<equiv> (recv_step pack_append pack_commit)\<^sup>*\<^sup>*"

lemmas recv_defs = Recv_HandlerThread_turn_def Recv_ProcessRequest_def ReadMessage_def WriteResponse_def
  FinishRequest_def Recv_Request_new_def Let_def

section \<open>A whole stream\<close>

text \<open>
  One message of a client that waits for each answer: it arrives, is acknowledged, and is worked
  on when the acknowledgement is out.
\<close>

definition take_tag :: "RequestStatus \<Rightarrow> 's recv \<Rightarrow> 's recv" where
  "take_tag t R = R\<lparr>pending := remove1 t (pending R)\<rparr>"

definition stream_message ::
    "(byte list \<Rightarrow> 's \<Rightarrow> (string \<times> 's) result) \<Rightarrow> ('s \<Rightarrow> (string \<times> 's) result)
       \<Rightarrow> ReceivePackRequest \<Rightarrow> 's recv \<Rightarrow> 's recv result" where
  "stream_message pack_append pack_commit m R =
     bindr (Recv_HandlerThread_turn pack_append pack_commit READ True ((take_tag READ R)\<lparr>msg := m\<rparr>)) (\<lambda>R.
     Recv_HandlerThread_turn pack_append pack_commit WRITE True (take_tag WRITE R))"

fun stream_messages ::
    "(byte list \<Rightarrow> 's \<Rightarrow> (string \<times> 's) result) \<Rightarrow> ('s \<Rightarrow> (string \<times> 's) result)
       \<Rightarrow> ReceivePackRequest list \<Rightarrow> 's recv \<Rightarrow> 's recv result" where
  "stream_messages pack_append pack_commit [] R = Inr R"
| "stream_messages pack_append pack_commit (m # ms) R =
     bindr (stream_message pack_append pack_commit m R) (stream_messages pack_append pack_commit ms)"

definition stream ::
    "(byte list \<Rightarrow> 's \<Rightarrow> (string \<times> 's) result) \<Rightarrow> ('s \<Rightarrow> (string \<times> 's) result)
       \<Rightarrow> ReceivePackRequest list \<Rightarrow> 's recv \<Rightarrow> 's recv result" where
  "stream pack_append pack_commit ms R =
     bindr (Recv_HandlerThread_turn pack_append pack_commit CONNECT True (take_tag CONNECT R)) (\<lambda>R.
     bindr (stream_messages pack_append pack_commit ms R) (\<lambda>R.
     bindr (Recv_HandlerThread_turn pack_append pack_commit DONE True (take_tag DONE R)) (\<lambda>R.
     Recv_HandlerThread_turn pack_append pack_commit FINISH True (take_tag FINISH R))))"

text \<open>The reference: append all pieces in order; \<open>None\<close> when one fails.\<close>

fun append_all :: "(byte list \<Rightarrow> 's \<Rightarrow> (string \<times> 's) result) \<Rightarrow> byte list list \<Rightarrow> 's \<Rightarrow> 's option" where
  "append_all pack_append [] s = Some s"
| "append_all pack_append (d # ds) s =
     (case pack_append d s of Inr (r, s') \<Rightarrow> if r = ''success'' then append_all pack_append ds s' else None | Inl _ \<Rightarrow> None)"

text \<open>What the handler does instead: a piece that fails is left out, as long as nothing faults.\<close>

fun append_surviving :: "(byte list \<Rightarrow> 's \<Rightarrow> (string \<times> 's) result) \<Rightarrow> byte list list \<Rightarrow> 's \<Rightarrow> 's option" where
  "append_surviving pack_append [] s = Some s"
| "append_surviving pack_append (d # ds) s =
     (case pack_append d s of Inr (r, s') \<Rightarrow> append_surviving pack_append ds s' | Inl _ \<Rightarrow> None)"

lemma append_all_surviving: "append_all pack_append ds s = Some s' \<Longrightarrow> append_surviving pack_append ds s = Some s'"
  by (induction ds arbitrary: s) (auto split: sum.splits if_splits)

definition receiving :: "'s recv \<Rightarrow> bool" where
  "receiving R \<longleftrightarrow> isRunning R \<and> pending R = [READ]"

definition ack :: GenericResponse where
  "ack = \<lparr>success = True, errorMessage = ''Success''\<rparr>"

lemma stream_message_ok:
  assumes "receiving R" and "pack_data m \<noteq> []" and "pack_append (pack_data m) (store R) = Inr (''success'', s)"
  shows "stream_message pack_append pack_commit m R =
    Inr (R\<lparr>currentStatus := WRITE, repoOpen := True, store := s, sent := sent R @ [ack],
           msg := (if pack_done m then m\<lparr>pack_data := [], pack_reponame := []\<rparr> else m),
           pending := (if pack_done m then [READ, DONE] else [READ])\<rparr>)"
  using assms by (simp add: stream_message_def take_tag_def recv_defs receiving_def ack_def)

text \<open>A piece that is not the last leaves the handler ready for the next one, whether it was stored or not.\<close>

lemma stream_message_any:
  assumes "receiving R" and "pack_data m \<noteq> []" and "\<not> pack_done m" and "pack_append (pack_data m) (store R) = Inr (r, s)"
  shows "\<exists>R'. stream_message pack_append pack_commit m R = Inr R' \<and> receiving R' \<and> store R' = s \<and>
     sent R' = sent R @ [ack] \<and> closed R' = closed R \<and> created R' = created R"
  using assms by (auto simp: stream_message_def take_tag_def recv_defs receiving_def ack_def)

lemma stream_messages_any:
  assumes "receiving R" and "\<forall>m \<in> set ms. pack_data m \<noteq> [] \<and> \<not> pack_done m"
    and "append_surviving pack_append (map pack_data ms) (store R) = Some s"
  shows "\<exists>R'. stream_messages pack_append pack_commit ms R = Inr R' \<and> receiving R' \<and> store R' = s \<and>
     sent R' = sent R @ replicate (length ms) ack \<and> closed R' = closed R \<and> created R' = created R"
  using assms
proof (induction ms arbitrary: R)
  case (Cons m ms)
  from Cons.prems(3) obtain r s1 where s1: "pack_append (pack_data m) (store R) = Inr (r, s1)"
    "append_surviving pack_append (map pack_data ms) s1 = Some s"
    by (auto split: sum.splits)
  from Cons.prems(2) stream_message_any [OF Cons.prems(1) _ _, of m pack_append r s1 pack_commit] s1(1) obtain R1 where R1:
    "stream_message pack_append pack_commit m R = Inr R1" "receiving R1" "store R1 = s1" "sent R1 = sent R @ [ack]"
    "closed R1 = closed R" "created R1 = created R" by auto
  from Cons.IH [OF R1(2)] Cons.prems(2) s1(2) R1 show ?case by (auto simp: replicate_append_same [symmetric])
qed simp

lemma stream_messages_snoc:
  "stream_messages pack_append pack_commit (ms @ [m]) R =
     bindr (stream_messages pack_append pack_commit ms R) (stream_message pack_append pack_commit m)"
  by (induction ms arbitrary: R) (auto simp: bindr_def split: sum.split)

lemma append_all_snoc:
  "append_all pack_append (ds @ [d]) t = Some s \<Longrightarrow>
     \<exists>s1. append_all pack_append ds t = Some s1 \<and> pack_append d s1 = Inr (''success'', s)"
  by (induction ds arbitrary: t) (auto split: sum.splits if_splits)

text \<open>
  A stream to its end. When every piece has data, the client marks the last one as done and waits
  for each acknowledgement, and the store takes the last piece and the commit, the stream has the
  pieces that were not refused in the order they were sent, commits once, acknowledges each piece,
  ends with success and status OK, and the handler is registered for the next stream.
\<close>

lemma stream_ends:
  assumes "pending R = [CONNECT]" and "isRunning R" and "msg R = empty_msg"
    and "\<forall>m \<in> set ms. pack_data m \<noteq> [] \<and> \<not> pack_done m" and "pack_data m \<noteq> []" and "pack_done m"
    and "append_surviving pack_append (map pack_data ms) (store R) = Some s1"
    and "pack_append (pack_data m) s1 = Inr (''success'', s)" and "pack_commit s = Inr (''success'', s')"
  shows "\<exists>R'. stream pack_append pack_commit (ms @ [m]) R = Inr R' \<and>
     store R' = s' \<and> sent R' = sent R @ replicate (Suc (length ms)) ack \<and>
     closed R' = closed R @ [(\<lparr>success = True, errorMessage = ''success''\<rparr>, Status_OK)] \<and>
     created R' = Suc (created R) \<and> CONNECT \<in> set (pending R')"
proof -
  let ?R0 = "R\<lparr>currentStatus := CONNECT, pending := [READ]\<rparr>"
  have 0: "Recv_HandlerThread_turn pack_append pack_commit CONNECT True (take_tag CONNECT R) = Inr ?R0"
    using assms(1-3) by (simp add: recv_defs take_tag_def empty_msg_def)
  have "receiving ?R0" using assms(2) by (simp add: receiving_def)
  from stream_messages_any [OF this assms(4), of pack_append s1 pack_commit] assms(7) obtain R1 where R1:
    "stream_messages pack_append pack_commit ms ?R0 = Inr R1" "receiving R1" "store R1 = s1"
    "sent R1 = sent R @ replicate (length ms) ack" "closed R1 = closed R" "created R1 = created R" by auto
  have 2: "stream_message pack_append pack_commit m R1 =
     Inr (R1\<lparr>currentStatus := WRITE, repoOpen := True, store := s, sent := sent R1 @ [ack],
       msg := m\<lparr>pack_data := [], pack_reponame := []\<rparr>, pending := [READ, DONE]\<rparr>)"
    using stream_message_ok [of R1 m pack_append s pack_commit] R1 assms(5,6,8) by simp
  show ?thesis
    using assms(9) R1
    by (simp add: stream_def 0 2 stream_messages_snoc)
       (simp add: recv_defs take_tag_def replicate_append_same [symmetric])
qed

lemma stream_completes:
  assumes "pending R = [CONNECT]" and "isRunning R" and "msg R = empty_msg"
    and "\<forall>m \<in> set ms. pack_data m \<noteq> [] \<and> \<not> pack_done m" and "pack_data m \<noteq> []" and "pack_done m"
    and "append_all pack_append (map pack_data (ms @ [m])) (store R) = Some s"
    and "pack_commit s = Inr (''success'', s')"
  shows "\<exists>R'. stream pack_append pack_commit (ms @ [m]) R = Inr R' \<and>
     store R' = s' \<and> sent R' = sent R @ replicate (Suc (length ms)) ack \<and>
     closed R' = closed R @ [(\<lparr>success = True, errorMessage = ''success''\<rparr>, Status_OK)] \<and>
     created R' = Suc (created R) \<and> CONNECT \<in> set (pending R')"
proof -
  obtain s1 where s1: "append_all pack_append (map pack_data ms) (store R) = Some s1" "pack_append (pack_data m) s1 = Inr (''success'', s)"
    using append_all_snoc [of pack_append "map pack_data ms" "pack_data m"] assms(7) by auto
  show ?thesis
    by (rule stream_ends [where pack_append = pack_append and pack_commit = pack_commit, OF assms(1-6) append_all_surviving [OF s1(1)] s1(2) assms(8)])
qed

section \<open>Streams that never end\<close>

text \<open>No completion is outstanding that could end the stream.\<close>

definition stuck :: "'s recv \<Rightarrow> bool" where
  "stuck R \<longleftrightarrow> \<not> isRunning R \<and> DONE \<notin> set (pending R) \<and> FINISH \<notin> set (pending R) \<and> CONNECT \<notin> set (pending R)"

lemma blocked_step:
  assumes "recv_step pack_append pack_commit R R'" and "stuck R"
  shows "stuck R' \<and> created R' = created R \<and> closed R' = closed R \<and> store R' = store R"
  using assms
proof (cases rule: recv_stepE)
  case (tag_back t ok m)
  from tag_back(1) assms(2) have "t = READ \<or> t = WRITE"
    by (metis stuck_def RequestStatus.exhaust)
  with tag_back(3) assms(2) show ?thesis
    by (cases ok) (auto simp: recv_defs stuck_def dest: notin_set_remove1)
qed

lemma blocked_steps:
  assumes "recv_steps pack_append pack_commit R R'" and "stuck R"
  shows "stuck R' \<and> created R' = created R \<and> closed R' = closed R \<and> store R' = store R"
  using assms(1) by induction (use assms(2) in \<open>auto dest: blocked_step\<close>)

lemma silent_steps:
  assumes "recv_steps pack_append pack_commit R R'" and "pending R = []"
  shows "R' = R"
  using assms by (induction rule: converse_rtranclp_induct) (auto elim: recv_stepE)

section \<open>Properties\<close>

definition piece :: "byte list \<Rightarrow> bool \<Rightarrow> ReceivePackRequest" where
  "piece bs d = \<lparr>pack_data = bs, pack_done = d, pack_reponame = ''r''\<rparr>"

text \<open>
  A failed append is acknowledged as a success and then forgotten. The acknowledgement goes
  out before the piece is looked at; when the store refuses it, the error is kept in a field
  nobody reads, a done mark in the same message is ignored, and no completion is left that
  would end the stream: the client has only seen success and gets no final status.
\<close>

theorem failed_append_is_acknowledged:
  assumes "receiving R" and "pack_data m \<noteq> []" and "pack_append (pack_data m) (store R) = Inr (err, s)"
    and "err \<noteq> ''success''"
  shows "\<exists>R'. stream_message pack_append pack_commit m R = Inr R' \<and>
    sent R' = sent R @ [\<lparr>success = True, errorMessage = ''Success''\<rparr>] \<and> closed R' = closed R \<and>
    store R' = s \<and> pending R' = [READ]"
  using assms by (simp add: stream_message_def take_tag_def recv_defs receiving_def)

theorem failed_append_is_acknowledged_witness:
  "(let R = recv_init ()\<lparr>pending := [READ]\<rparr> in
    \<exists>R'. stream_message (\<lambda>bs s. Inr (''disk full'', s)) (\<lambda>s. Inr (''success'', s)) (piece [1] True) R = Inr R' \<and>
    sent R' = sent R @ [\<lparr>success = True, errorMessage = ''Success''\<rparr>] \<and> closed R' = closed R \<and>
    store R' = () \<and> pending R' = [READ])"
  unfolding Let_def
  by (rule failed_append_is_acknowledged [where err = "''disk full''"])
     (simp_all add: receiving_def recv_init_def piece_def)

text \<open>
  C26. A stream can end with success although pieces of the pack are missing. Every piece that the
  store refuses is acknowledged like the others and left out; as long as the last piece and the
  commit go well, the client sees one acknowledgement per piece and a final success with status OK,
  exactly as if nothing had been lost.
\<close>

theorem refused_pieces_are_forgotten:
  assumes "pending R = [CONNECT]" and "isRunning R" and "msg R = empty_msg"
    and "\<forall>m \<in> set ms. pack_data m \<noteq> [] \<and> \<not> pack_done m" and "pack_data m \<noteq> []" and "pack_done m"
    and "append_surviving pack_append (map pack_data ms) (store R) = Some s1"
    and "pack_append (pack_data m) s1 = Inr (''success'', s)" and "pack_commit s = Inr (''success'', s')"
  shows "\<exists>R'. stream pack_append pack_commit (ms @ [m]) R = Inr R' \<and> store R' = s' \<and>
     sent R' = sent R @ replicate (Suc (length ms)) \<lparr>success = True, errorMessage = ''Success''\<rparr> \<and>
     closed R' = closed R @ [(\<lparr>success = True, errorMessage = ''success''\<rparr>, Status_OK)]"
  using stream_ends [where pack_append = pack_append and pack_commit = pack_commit, OF assms] by (auto simp: ack_def simp del: replicate_Suc)

text \<open>A store that refuses a piece that begins with the byte 2.\<close>

definition picky_append :: "byte list \<Rightarrow> byte list list \<Rightarrow> (string \<times> byte list list) result" where
  "picky_append bs l = Inr (if hd bs = 2 then (''disk full'', l) else (''success'', l @ [bs]))"

theorem refused_pieces_are_forgotten_witness:
  "(let R = Recv_HandlerThread_begin (recv_init []); ms = [piece [1] False, piece [2] False] in
    \<exists>R'. stream picky_append (\<lambda>l. Inr (''success'', l)) (ms @ [piece [3] True]) R = Inr R' \<and> store R' = [[1], [3]] \<and>
     sent R' = sent R @ replicate (Suc (length ms)) \<lparr>success = True, errorMessage = ''Success''\<rparr> \<and>
     closed R' = closed R @ [(\<lparr>success = True, errorMessage = ''success''\<rparr>, Status_OK)])"
  unfolding Let_def
  by (rule refused_pieces_are_forgotten [where ?s1.0 = "[[1]]" and s = "[[1], [3]]"])
     (simp_all add: Recv_HandlerThread_begin_def Recv_Request_new_def recv_init_def piece_def picky_append_def)

text \<open>
  C27. A stream that is marked done before any data came never ends, and the handler never
  accepts another stream: after the done mark was taken, no sequence of completions closes
  the stream or creates a new request.
\<close>

theorem done_without_data_blocks:
  assumes "pending R = [READ, DONE]" and "\<not> repoOpen R"
    and "Recv_HandlerThread_turn pack_append pack_commit DONE True (take_tag DONE R) = Inr R1"
    and "recv_steps pack_append pack_commit R1 R2"
  shows "created R2 = created R \<and> closed R2 = closed R \<and> store R2 = store R \<and> CONNECT \<notin> set (pending R2)"
proof -
  from assms(1-3) have R1: "R1 = R\<lparr>currentStatus := DONE, isRunning := False, pending := [READ]\<rparr>"
    by (auto simp: recv_defs take_tag_def)
  then have "stuck R1" by (simp add: stuck_def)
  from blocked_steps [OF assms(4) this] R1 show ?thesis by (simp add: stuck_def)
qed

definition done_first :: "unit recv" where
  "done_first = (recv_init ())\<lparr>pending := [READ, DONE], msg := piece [] True\<rparr>"

theorem done_without_data_blocks_witness:
  "(let R1 = done_first\<lparr>currentStatus := DONE, isRunning := False, pending := [READ]\<rparr> in
    created R1 = created done_first \<and> closed R1 = closed done_first \<and> store R1 = store done_first \<and>
    CONNECT \<notin> set (pending R1))"
  unfolding Let_def
  by (rule done_without_data_blocks [where pack_append = "\<lambda>bs s. Inr (''success'', s)"
        and pack_commit = "\<lambda>s. Inr (''success'', s)"])
     (auto simp: done_first_def recv_init_def recv_defs take_tag_def)

text \<open>
  C28. A client that goes away in the middle of a stream disables the service: the outstanding
  read comes back without \<open>ok\<close>, which the handler ignores, and no tag is left that could ever
  come back, so the stream is not closed and no new one is accepted.
\<close>

theorem lost_client_disables_streams:
  assumes "receiving R"
    and "Recv_HandlerThread_turn pack_append pack_commit READ False (take_tag READ R) = Inr R1"
    and "recv_steps pack_append pack_commit R1 R2"
  shows "R2 = R1 \<and> pending R2 = [] \<and> created R2 = created R \<and> closed R2 = closed R"
proof -
  from assms(1,2) have R1: "R1 = R\<lparr>pending := []\<rparr>"
    by (simp add: recv_defs take_tag_def receiving_def)
  from silent_steps [OF assms(3)] R1 show ?thesis by simp
qed

theorem lost_client_disables_streams_witness:
  "(let R = recv_init ()\<lparr>pending := [READ]\<rparr>; R1 = R\<lparr>pending := []\<rparr> in
    R1 = R1 \<and> pending R1 = [] \<and> created R1 = created R \<and> closed R1 = closed R)"
  unfolding Let_def
  by (rule lost_client_disables_streams [where pack_append = "\<lambda>bs s. Inr (''success'', s)"
        and pack_commit = "\<lambda>s. Inr (''success'', s)"])
     (auto simp: receiving_def recv_init_def recv_defs take_tag_def)

end
