(* ===== verification/Git_Service.thy ===== *)
theory Git_Service
  imports Recv_Pack_Stream
begin

text \<open>
  \<^verbatim>\<open>services/git/GitServiceImpl\<close>: the synchronous implementation of the git service. Each call runs
  to its end on a thread of gRPC and answers with its return value and the response message it
  fills in. The class is compiled into the server; the asynchronous handlers have taken its place
  in \<^verbatim>\<open>common/GRPC.cpp\<close>.

  Two more functions of libgit2 are parameters: creating a repository, and the references that
  \<^verbatim>\<open>git_reference_foreach\<close> passes to its callback, in order.
\<close>

record 'w libgit2_service =
  git_repository_init_ext :: "string \<Rightarrow> nat \<Rightarrow> ptr \<Rightarrow> 'w \<Rightarrow> int \<times> ptr \<times> 'w"
  git_reference_foreach :: "nat \<Rightarrow> 'w \<Rightarrow> nat list"

definition GIT_REPOSITORY_INIT_BARE :: nat where
  "GIT_REPOSITORY_INIT_BARE = 1"

definition GIT_REPOSITORY_INIT_NO_REINIT :: nat where
  "GIT_REPOSITORY_INIT_NO_REINIT = 2"

definition GIT_REPOSITORY_INIT_MKPATH :: nat where
  "GIT_REPOSITORY_INIT_MKPATH = 16"

section \<open>Answers\<close>

definition Service_Response ::
    "GenericResponse \<Rightarrow> cstring \<Rightarrow> bool \<Rightarrow> StatusCode \<Rightarrow> Status \<times> GenericResponse" where
  "Service_Response r m ok st =
     (if ok then (Status_OK, r\<lparr>errorMessage := ''Success'', success := True\<rparr>)
      else (\<lparr>code = st, error_message = chars m\<rparr>, r\<lparr>errorMessage := chars m, success := False\<rparr>))"

definition ConvertRepoNameToPath :: "string \<Rightarrow> string" where
  "ConvertRepoNameToPath name = DEFAULT_REPO_PATH @ name @ ''/''"

section \<open>Listing references\<close>

text \<open>
  The callback releases the reference it is given, fills in only the name, and never stops the
  iteration. The result of opening the repository is not looked at.
\<close>

record GitReference =
  referencename :: string
  referencehash :: string

definition Service_GetRepoReferences ::
    "'w libgit2 \<Rightarrow> nat \<Rightarrow> GitReference list \<times> 'w \<Rightarrow> GitReference list \<times> 'w" where
  "Service_GetRepoReferences L ref' = (\<lambda>(out, w).
     (out @ [\<lparr>referencename = git_reference_name L ref' w, referencehash = []\<rparr>],
      git_reference_free L (Ptr ref') w))"

definition ListRefs ::
    "'w libgit2 \<Rightarrow> 'w libgit2_service \<Rightarrow> string \<Rightarrow> 'w \<Rightarrow> (Status \<times> GitReference list \<times> 'w) result" where
  "ListRefs L E reponame' w =
     (let (errCode, g, w) = git_repository_open_bare L (c_str (REPO_PATH reponame')) Uninit w in
      bindr (deref g) (\<lambda>a.
      let (out, w) = fold (Service_GetRepoReferences L) (git_reference_foreach E a w) ([], w) in
      Inr (Status_OK, out, git_repository_free L g w)))"

definition UploadPack :: "'q \<Rightarrow> Status" where
  "UploadPack request = Status_OK"

definition UploadPackStream :: "'q \<Rightarrow> Status" where
  "UploadPackStream request = \<lparr>code = UNIMPLEMENTED, error_message = ''Work in progress under construction''\<rparr>"

section \<open>Creating repositories and references\<close>

definition InitRepository ::
    "'w libgit2 \<Rightarrow> 'w libgit2_service \<Rightarrow> string \<Rightarrow> 'w \<Rightarrow> (Status \<times> GenericResponse \<times> 'w) result" where
  "InitRepository L E reponame' w =
     (let flags = GIT_REPOSITORY_INIT_MKPATH + GIT_REPOSITORY_INIT_BARE + GIT_REPOSITORY_INIT_NO_REINIT;
          (errCode, g, w) = git_repository_init_ext E (c_str (REPO_PATH reponame')) flags Uninit w in
      if errCode \<noteq> 0 then
        let (st, r) = Service_Response GenericResponse_default (Literal ''failed to initialize repo'') False INTERNAL
        in Inr (st, r, w)
      else
        bindr (assigned g) (\<lambda>g.
        Inr (Status_OK, GenericResponse_default, git_repository_free L g w)))"

text \<open>The repository is always \<^verbatim>\<open>new-server\<close>. The handles are released on success only.\<close>

definition Service_WriteReference ::
    "'w libgit2 \<Rightarrow> git_oid \<Rightarrow> WriteReferenceRequest \<Rightarrow> 'w \<Rightarrow> (Status \<times> GenericResponse \<times> 'w) result" where
  "Service_WriteReference L junk request w =
     (let newRepoPath = DEFAULT_REPO_PATH @ ''new-server'';
          fail = (\<lambda>e m w. let (st, r) = Service_Response GenericResponse_default (CheckForError L e m w) False INTERNAL
                         in Inr (st, r, w));
          (errCode, g, w) = git_repository_open_bare L (c_str newRepoPath) Uninit w in
      if errCode \<noteq> 0 then fail errCode ''failed to open repo'' w
      else
        let (errCode, objectID, w) = git_oid_fromstr L (c_str (refrev request)) junk w in
        if errCode \<noteq> 0 then fail errCode ''failed to convert OID to string'' w
        else
          bindr (assigned g) (\<lambda>g.
          let (errCode, newRef, w) = git_reference_create L g (c_str (refname request)) objectID 0 Uninit w in
          if errCode \<noteq> 0 then fail errCode ''failed to create reference'' w
          else
            let (errCode, w) = git_repository_set_head L g (c_str (refname request)) w in
            if errCode \<noteq> 0 then fail errCode ''failed to set head'' w
            else
              bindr (assigned newRef) (\<lambda>n.
              let w = git_repository_free L g (git_reference_free L n w);
                  (st, r) = Service_Response GenericResponse_default (Literal ''success'') True OK
              in Inr (st, r, w))))"

section \<open>Initialisation, callbacks, interceptors\<close>

text \<open>
  \<^verbatim>\<open>git_libgit2_init\<close> is the parameter \<open>git_init\<close>; the features of the library are only asked for to be logged.
\<close>

definition InitGitService :: "('w \<Rightarrow> 'w) \<Rightarrow> 'w \<Rightarrow> 'w" where
  "InitGitService git_init w = git_init w"

definition Service_TransferProgressCB :: "'p \<Rightarrow> int" where
  "Service_TransferProgressCB stats = 0"

text \<open>The walk itself is commented out; what is left allocates a walker and never releases it.\<close>

definition WalkAndPrintObjectIDs :: "(nat \<Rightarrow> ptr \<Rightarrow> 'w \<Rightarrow> int \<times> ptr \<times> 'w) \<Rightarrow> nat \<Rightarrow> 'w \<Rightarrow> 'w" where
  "WalkAndPrintObjectIDs git_revwalk_new g w =
     (let (errCode, out, w) = git_revwalk_new g Uninit w in w)"

text \<open>An interceptor lets every call proceed; \<open>proceed\<close> is what gRPC does then.\<close>

record 'i GitServiceInterceptor = interceptor_info :: 'i

definition CreateServerInterceptor :: "'i \<Rightarrow> 'i GitServiceInterceptor" where
  "CreateServerInterceptor info = \<lparr>interceptor_info = info\<rparr>"

definition Intercept :: "('m \<Rightarrow> 's \<Rightarrow> 's) \<Rightarrow> 'm \<Rightarrow> 'i GitServiceInterceptor \<Rightarrow> 's \<Rightarrow> 's" where
  "Intercept proceed methods I s = proceed methods s"

section \<open>Receiving a pack\<close>

text \<open>
  The loop over the messages of the stream. \<open>repo'\<close> is the repository object once it is open, and
  \<open>path\<close> the string the name of the first message is appended to. A \<open>None\<close> result says the messages
  were all taken; \<open>Some\<close> is an early return.
\<close>

fun ReceivePackStream_loop ::
    "'w libgit2 \<Rightarrow> build_cfg \<Rightarrow> ReceivePackRequest list \<Rightarrow> GitRepo option \<Rightarrow> string \<Rightarrow> 'w
       \<Rightarrow> ((Status \<times> GenericResponse) option \<times> GitRepo option \<times> 'w) result" where
  "ReceivePackStream_loop L B [] repo' path w = Inr (None, repo', w)"
| "ReceivePackStream_loop L B (m # ms) repo' path w =
     bindr
       (case repo' of
          Some r \<Rightarrow> Inr (None, r, path, w)
        | None \<Rightarrow>
            let path = path @ pack_reponame m in
            bindr (GitRepo_new B path) (\<lambda>r.
            bindr (Open L B r True w) (\<lambda>(res, r, w).
            if \<not> same_address B res ''success''
            then Inr (Some (Service_Response GenericResponse_default res False INTERNAL), r, path, w)
            else Inr (None, r, path, w)))) (\<lambda>(early, r, path, w).
     case early of
       Some e \<Rightarrow> Inr (Some e, Some r, w)
     | None \<Rightarrow>
         bindr (PackAppend L r (pack_data m) w) (\<lambda>(res, w).
         if \<not> same_address B res ''success''
         then bindr (GitRepo_delete L r w) (\<lambda>w.
              Inr (Some (Service_Response GenericResponse_default res False INTERNAL), Some r, w))
         else ReceivePackStream_loop L B ms (Some r) path w))"

definition ReceivePackStream ::
    "'w libgit2 \<Rightarrow> build_cfg \<Rightarrow> ReceivePackRequest list \<Rightarrow> 'w \<Rightarrow> (Status \<times> GenericResponse \<times> 'w) result" where
  "ReceivePackStream L B ms w =
     bindr (ReceivePackStream_loop L B ms None DEFAULT_REPO_PATH w) (\<lambda>(early, repo', w).
     case early of
       Some (st, r) \<Rightarrow> Inr (st, r, w)
     | None \<Rightarrow>
         (case repo' of
            Some g \<Rightarrow>
              bindr (PackCommit L g w) (\<lambda>(res, w).
              bindr (GitRepo_delete L g w) (\<lambda>w.
              let (st, r) =
                (if \<not> same_address B res ''success'' then Service_Response GenericResponse_default res False INTERNAL
                 else Service_Response GenericResponse_default (Literal ''success'') True OK)
              in Inr (st, r, w)))
          | None \<Rightarrow>
              let (st, r) = Service_Response GenericResponse_default
                    (Literal ''the repo was not opened, pak file must have been empty'') False UNKNOWN
              in Inr (st, r, w)))"

section \<open>Properties\<close>

lemma loop_opened:
  assumes "lits_shared B" and "wp r = Ptr p" and "write_all L p (map pack_data ms) w = Some w'"
  shows "ReceivePackStream_loop L B ms (Some r) path w = Inr (None, Some r, w')"
  using assms(3)
proof (induction ms arbitrary: w)
  case (Cons m ms)
  obtain e v where a: "writepack_append L p (pack_data m) w = (e, v)" by fastforce
  with Cons assms show ?case by (simp add: PackAppend_def split: if_splits)
qed simp

lemma loop_first:
  assumes "GitRepo_new B (path @ pack_reponame m) = Inr r" and "Open L B r True w = Inr (res, r', w')"
    and "same_address B res ''success''"
  shows "ReceivePackStream_loop L B (m # ms) None path w = ReceivePackStream_loop L B (m # ms) (Some r') (path @ pack_reponame m) w'"
  using assms by simp

text \<open>
  C29. The synchronous \<open>ReceivePackStream\<close> stores a pack completely: when the repository object
  opens and the library takes every piece and the commit, all pieces are written in order to
  the one pack writer, committed once, everything is released, and the client is told of
  success. The repository it opens is, however, not the one the client named: the directory of
  all repositories is put in front of the name twice.
\<close>

theorem ReceivePackStream_stores_pack:
  assumes "lits_shared B" and "GitRepo_new B (DEFAULT_REPO_PATH @ pack_reponame m) = Inr r"
    and "Open L B r True w = Inr (res, r', w1)" and "same_address B res ''success''"
    and "repo r' = Ptr g" and "odb r' = Ptr d" and "wp r' = Ptr p"
    and "write_all L p (map pack_data (m # ms)) w1 = Some w2" and "writepack_commit L p w2 = (0, w3)"
  shows "ReceivePackStream L B (m # ms) w =
      Inr (Status_OK, \<lparr>success = True, errorMessage = ''Success''\<rparr>,
           git_repository_free L (Ptr g) (git_odb_free L (Ptr d) (writepack_free L p w3))) \<and>
    repoPath r = DEFAULT_REPO_PATH @ DEFAULT_REPO_PATH @ pack_reponame m"
proof
  have "ReceivePackStream_loop L B (m # ms) None DEFAULT_REPO_PATH w = Inr (None, Some r', w2)"
    using loop_first [OF assms(2-4)] loop_opened [OF assms(1,7,8)] by simp
  then show "ReceivePackStream L B (m # ms) w =
      Inr (Status_OK, \<lparr>success = True, errorMessage = ''Success''\<rparr>,
           git_repository_free L (Ptr g) (git_odb_free L (Ptr d) (writepack_free L p w3)))"
    using assms by (simp add: ReceivePackStream_def PackCommit_def GitRepo_delete_def Service_Response_def
        GenericResponse_default_def)
  show "repoPath r = DEFAULT_REPO_PATH @ DEFAULT_REPO_PATH @ pack_reponame m"
    using assms(2) by (auto simp: GitRepo_new_def SetName_def Let_def split: if_splits)
qed

definition nested_repo :: mem where
  "nested_repo = mem_empty\<lparr>disk := [DEFAULT_REPO_PATH @ DEFAULT_REPO_PATH @ ''r'']\<rparr>"

definition nested_object :: GitRepo where
  "nested_object = \<lparr>odb = Uninit, repoPath = DEFAULT_REPO_PATH @ DEFAULT_REPO_PATH @ ''r'', repo = Uninit, wp = Uninit,
     valueName = DEFAULT_REPO_PATH @ ''r''\<rparr>"

theorem ReceivePackStream_stores_pack_witness:
  "(let w1 = snd (snd (projr (Open mem_git debug_build nested_object True nested_repo)));
        w2 = the (write_all mem_git 3 [[1], [2]] w1); w3 = snd (writepack_commit mem_git 3 w2) in
    ReceivePackStream mem_git debug_build (piece [1] False # [piece [2] True]) nested_repo =
      Inr (Status_OK, \<lparr>success = True, errorMessage = ''Success''\<rparr>,
           git_repository_free mem_git (Ptr 1) (git_odb_free mem_git (Ptr 2) (writepack_free mem_git 3 w3))) \<and>
    repoPath nested_object = DEFAULT_REPO_PATH @ DEFAULT_REPO_PATH @ pack_reponame (piece [1] False))"
  unfolding Let_def
proof (rule ReceivePackStream_stores_pack [where res = "Literal ''success''"
      and r' = "nested_object\<lparr>repo := Ptr 1, odb := Ptr 2, wp := Ptr 3\<rparr>"])
  show "GitRepo_new debug_build (DEFAULT_REPO_PATH @ pack_reponame (piece [1] False)) = Inr nested_object" by code_simp
  show "Open mem_git debug_build nested_object True nested_repo =
    Inr (Literal ''success'', nested_object\<lparr>repo := Ptr 1, odb := Ptr 2, wp := Ptr 3\<rparr>,
         snd (snd (projr (Open mem_git debug_build nested_object True nested_repo))))" by code_simp
  show "write_all mem_git 3 (map pack_data (piece [1] False # [piece [2] True]))
      (snd (snd (projr (Open mem_git debug_build nested_object True nested_repo)))) =
    Some (the (write_all mem_git 3 [[1], [2]] (snd (snd (projr (Open mem_git debug_build nested_object True nested_repo))))))"
    by code_simp
qed (simp_all add: debug_build_def mem_git_defs)

lemma not_shared: "\<not> lits_shared B \<Longrightarrow> \<not> same_address B res l"
  by (cases res) auto

text \<open>
  Whether the synchronous service works at all is left to the compiler: it compares the
  address of a result with the address of a literal. Where equal literals have different
  addresses, no stream is ever reported as stored, whatever the library does.
\<close>

theorem distinct_literals_always_fail:
  assumes "\<not> lits_shared B" and "ReceivePackStream L B ms w = Inr (st, r, w')"
  shows "\<not> success r \<and> code st \<noteq> OK"
proof (cases ms)
  case Nil
  with assms show ?thesis by (auto simp: ReceivePackStream_def Service_Response_def Let_def)
next
  case (Cons m ms')
  with assms show ?thesis
    by (auto simp: ReceivePackStream_def bindr_eq_Inr_iff Let_def not_shared Service_Response_def)
qed

theorem distinct_literals_always_fail_witness:
  "(let B = debug_build\<lparr>lits_shared := False\<rparr>;
        (st, r, w') = projr (ReceivePackStream mem_git B [piece [1] True] nested_repo) in
    \<not> success r \<and> code st \<noteq> OK)"
  unfolding Let_def split_def
  by (rule distinct_literals_always_fail [where B = "debug_build\<lparr>lits_shared := False\<rparr>" and L = mem_git
        and ms = "[piece [1] True]" and w = nested_repo and w' = "snd (snd (projr (ReceivePackStream mem_git (debug_build\<lparr>lits_shared := False\<rparr>) [piece [1] True] nested_repo)))"])
     code_simp+

end
