(* ===== verification/Push_Session.thy ===== *)
theory Push_Session
  imports Recv_Pack_Stream
begin

text \<open>
  A client's push from end to end. A handler reaches the repository manager only by asking the
  proxy and waiting for the future, so what it works with is not the manager but the system of
  dispatcher, message pump and manager. This theory puts the handlers on top of that system: the
  calls a handler makes (\<^verbatim>\<open>RepoProxy::Get()->...\<close>, \<^verbatim>\<open>wait\<close>, \<^verbatim>\<open>get\<close>) with the storage their arguments
  point to, and the push of a client that opens a repository, sends a pack and writes a reference.

  The locale \<open>request_refinement\<close> says when an operation on a detailed state answers as an operation
  on an abstract state does; \<open>pack_store_refinement\<close> says it for the two operations of the
  receive-pack stream, and shows that then the whole handler behaves over the one as over the
  other. Both are interpreted on the proxy and the manager.
\<close>

section \<open>Operations that answer as others do\<close>

locale request_refinement =
  fixes sound :: "'c \<Rightarrow> bool" and abs :: "'c \<Rightarrow> 'a"
    and op_c :: "'c \<Rightarrow> ('r \<times> 'c) result" and op_a :: "'a \<Rightarrow> ('r \<times> 'a) result"
  assumes answers_alike: "sound c \<Longrightarrow> map_sum id (map_prod id abs) (op_c c) = op_a (abs c)"
    and stays_sound: "sound c \<Longrightarrow> op_c c = Inr (r, c') \<Longrightarrow> sound c'"
begin

lemma answer:
  assumes "sound c" and "op_a (abs c) = Inr (r, a)"
  obtains c' where "op_c c = Inr (r, c')" and "sound c'" and "abs c' = a"
  using answers_alike [OF assms(1)] assms stays_sound by (cases "op_c c") fastforce+

lemma fault: "sound c \<Longrightarrow> op_c c = Inl e \<longleftrightarrow> op_a (abs c) = Inl e"
  using answers_alike [of c] by (cases "op_c c") auto

lemma project: "sound c \<Longrightarrow> op_c c = Inr (r, c') \<Longrightarrow> op_a (abs c) = Inr (r, abs c')"
  using answers_alike [of c] by simp

end

section \<open>The stream handler over two stores\<close>

definition map_store :: "('c \<Rightarrow> 'a) \<Rightarrow> 'c recv \<Rightarrow> 'a recv" where
  "map_store f R =
     \<lparr>currentStatus = currentStatus R, repoOpen = repoOpen R, isRunning = isRunning R, msg = msg R, resp = resp R,
      pending = pending R, sent = sent R, closed = closed R, created = created R, store = f (store R)\<rparr>"

lemma map_store_simps [simp]:
  "currentStatus (map_store f R) = currentStatus R" "repoOpen (map_store f R) = repoOpen R"
  "isRunning (map_store f R) = isRunning R" "msg (map_store f R) = msg R" "resp (map_store f R) = resp R"
  "pending (map_store f R) = pending R" "sent (map_store f R) = sent R" "closed (map_store f R) = closed R"
  "created (map_store f R) = created R" "store (map_store f R) = f (store R)"
  by (simp_all add: map_store_def)

lemma map_store_update [simp]:
  "map_store f (R\<lparr>currentStatus := t\<rparr>) = (map_store f R)\<lparr>currentStatus := t\<rparr>"
  "map_store f (R\<lparr>repoOpen := b\<rparr>) = (map_store f R)\<lparr>repoOpen := b\<rparr>"
  "map_store f (R\<lparr>isRunning := b\<rparr>) = (map_store f R)\<lparr>isRunning := b\<rparr>"
  "map_store f (R\<lparr>msg := m\<rparr>) = (map_store f R)\<lparr>msg := m\<rparr>"
  "map_store f (R\<lparr>resp := i\<rparr>) = (map_store f R)\<lparr>resp := i\<rparr>"
  "map_store f (R\<lparr>pending := ts\<rparr>) = (map_store f R)\<lparr>pending := ts\<rparr>"
  "map_store f (R\<lparr>sent := rs\<rparr>) = (map_store f R)\<lparr>sent := rs\<rparr>"
  "map_store f (R\<lparr>closed := cs\<rparr>) = (map_store f R)\<lparr>closed := cs\<rparr>"
  "map_store f (R\<lparr>created := n\<rparr>) = (map_store f R)\<lparr>created := n\<rparr>"
  "map_store f (R\<lparr>store := s\<rparr>) = (map_store f R)\<lparr>store := f s\<rparr>"
  by (simp_all add: map_store_def)

locale pack_store_refinement = request_refinement sound abs commit_c commit_a
  for sound :: "'c \<Rightarrow> bool" and abs :: "'c \<Rightarrow> 'a"
    and commit_c :: "'c \<Rightarrow> (string \<times> 'c) result" and commit_a :: "'a \<Rightarrow> (string \<times> 'a) result" +
  fixes append_c :: "byte list \<Rightarrow> 'c \<Rightarrow> (string \<times> 'c) result" and append_a :: "byte list \<Rightarrow> 'a \<Rightarrow> (string \<times> 'a) result"
  assumes append_refines: "request_refinement sound abs (append_c bs) (append_a bs)"
begin

lemma ReadMessage_alike:
  assumes "sound (store R)"
  shows "map_sum id (map_store abs) (ReadMessage append_c R) = ReadMessage append_a (map_store abs R)"
  using request_refinement.answers_alike [OF append_refines assms, of "pack_data (msg R)", symmetric]
  by (cases "append_c (pack_data (msg R)) (store R)") (auto simp: ReadMessage_def Let_def)

lemma FinishRequest_alike:
  assumes "sound (store R)"
  shows "map_sum id (map_store abs) (FinishRequest commit_c R) = FinishRequest commit_a (map_store abs R)"
  using answers_alike [OF assms, symmetric]
  by (cases "commit_c (store R)") (auto simp: FinishRequest_def Let_def)

lemma turn_alike:
  assumes "sound (store R)"
  shows "map_sum id (map_store abs) (Recv_HandlerThread_turn append_c commit_c t ok R) =
         Recv_HandlerThread_turn append_a commit_a t ok (map_store abs R)"
proof -
  have "map_sum id (map_store abs) (Recv_ProcessRequest append_c commit_c t R) =
        Recv_ProcessRequest append_a commit_a t (map_store abs R)"
    using assms by (cases t) (simp_all add: Recv_ProcessRequest_def Let_def ReadMessage_alike FinishRequest_alike WriteResponse_def)
  from this [symmetric] show ?thesis
    by (cases "Recv_ProcessRequest append_c commit_c t R")
       (auto simp: Recv_HandlerThread_turn_def Recv_Request_new_def)
qed

lemma turn_sound:
  assumes "sound (store R)" and "Recv_HandlerThread_turn append_c commit_c t ok R = Inr R'"
  shows "sound (store R')"
proof -
  note kept = request_refinement.stays_sound [OF append_refines assms(1)]
    stays_sound [OF assms(1)]
  show ?thesis
    using assms
    by (cases t) (auto simp: recv_defs bindr_eq_Inr_iff split: if_splits option.splits dest: kept)
qed

lemma step_refines:
  assumes "recv_step append_c commit_c R R'" and "sound (store R)"
  shows "recv_step append_a commit_a (map_store abs R) (map_store abs R') \<and> sound (store R')"
  using assms(1)
proof (cases rule: recv_stepE)
  case (tag_back t ok m)
  let ?R = "R\<lparr>pending := remove1 t (pending R), msg := m\<rparr>"
  have "Recv_HandlerThread_turn append_a commit_a t ok (map_store abs ?R) = Inr (map_store abs R')"
    using turn_alike [of ?R, symmetric] assms(2) tag_back(3) by simp
  with tag_back(1,2) have "recv_step append_a commit_a (map_store abs R) (map_store abs R')"
    by (intro recv_step.tag_back [of t _ ok m]) simp_all
  moreover have "sound (store R')" using turn_sound [OF _ tag_back(3)] assms(2) by simp
  ultimately show ?thesis by simp
qed

lemma steps_refine:
  assumes "recv_steps append_c commit_c R R'" and "sound (store R)"
  shows "recv_steps append_a commit_a (map_store abs R) (map_store abs R') \<and> sound (store R')"
  using assms(1)
  by induction (use assms(2) in \<open>auto dest: step_refines intro: rtranclp.rtrancl_into_rtrancl\<close>)

lemma step_complete:
  assumes "recv_step append_a commit_a (map_store abs R) Q" and "sound (store R)"
  shows "\<exists>R'. recv_step append_c commit_c R R' \<and> map_store abs R' = Q \<and> sound (store R')"
  using assms(1)
proof (cases rule: recv_stepE)
  case (tag_back t ok m)
  let ?R = "R\<lparr>pending := remove1 t (pending R), msg := m\<rparr>"
  from tag_back(3) assms(2)
  have "map_sum id (map_store abs) (Recv_HandlerThread_turn append_c commit_c t ok ?R) = Inr Q" by (simp add: turn_alike)
  then obtain R' where R': "Recv_HandlerThread_turn append_c commit_c t ok ?R = Inr R'" "map_store abs R' = Q"
    by (cases "Recv_HandlerThread_turn append_c commit_c t ok ?R") auto
  with tag_back(1,2) have "recv_step append_c commit_c R R'"
    by (intro recv_step.tag_back [of t _ ok m]) simp_all
  with R'(2) step_refines [OF this assms(2)] show ?thesis by blast
qed

lemma steps_complete:
  assumes "recv_steps append_a commit_a (map_store abs R) Q" and "sound (store R)"
  shows "\<exists>R'. recv_steps append_c commit_c R R' \<and> map_store abs R' = Q \<and> sound (store R')"
  using assms(1)
proof induction
  case (step Q Q')
  then obtain R1 where "recv_steps append_c commit_c R R1" "map_store abs R1 = Q" "sound (store R1)" by blast
  with step_complete [of R1 Q'] step.hyps(2) show ?case by (blast intro: rtranclp.rtrancl_into_rtrancl)
qed (use assms(2) in blast)

lemma append_all_refines:
  assumes "append_all append_a ds (abs c) = Some a" and "sound c"
  shows "\<exists>c'. append_all append_c ds c = Some c' \<and> sound c' \<and> abs c' = a"
  using assms
proof (induction ds arbitrary: c)
  case (Cons d ds)
  from Cons.prems(1) obtain a1 where 1: "append_a d (abs c) = Inr (''success'', a1)" "append_all append_a ds a1 = Some a"
    by (auto split: sum.splits if_splits)
  from request_refinement.answer [OF append_refines Cons.prems(2) 1(1)] obtain c1 where
    c1: "append_c d c = Inr (''success'', c1)" "sound c1" "abs c1 = a1" by blast
  with Cons.IH [of c1] 1(2) show ?case by simp
qed simp

end
section \<open>Asking the proxy and waiting\<close>

text \<open>
  The main loop runs, nothing is queued, and no promise has a value before its argument object
  exists: the state in which a handler's request is the next thing the loop does.
\<close>

definition idle :: "nat \<Rightarrow> 'w system \<Rightarrow> bool" where
  "idle p S \<longleftrightarrow> main_ready p S \<and> taskQueue (fst (pumps S p)) = [] \<and> promises_fresh (svc S)"

definition manager_of :: "'w system \<Rightarrow> 'w RepositoryManager" where
  "manager_of S = manager (svc S)"

lemma served_state_idle:
  assumes "idle p S" and "promises_fresh s"
  shows "idle p (served_state cap p S s)"
  using assms by (simp add: idle_def served_state_def main_ready_def is_heap_def)

lemma ask_task_idle:
  assumes "idle p S"
    and "request S = (let (a, S) = new_args d S in bindr (POST_TASK cap (t a) S) (\<lambda>S. Inr (a, S)))"
    and "\<not> IsComplete (t (length (arg_objects (svc S))))" and "Invoke (t (length (arg_objects (svc S)))) = Inr (c, t')"
    and "ask L B oid p request S = Inr (v, S')"
  shows "idle p S'"
proof -
  from assms obtain s where s: "run_manager L B oid c (with_args d (svc S)) = Inr s" "S' = served_state cap p S s"
    by (auto simp: ask_task [where request = request and t = t, OF _ _ assms(2) refl assms(3,4)] idle_def bindr_eq_Inr_iff)
  have "promises_fresh (with_args d (svc S))"
    using assms(1) by (auto simp: idle_def promises_fresh_def with_args_def)
  with s served_state_idle [OF assms(1)] show ?thesis by (auto dest: run_manager_fresh)
qed

lemma ask_idle:
  assumes "idle p S"
  shows "ask L B oid p (Proxy_OpenRepo cap junk n) S = Inr (v, S') \<Longrightarrow> idle p S'"
    and "ask L B oid p (Proxy_PackAppend cap junk d k) S = Inr (v, S') \<Longrightarrow> idle p S'"
    and "ask L B oid p (Proxy_PackCommit cap junk) S = Inr (v, S') \<Longrightarrow> idle p S'"
    and "ask L B oid p (Proxy_CreateReference cap junk rname rrev) S = Inr (v, S') \<Longrightarrow> idle p S'"
  by (erule ask_task_idle [OF assms, rotated 3], rule Proxy_OpenRepo_def Proxy_PackAppend_def Proxy_PackCommit_def
        Proxy_CreateReference_def, simp, simp)+

text \<open>
  What the handlers call. The name is in the storage of the proxy's parameter at \<open>n\<close>, which is
  released when \<^verbatim>\<open>RepoProxy::OpenRepo\<close> returns, before the handler waits for the future. So opening
  works only on the schedule that is written out here, on which the loop serves the request while
  the proxy has not returned; \<open>Repo_Proxy\<close> shows what happens on the other. The data stays in the
  message, at \<open>d\<close>, and its length is passed as a \<^verbatim>\<open>size_t\<close>. \<open>junk k\<close> is what the memory of the task of
  the \<open>k\<close>-th request held.
\<close>

definition await_text :: "(answer option \<times> 'w system) result \<Rightarrow> (string \<times> 'w system) result" where
  "await_text r = bindr r (\<lambda>(v, S). case v of Some (Text t) \<Rightarrow> Inr (t, S) | _ \<Rightarrow> Inl NoReturn)"

definition hold_chars :: "nat \<Rightarrow> string \<Rightarrow> 'w system \<Rightarrow> 'w system" where
  "hold_chars n name S = S\<lparr>svc := (svc S)\<lparr>char_buffers := (char_buffers (svc S))(n \<mapsto> name)\<rparr>\<rparr>"

definition hold_bytes :: "nat \<Rightarrow> byte list \<Rightarrow> 'w system \<Rightarrow> 'w system" where
  "hold_bytes d bs S = S\<lparr>svc := (svc S)\<lparr>byte_buffers := (byte_buffers (svc S))(d \<mapsto> bs)\<rparr>\<rparr>"

definition request_number :: "'w system \<Rightarrow> nat" where
  "request_number S = length (arg_objects (svc S))"

definition open_via_proxy ::
    "'w libgit2 \<Rightarrow> build_cfg \<Rightarrow> git_oid \<Rightarrow> nat \<Rightarrow> nat \<Rightarrow> (nat \<Rightarrow> int) \<Rightarrow> nat \<Rightarrow> string \<Rightarrow> 'w system
       \<Rightarrow> (string \<times> 'w system) result" where
  "open_via_proxy L B oid p cap junk n name S =
     bindr (Proxy_OpenRepo cap (junk (request_number S)) n (hold_chars n name S)) (\<lambda>(a, S).
     bindr (pump_turn L B oid p S) (\<lambda>S.
     let S = release n S in
     await_text (Inr (promises (svc S) a, S))))"

definition append_via_proxy ::
    "'w libgit2 \<Rightarrow> build_cfg \<Rightarrow> git_oid \<Rightarrow> nat \<Rightarrow> nat \<Rightarrow> (nat \<Rightarrow> int) \<Rightarrow> nat \<Rightarrow> byte list \<Rightarrow> 'w system
       \<Rightarrow> (string \<times> 'w system) result" where
  "append_via_proxy L B oid p cap junk d bs S =
     await_text (ask L B oid p (Proxy_PackAppend cap (junk (request_number S)) d (of_nat (length bs))) (hold_bytes d bs S))"

definition commit_via_proxy ::
    "'w libgit2 \<Rightarrow> build_cfg \<Rightarrow> git_oid \<Rightarrow> nat \<Rightarrow> nat \<Rightarrow> (nat \<Rightarrow> int) \<Rightarrow> 'w system \<Rightarrow> (string \<times> 'w system) result" where
  "commit_via_proxy L B oid p cap junk S = await_text (ask L B oid p (Proxy_PackCommit cap (junk (request_number S))) S)"

definition create_via_proxy ::
    "'w libgit2 \<Rightarrow> build_cfg \<Rightarrow> git_oid \<Rightarrow> nat \<Rightarrow> nat \<Rightarrow> (nat \<Rightarrow> int) \<Rightarrow> string \<Rightarrow> string \<Rightarrow> 'w system
       \<Rightarrow> (string \<times> 'w system) result" where
  "create_via_proxy L B oid p cap junk n v S =
     await_text (ask L B oid p (Proxy_CreateReference cap (junk (request_number S)) n v) S)"

text \<open>The data of a message as the manager sees it: cut to a length that fits \<^verbatim>\<open>size_t\<close>.\<close>

definition sized :: "byte list \<Rightarrow> byte list" where
  "sized bs = take (unat (of_nat (length bs) :: size_t)) bs"

lemma sized_id [simp]: "length bs < 2 ^ 64 \<Longrightarrow> sized bs = bs"
  by (simp add: sized_def unat_of_nat)

lemma idle_hold [simp]:
  "idle p (hold_chars n name S) = idle p S" "idle p (hold_bytes d bs S) = idle p S" "idle p (release n S) = idle p S"
  "manager_of (hold_chars n name S) = manager_of S" "manager_of (hold_bytes d bs S) = manager_of S"
  "manager_of (release n S) = manager_of S"
  by (simp_all add: idle_def hold_chars_def hold_bytes_def release_def manager_of_def promises_fresh_def)

lemma await_text_alike:
  assumes "outcome x = text_answer r"
  shows "map_sum id (map_prod id manager_of) (await_text x) = r"
  using assms by (cases x; cases r) (auto simp: outcome_def text_answer_def await_text_def manager_of_def)

lemma await_text_Inr: "await_text x = Inr (r, S) \<Longrightarrow> x = Inr (Some (Text r), S)"
  by (cases x) (auto simp: await_text_def split: option.splits answer.splits)

lemma manager_answers:
  assumes "idle p S"
  shows "outcome (ask L B oid p (Proxy_OpenRepo cap junk n) (hold_chars n name S)) =
           text_answer (OpenRepo L B (c_str name) (manager_of S))"
    and "outcome (ask L B oid p (Proxy_PackAppend cap junk d (of_nat (length bs))) (hold_bytes d bs S)) =
           text_answer (AppendDataToPack L (sized bs) (manager_of S))"
    and "outcome (ask L B oid p (Proxy_PackCommit cap junk) S) = text_answer (CommitPackChanges L (manager_of S))"
    and "outcome (ask L B oid p (Proxy_CreateReference cap junk rname rrev) S) =
           text_answer (NewReference L oid rname rrev (manager_of S))"
proof -
  have ready: "main_ready p S" "taskQueue (fst (pumps S p)) = []" "promises_fresh (svc S)"
    using assms by (simp_all add: idle_def)
  show "outcome (ask L B oid p (Proxy_PackCommit cap junk) S) = text_answer (CommitPackChanges L (manager_of S))"
    and "outcome (ask L B oid p (Proxy_CreateReference cap junk rname rrev) S) =
           text_answer (NewReference L oid rname rrev (manager_of S))"
    unfolding manager_of_def by (rule ask_proxy(3,4) [OF ready])+
  have "idle p (hold_chars n name S)" "idle p (hold_bytes d bs S)" using assms by simp_all
  then show "outcome (ask L B oid p (Proxy_OpenRepo cap junk n) (hold_chars n name S)) =
           text_answer (OpenRepo L B (c_str name) (manager_of S))"
    and "outcome (ask L B oid p (Proxy_PackAppend cap junk d (of_nat (length bs))) (hold_bytes d bs S)) =
           text_answer (AppendDataToPack L (sized bs) (manager_of S))"
    unfolding idle_def
    by (simp_all add: ask_proxy(1) [where name = name] ask_proxy(2) [where bs = bs] hold_chars_def hold_bytes_def
          manager_of_def sized_def unat_of_nat)
qed

lemma open_via_proxy_ask:
  "open_via_proxy L B oid p cap junk n name S =
     bindr (await_text (ask L B oid p (Proxy_OpenRepo cap (junk (request_number S)) n) (hold_chars n name S))) (\<lambda>(r, S).
     Inr (r, release n S))"
  by (auto simp: open_via_proxy_def ask_def await_text_def release_def bindr_def Let_def
      split: sum.split option.split answer.split)

lemma open_via_proxy_alike:
  assumes "idle p S"
  shows "map_sum id (map_prod id manager_of) (open_via_proxy L B oid p cap junk n name S) =
    OpenRepo L B (c_str name) (manager_of S)"
  using await_text_alike [OF manager_answers(1) [OF assms], of L B oid cap "junk (request_number S)" n name]
  by (cases "await_text (ask L B oid p (Proxy_OpenRepo cap (junk (request_number S)) n) (hold_chars n name S))")
     (auto simp: open_via_proxy_ask)

interpretation open_request: request_refinement "idle p" manager_of "open_via_proxy L B oid p cap junk n name"
    "OpenRepo L B (c_str name)" for p L B oid cap junk n name
  by unfold_locales
     (auto simp: open_via_proxy_alike, auto simp: open_via_proxy_ask bindr_eq_Inr_iff
        dest!: await_text_Inr ask_idle(1) [rotated])

interpretation append_request: request_refinement "idle p" manager_of "append_via_proxy L B oid p cap junk d bs"
    "AppendDataToPack L (sized bs)" for p L B oid cap junk d bs
  by unfold_locales
     (auto simp: append_via_proxy_def await_text_alike manager_answers(2) dest!: await_text_Inr ask_idle(2) [rotated])

interpretation commit_request: request_refinement "idle p" manager_of "commit_via_proxy L B oid p cap junk"
    "CommitPackChanges L" for p L B oid cap junk
  by unfold_locales
     (auto simp: commit_via_proxy_def await_text_alike manager_answers(3) dest!: await_text_Inr ask_idle(3) [rotated])

interpretation create_request: request_refinement "idle p" manager_of "create_via_proxy L B oid p cap junk rname rrev"
    "NewReference L oid rname rrev" for p L B oid cap junk rname rrev
  by unfold_locales
     (auto simp: create_via_proxy_def await_text_alike manager_answers(4) dest!: await_text_Inr ask_idle(4) [rotated])

interpretation push_stream: pack_store_refinement "idle p" manager_of "commit_via_proxy L B oid p cap junk"
    "CommitPackChanges L" "append_via_proxy L B oid p cap junk d" "\<lambda>bs. AppendDataToPack L (sized bs)"
    for p L B oid cap junk d
  by unfold_locales (rule append_request.answers_alike append_request.stays_sound; assumption)+

abbreviation direct_steps where
  "direct_steps L \<equiv> recv_steps (\<lambda>bs. AppendDataToPack L (sized bs)) (CommitPackChanges L)"

abbreviation posted_steps where
  "posted_steps L B oid p cap junk d \<equiv>
     recv_steps (append_via_proxy L B oid p cap junk d) (commit_via_proxy L B oid p cap junk)"

section \<open>A push\<close>

text \<open>
  Opening the repository, sending the pack and writing the reference, one after the other, each
  through its handler: the answers to the first call, the acknowledgements and the end of the
  stream, the answers to the last call, and the system afterwards.
\<close>

definition state_change ::
    "'w libgit2 \<Rightarrow> build_cfg \<Rightarrow> git_oid \<Rightarrow> nat \<Rightarrow> nat \<Rightarrow> (nat \<Rightarrow> int) \<Rightarrow> nat \<Rightarrow> RepoStateChangeRequest \<Rightarrow> 'w system
       \<Rightarrow> (RepoStateChangeRequest, 'w system) rpc result" where
  "state_change L B oid p cap junk n q S =
     one_call (RepoStateChange_Read (open_via_proxy L B oid p cap junk n) (Proxy_CloseRepo cap (junk (request_number S)))) q S"

definition push_session ::
    "'w libgit2 \<Rightarrow> build_cfg \<Rightarrow> git_oid \<Rightarrow> nat \<Rightarrow> nat \<Rightarrow> (nat \<Rightarrow> int) \<Rightarrow> nat \<Rightarrow> nat \<Rightarrow> string
       \<Rightarrow> ReceivePackRequest list \<Rightarrow> WriteReferenceRequest \<Rightarrow> 'w system
       \<Rightarrow> (reply list \<times> GenericResponse list \<times> reply list \<times> reply list \<times> 'w system) result" where
  "push_session L B oid p cap junk n d name ms q S =
     bindr (state_change L B oid p cap junk n \<lparr>reponame = name, newrepostate = True\<rparr> S) (\<lambda>C.
     bindr (stream (append_via_proxy L B oid p cap junk d) (commit_via_proxy L B oid p cap junk) ms
             (Recv_HandlerThread_begin (recv_init (backend C)))) (\<lambda>R.
     bindr (one_call (WriteReference_Read (create_via_proxy L B oid p cap junk)) q (store R)) (\<lambda>W.
     Inr (map snd (replies C), sent R, closed R, map snd (replies W), backend W))))"

definition call_ok :: "string \<Rightarrow> reply" where
  "call_ok m = (\<lparr>success = True, errorMessage = m\<rparr>, \<lparr>code = OK, error_message = ''Success''\<rparr>)"

lemma state_change_open:
  assumes "idle p S" and "OpenRepo L B (c_str name) (manager_of S) = Inr (''success'', M)"
  obtains C where "state_change L B oid p cap junk n \<lparr>reponame = name, newrepostate = True\<rparr> S = Inr C"
    and "map snd (replies C) = [call_ok ''success'']" and "idle p (backend C)" and "manager_of (backend C) = M"
proof -
  obtain S' where S': "open_via_proxy L B oid p cap junk n name S = Inr (''success'', S')" "idle p S'" "manager_of S' = M"
    by (rule open_request.answer [OF assms])
  show thesis
    by (rule that)
       (simp add: S' state_change_def one_call_simps RepoStateChange_Read_def RepoStateChange_Write_def
          Finish_def strcmp_eq_def call_ok_def GenericResponse_default_def)+
qed

lemma append_all_sized:
  "\<forall>d \<in> set ds. length d < 2 ^ 64 \<Longrightarrow>
   append_all (\<lambda>bs. AppendDataToPack L (sized bs)) ds M = append_all (AppendDataToPack L) ds M"
  by (induction ds arbitrary: M) (auto split: sum.split)

lemma stream_via_proxy:
  assumes "idle p S"
    and "\<forall>m \<in> set ms. pack_data m \<noteq> [] \<and> \<not> pack_done m" and "pack_data m \<noteq> []" and "pack_done m"
    and "\<forall>d \<in> set (map pack_data (ms @ [m])). length d < 2 ^ 64"
    and "append_all (AppendDataToPack L) (map pack_data (ms @ [m])) (manager_of S) = Some M"
    and "CommitPackChanges L M = Inr (''success'', M')"
  obtains R where "stream (append_via_proxy L B oid p cap junk d) (commit_via_proxy L B oid p cap junk) (ms @ [m])
      (Recv_HandlerThread_begin (recv_init S)) = Inr R"
    and "sent R = replicate (Suc (length ms)) ack"
    and "closed R = [(\<lparr>success = True, errorMessage = ''success''\<rparr>, Status_OK)]"
    and "idle p (store R)" and "manager_of (store R) = M'"
proof -
  let ?R = "Recv_HandlerThread_begin (recv_init S)"
  have R: "pending ?R = [CONNECT]" "isRunning ?R" "msg ?R = empty_msg" "store ?R = S" "sent ?R = []" "closed ?R = []"
    by (simp_all add: Recv_HandlerThread_begin_def Recv_Request_new_def recv_init_def)
  obtain S1 where S1: "append_all (append_via_proxy L B oid p cap junk d) (map pack_data (ms @ [m])) S = Some S1"
    "idle p S1" "manager_of S1 = M"
    using push_stream.append_all_refines [OF trans [OF append_all_sized [OF assms(5)] assms(6)] assms(1)] by blast
  obtain S2 where S2: "commit_via_proxy L B oid p cap junk S1 = Inr (''success'', S2)" "idle p S2" "manager_of S2 = M'"
    using commit_request.answer [of p S1 L "''success''" M'] S1(2,3) assms(7) by blast
  have S: "append_all (append_via_proxy L B oid p cap junk d) (map pack_data (ms @ [m])) (store ?R) = Some S1"
    using S1(1) R(4) by simp
  obtain R' where "stream (append_via_proxy L B oid p cap junk d) (commit_via_proxy L B oid p cap junk) (ms @ [m]) ?R = Inr R'"
    "store R' = S2" "sent R' = sent ?R @ replicate (Suc (length ms)) ack"
    "closed R' = closed ?R @ [(\<lparr>success = True, errorMessage = ''success''\<rparr>, Status_OK)]"
    using stream_completes [where pack_append = "append_via_proxy L B oid p cap junk d" and
        pack_commit = "commit_via_proxy L B oid p cap junk" and R = ?R, OF R(1-3) assms(2-4) S S2(1)] by blast
  with S2(2,3) R(5,6) show thesis by (intro that [of R']) simp_all
qed

section \<open>The manager and the library\<close>

lemma manager_append_all:
  assumes "current_object M = Inr r" and "wp r = Ptr k" and "write_all L k ds (world M) = Some w"
  shows "append_all (AppendDataToPack L) ds M = Some (M\<lparr>world := w\<rparr>)"
  using assms
proof (induction ds arbitrary: M)
  case (Cons d ds)
  obtain e v where a: "writepack_append L k d (world M) = (e, v)" by fastforce
  with Cons.prems have "AppendDataToPack L d M = Inr (''success'', M\<lparr>world := v\<rparr>)" "write_all L k ds v = Some w"
    by (auto simp: AppendDataToPack_def PackAppend_def simp del: current_object_Inr_iff split: if_splits)
  with Cons.IH [of "M\<lparr>world := v\<rparr>"] Cons.prems show ?case by (simp del: current_object_Inr_iff)
qed simp

lemma push_session_direct:
  assumes "idle p S" and "OpenRepo L B (c_str name) (manager_of S) = Inr (''success'', M1)"
    and "\<forall>m \<in> set ms. pack_data m \<noteq> [] \<and> \<not> pack_done m" and "pack_data m \<noteq> []" and "pack_done m"
    and "\<forall>d \<in> set (map pack_data (ms @ [m])). length d < 2 ^ 64"
    and "append_all (AppendDataToPack L) (map pack_data (ms @ [m])) M1 = Some M2"
    and "CommitPackChanges L M2 = Inr (''success'', M3)"
    and "NewReference L oid (refname q) (refrev q) M3 = Inr (''success'', M4)"
  shows "\<exists>S'. push_session L B oid p cap junk n d name (ms @ [m]) q S =
      Inr ([call_ok ''success''], replicate (Suc (length ms)) ack,
           [(\<lparr>success = True, errorMessage = ''success''\<rparr>, Status_OK)], [call_ok ''Success''], S') \<and>
    manager_of S' = M4 \<and> idle p S'"
proof -
  obtain C where C: "state_change L B oid p cap junk n \<lparr>reponame = name, newrepostate = True\<rparr> S = Inr C"
    "map snd (replies C) = [call_ok ''success'']" "idle p (backend C)" "manager_of (backend C) = M1"
    by (rule state_change_open [OF assms(1,2)])
  obtain R where R: "stream (append_via_proxy L B oid p cap junk d) (commit_via_proxy L B oid p cap junk) (ms @ [m])
      (Recv_HandlerThread_begin (recv_init (backend C))) = Inr R" "sent R = replicate (Suc (length ms)) ack"
    "closed R = [(\<lparr>success = True, errorMessage = ''success''\<rparr>, Status_OK)]" "idle p (store R)" "manager_of (store R) = M3"
    by (rule stream_via_proxy [OF C(3) assms(3-6) assms(7) [folded C(4)] assms(8)])
  obtain S' where "create_via_proxy L B oid p cap junk (refname q) (refrev q) (store R) = Inr (''success'', S')"
    "idle p S'" "manager_of S' = M4"
    by (rule create_request.answer [OF R(4) assms(9) [folded R(5)]])
  then show ?thesis
    by (simp add: push_session_def C(1,2) R(1-3) one_call_simps WriteReference_Read_def WriteReference_Write_def
        Finish_def call_ok_def GenericResponse_default_def del: replicate_Suc)
qed

section \<open>Properties\<close>

text \<open>
  C2. The stream handler works over the proxy exactly as it would on the repository manager
  itself: every run of its thread over the system of dispatcher, pump and manager is a run over
  the manager, and every run over the manager is one over the system, message for message
  and answer for answer, with lost clients and failing operations
  included. Between two steps the main loop is idle again.
\<close>

theorem stream_over_proxy_refines_manager:
  assumes "idle p (store R)"
  shows "map_store manager_of ` {R'. posted_steps L B oid p cap junk d R R'} =
           {Q. direct_steps L (map_store manager_of R) Q} \<and>
         {R'. posted_steps L B oid p cap junk d R R'} \<subseteq> {R'. idle p (store R')}"
  using push_stream.steps_refine [OF _ assms] push_stream.steps_complete [OF _ assms] by blast

lemma main_system_idle: "idle 0 (main_system w name bs)"
  by (simp add: idle_def main_system_ready)

theorem stream_over_proxy_refines_manager_witness:
  "(let R = Recv_HandlerThread_begin (recv_init (main_system (mem_with_repo ''r'') [] [])) in
    map_store manager_of ` {R'. posted_steps mem_git debug_build [] 0 2 (\<lambda>_. 9) 0 R R'} =
      {Q. direct_steps mem_git (map_store manager_of R) Q} \<and>
    {R'. posted_steps mem_git debug_build [] 0 2 (\<lambda>_. 9) 0 R R'} \<subseteq> {R'. idle 0 (store R')})"
  unfolding Let_def
  by (rule stream_over_proxy_refines_manager)
     (simp add: Recv_HandlerThread_begin_def Recv_Request_new_def recv_init_def main_system_idle)

text \<open>
  C1. A push reaches the library. When the main loop serves each request before its handler goes on,
  the repository opens, and the library takes every piece, the commit and the new reference, then
  the client that opens the repository, sends the pieces, marks the last one done and
  writes the reference gets a success for every call and every piece; the library was given
  exactly the pieces in their order, one commit, the reference's revision and name, and the new
  head, and nothing else; and the repository is still open.
\<close>

theorem push_session_stores:
  assumes "idle p S" and "OpenRepo L B (c_str name) (manager_of S) = Inr (''success'', M)"
    and "current_object M = Inr r" and "wp r = Ptr k" and "repo r = Ptr g"
    and "\<forall>m \<in> set ms. pack_data m \<noteq> [] \<and> \<not> pack_done m" and "pack_data m \<noteq> []" and "pack_done m"
    and "\<forall>d \<in> set (map pack_data (ms @ [m])). length d < 2 ^ 64"
    and "write_all L k (map pack_data (ms @ [m])) (world M) = Some w2" and "writepack_commit L k w2 = (0, w3)"
    and "git_oid_fromstr L (c_str (refrev q)) oid w3 = (0, i, w4)"
    and "git_reference_create L (Ptr g) (c_str (refname q)) i 0 Uninit w4 = (0, Ptr n', w5)"
    and "git_repository_set_head L (Ptr g) (c_str (refname q)) w5 = (0, w6)"
  shows "\<exists>S'. push_session L B oid p cap junk n d name (ms @ [m]) q S =
      Inr ([call_ok ''success''], replicate (Suc (length ms)) ack,
           [(\<lparr>success = True, errorMessage = ''success''\<rparr>, Status_OK)], [call_ok ''Success''], S') \<and>
    manager_of S' = M\<lparr>world := git_reference_free L (Ptr n') w6\<rparr> \<and> idle p S'"
proof (rule push_session_direct [OF assms(1,2,6-9)])
  note obj = current_object_world assms(3)
  show "append_all (AppendDataToPack L) (map pack_data (ms @ [m])) M = Some (M\<lparr>world := w2\<rparr>)"
    by (rule manager_append_all [OF assms(3,4,10)])
  show "CommitPackChanges L (M\<lparr>world := w2\<rparr>) = Inr (''success'', M\<lparr>world := w3\<rparr>)"
    using current_object_open [OF assms(3)] assms(4,11) by (simp add: CommitPackChanges_def PackCommit_def obj del: current_object_Inr_iff)
  show "NewReference L oid (refname q) (refrev q) (M\<lparr>world := w3\<rparr>) =
      Inr (''success'', M\<lparr>world := git_reference_free L (Ptr n') w6\<rparr>)"
    using current_object_open [OF assms(3)] assms(5,12-) by (simp add: NewReference_def CreateReference_def obj del: current_object_Inr_iff)
qed

text \<open>The library after the calls of the witness, made directly.\<close>

definition demo_world_at :: "nat \<Rightarrow> mem" where
  "demo_world_at k =
     (let w2 = the (write_all mem_git 3 [[1, 2], [3]] (world demo_open));
          w3 = snd (writepack_commit mem_git 3 w2);
          w4 = snd (snd (git_oid_fromstr mem_git (replicate 40 CHR ''0'') [] w3));
          w5 = snd (snd (git_reference_create mem_git (Ptr 1) ''refs/heads/x'' (replicate 20 0) 0 Uninit w4));
          w6 = snd (git_repository_set_head mem_git (Ptr 1) ''refs/heads/x'' w5) in
      [w2, w3, w4, w5, w6] ! k)"

theorem push_session_stores_witness:
  "(let S = main_system demo_world [] [] in
    \<exists>S'. push_session mem_git debug_build [] 0 2 (\<lambda>_. 9) 0 0 demo_name ([piece [1, 2] False] @ [piece [3] True])
           \<lparr>refname = ''refs/heads/x'', refrev = replicate 40 CHR ''0''\<rparr> S =
      Inr ([call_ok ''success''], replicate (Suc (length [piece [1, 2] False])) ack,
           [(\<lparr>success = True, errorMessage = ''success''\<rparr>, Status_OK)], [call_ok ''Success''], S') \<and>
    manager_of S' = demo_open\<lparr>world := git_reference_free mem_git (Ptr 4) (demo_world_at 4)\<rparr> \<and> idle 0 S') \<and>
   commits (demo_world_at 4) = [[1, 2, 3]] \<and> mem_refs (demo_world_at 4) = [(''refs/heads/x'', replicate 20 0)]"
  unfolding Let_def
proof (intro conjI)
  show "\<exists>S'. push_session mem_git debug_build [] 0 2 (\<lambda>_. 9) 0 0 demo_name ([piece [1, 2] False] @ [piece [3] True])
           \<lparr>refname = ''refs/heads/x'', refrev = replicate 40 CHR ''0''\<rparr> (main_system demo_world [] []) =
      Inr ([call_ok ''success''], replicate (Suc (length [piece [1, 2] False])) ack,
           [(\<lparr>success = True, errorMessage = ''success''\<rparr>, Status_OK)], [call_ok ''Success''], S') \<and>
    manager_of S' = demo_open\<lparr>world := git_reference_free mem_git (Ptr 4) (demo_world_at 4)\<rparr> \<and> idle 0 S'"
  proof (rule push_session_stores [where r = demo_repo and k = 3 and g = 1 and i = "replicate 20 0"
        and ?w2.0 = "demo_world_at 0" and ?w3.0 = "demo_world_at 1" and ?w4.0 = "demo_world_at 2" and ?w5.0 = "demo_world_at 3"])
    show "OpenRepo mem_git debug_build (c_str demo_name) (manager_of (main_system demo_world [] [])) = Inr (''success'', demo_open)"
      using demo_OpenRepo by (simp add: manager_of_def main_system_def demo_name_def)
    show "write_all mem_git 3 (map pack_data ([piece [1, 2] False] @ [piece [3] True])) (world demo_open) = Some (demo_world_at 0)"
      by code_simp
    show "writepack_commit mem_git 3 (demo_world_at 0) = (0, demo_world_at 1)" by code_simp
    show "git_oid_fromstr mem_git (c_str (refrev \<lparr>refname = ''refs/heads/x'', refrev = replicate 40 CHR ''0''\<rparr>)) [] (demo_world_at 1) =
        (0, replicate 20 0, demo_world_at 2)" by code_simp
    show "git_reference_create mem_git (Ptr 1) (c_str (refname \<lparr>refname = ''refs/heads/x'', refrev = replicate 40 CHR ''0''\<rparr>))
        (replicate 20 0) 0 Uninit (demo_world_at 2) = (0, Ptr 4, demo_world_at 3)" by code_simp
    show "git_repository_set_head mem_git (Ptr 1) (c_str (refname \<lparr>refname = ''refs/heads/x'', refrev = replicate 40 CHR ''0''\<rparr>))
        (demo_world_at 3) = (0, demo_world_at 4)" by code_simp
  qed (simp_all add: main_system_idle piece_def demo_open_def demo_repo_def current_object_def object_at_def)
qed code_simp+

text \<open>
  C25. From the call to the object database and back: when the main loop is idle, a
  \<open>WriteReference\<close> call leaves the repository manager in the state its reference creation
  produces, and the client is told of success with status OK exactly when the creation
  reported success (or failed with the very message \<^verbatim>\<open>Success\<close>); otherwise it gets the library's
  message with status INTERNAL.
\<close>

theorem write_reference_end_to_end:
  assumes "idle p S" and "NewReference L oid (refname q) (refrev q) (manager_of S) = Inr (res, M)"
  shows "\<exists>R. one_call (WriteReference_Read (create_via_proxy L B oid p cap junk)) q S = Inr R \<and>
    manager_of (backend R) = M \<and> idle p (backend R) \<and>
    replies R = [(0, if res = ''success'' \<or> c_str res = ''Success''
                     then (\<lparr>success = True, errorMessage = ''Success''\<rparr>, \<lparr>code = OK, error_message = ''Success''\<rparr>)
                     else (\<lparr>success = False, errorMessage = c_str res\<rparr>, \<lparr>code = INTERNAL, error_message = c_str res\<rparr>))]"
proof -
  obtain S' where "create_via_proxy L B oid p cap junk (refname q) (refrev q) S = Inr (res, S')" "idle p S'"
    "manager_of S' = M"
    by (rule create_request.answer [OF assms])
  then show ?thesis
    by (auto simp: one_call_simps WriteReference_Read_def WriteReference_Write_def Finish_def
        strcmp_eq_def GenericResponse_default_def)
qed

theorem write_reference_end_to_end_witness:
  "(let S = main_system mem_empty ''r'' []; q = \<lparr>refname = ''a'', refrev = ''b''\<rparr>; res = ''nope'' in
    \<exists>R. one_call (WriteReference_Read (create_via_proxy mem_git debug_build [] 0 2 (\<lambda>_. 9))) q S = Inr R \<and>
    manager_of (backend R) = manager_of S \<and> idle 0 (backend R) \<and>
    replies R = [(0, if res = ''success'' \<or> c_str res = ''Success''
                     then (\<lparr>success = True, errorMessage = ''Success''\<rparr>, \<lparr>code = OK, error_message = ''Success''\<rparr>)
                     else (\<lparr>success = False, errorMessage = c_str res\<rparr>, \<lparr>code = INTERNAL, error_message = c_str res\<rparr>))])"
  unfolding Let_def
  by (rule write_reference_end_to_end [OF main_system_idle])
     (simp add: NewReference_def main_system_def Init_def RepositoryManager_new_def manager_of_def)

text \<open>
  C23. A client that closes the repository while another one is sending a pack brings the server
  down. The close call is answered with success at once and its task runs in the next turn
  of the main loop; the piece that arrives next is acknowledged, and working on it makes the
  main loop use the repository that is gone through a null pointer.
\<close>

theorem close_during_push_crashes:
  assumes "idle p (store R)" and "receiving R" and "pack_data m \<noteq> []" and "CloseRepo L (manager_of (store R)) = Inr M"
  shows "\<exists>C S. state_change L B oid p cap junk n \<lparr>reponame = name, newrepostate = False\<rparr> (store R) = Inr C \<and>
    map snd (replies C) = [call_ok ''success''] \<and>
    pump_turn L B oid p (backend C) = Inr S \<and> manager_of S = M \<and>
    stream_message (append_via_proxy L B oid p cap junk d) (commit_via_proxy L B oid p cap junk) m (R\<lparr>store := S\<rparr>) = Inl NullDeref"
proof -
  let ?S = "store R" and ?t = "NEW_TASK0 (junk (request_number (store R))) () fn_CloseRepo :: repo_task"
  let ?S' = "served_state cap p ?S ((svc ?S)\<lparr>manager := M\<rparr>)"
  have "Proxy_CloseRepo cap (junk (request_number ?S)) ?S = Inr (with_task cap p ?t ?S)"
    using assms(1) by (simp add: Proxy_CloseRepo_def idle_def POST_TASK_ready)
  then have C: "\<exists>C. state_change L B oid p cap junk n \<lparr>reponame = name, newrepostate = False\<rparr> ?S = Inr C \<and>
      map snd (replies C) = [call_ok ''success''] \<and> backend C = with_task cap p ?t ?S"
    by (simp add: state_change_def one_call_simps RepoStateChange_Read_def RepoStateChange_Write_def Finish_def
        strcmp_eq_def call_ok_def GenericResponse_default_def)
  have turn: "pump_turn L B oid p (with_task cap p ?t ?S) = Inr ?S'"
    using assms(1,4) by (subst turn_single) (auto simp: idle_def manager_of_def run_manager_def)
  have "currentRepo M = None" using assms(4) by (auto elim: CloseRepo_cases)
  then have "AppendDataToPack L (sized (pack_data m)) (manager_of ?S') = Inl NullDeref"
    by (simp add: AppendDataToPack_def current_object_def manager_of_def)
  moreover have "idle p ?S'"
    using assms(1) by (intro served_state_idle) (auto simp: idle_def promises_fresh_def)
  ultimately have "append_via_proxy L B oid p cap junk d (pack_data m) ?S' = Inl NullDeref"
    by (simp add: append_request.fault)
  then have "stream_message (append_via_proxy L B oid p cap junk d) (commit_via_proxy L B oid p cap junk) m (R\<lparr>store := ?S'\<rparr>) =
      Inl NullDeref"
    using assms(2,3) by (simp add: stream_message_def take_tag_def recv_defs receiving_def)
  with C turn show ?thesis by (auto simp: manager_of_def)
qed

definition opened_system :: "mem system" where
  "opened_system = (main_system (mem_with_repo ''r'') [] [])\<lparr>svc :=
     (svc (main_system (mem_with_repo ''r'') [] []))\<lparr>manager := demo_open\<rparr>\<rparr>"

theorem close_during_push_crashes_witness:
  "(let R = recv_init opened_system\<lparr>pending := [READ]\<rparr>; M = projr (CloseRepo mem_git (demo_open)) in
    \<exists>C S. state_change mem_git debug_build [] 0 2 (\<lambda>_. 9) 0 \<lparr>reponame = ''r'', newrepostate = False\<rparr> (store R) = Inr C \<and>
    map snd (replies C) = [call_ok ''success''] \<and>
    pump_turn mem_git debug_build [] 0 (backend C) = Inr S \<and> manager_of S = M \<and>
    stream_message (append_via_proxy mem_git debug_build [] 0 2 (\<lambda>_. 9) 0) (commit_via_proxy mem_git debug_build [] 0 2 (\<lambda>_. 9))
      (piece [1] False) (R\<lparr>store := S\<rparr>) = Inl NullDeref)"
  unfolding Let_def
proof (rule close_during_push_crashes)
  have "idle 0 opened_system"
    using main_system_idle [of "mem_with_repo ''r''" "[]" "[]"]
    by (simp add: opened_system_def idle_def promises_fresh_def)
  then show "idle 0 (store (recv_init opened_system\<lparr>pending := [READ]\<rparr>))" by (simp add: recv_init_def)
  have "CloseRepo mem_git (demo_open) = Inr (projr (CloseRepo mem_git (demo_open)))" by code_simp
  then show "CloseRepo mem_git (manager_of (store (recv_init opened_system\<lparr>pending := [READ]\<rparr>))) =
      Inr (projr (CloseRepo mem_git (demo_open)))"
    by (simp add: recv_init_def opened_system_def manager_of_def)
qed (simp_all add: recv_init_def receiving_def piece_def)

end
