(* ===== verification/Pump_Protocol.thy ===== *)
theory Pump_Protocol
  imports Message_Pump Step_Systems
begin

text \<open>
  The message loop of \<^verbatim>\<open>MessagePumpEPoll\<close> and the threads that post to it, as one state machine in
  which each step is one action of one thread: taking the queue's lock, writing the pipe, waking
  up from \<^verbatim>\<open>epoll_wait\<close>, waiting on and signalling the condition variable \<^verbatim>\<open>postBlocker\<close>.
  It starts where the pipe is made and \<^verbatim>\<open>StartMessageLoop\<close> is about to set \<^verbatim>\<open>startComplete\<close>.

  The pipe is registered edge-triggered: a successful write makes an event pending (\<open>edge\<close>), and
  \<^verbatim>\<open>epoll_wait\<close> returns when one is pending and consumes it. A write to a pipe that holds \<open>cap\<close>
  bytes fails and raises no event. The condition variable has no associated predicate: a signal
  wakes one thread that is already waiting and is otherwise lost, and a waiting thread may wake up
  without a signal, which \<^verbatim>\<open>Wait\<close> lets through because it does not wait in a loop. (\<^verbatim>\<open>Wait\<close> does not lock
  the mutex before it waits either, which POSIX leaves undefined; the steps take it to be a wait.)

  \<open>again\<close> gives, for a task that itself posts to this pump while it runs, the task it posts.
\<close>

section \<open>States\<close>

datatype 't main_pc =
    Starting
  | Signalling
  | InitPush 't
  | InitWrite
  | Waiting
  | Reading
  | Locking
  | Draining
  | InTask 't
  | InTaskWrite

datatype 't poster_pc =
    Idle
  | Checking 't
  | Blocking 't
  | Asleep 't
  | Pushing 't
  | Writing

record 't pump_sys =
  main :: "'t main_pc"
  posters :: "nat \<Rightarrow> 't poster_pc"
  tasks :: "'t list"
  pipe :: nat
  edge :: bool
  started :: bool
  guard :: bool
  pushed :: "'t list"
  executed :: "'t list"

definition pump_init :: "'t pump_sys" where
  "pump_init = \<lparr>main = Starting, posters = \<lambda>_. Idle, tasks = [], pipe = 0, edge = False,
                started = False, guard = False, pushed = [], executed = []\<rparr>"

definition enqueue :: "('t \<Rightarrow> int) \<Rightarrow> 't \<Rightarrow> 't pump_sys \<Rightarrow> 't pump_sys" where
  "enqueue key t s = s\<lparr>tasks := heap_push key t (tasks s), pushed := pushed s @ [t]\<rparr>"

definition notify :: "nat \<Rightarrow> 't pump_sys \<Rightarrow> 't pump_sys" where
  "notify cap s = (if pipe s < cap then s\<lparr>pipe := Suc (pipe s), edge := True\<rparr> else s)"

section \<open>Steps\<close>

inductive pump_step ::
    "('t \<Rightarrow> int) \<Rightarrow> ('t \<Rightarrow> 't option) \<Rightarrow> nat \<Rightarrow> 't option \<Rightarrow> 't pump_sys \<Rightarrow> 't pump_sys \<Rightarrow> bool"
  for key :: "'t \<Rightarrow> int" and again :: "'t \<Rightarrow> 't option" and cap :: nat and initTask :: "'t option" where
  start: "main s = Starting \<Longrightarrow>
     pump_step key again cap initTask s (s\<lparr>started := True, main := Signalling\<rparr>)"
| signal_one: "main s = Signalling \<Longrightarrow> posters s i = Asleep t \<Longrightarrow>
     pump_step key again cap initTask s
       (s\<lparr>posters := (posters s)(i := Pushing t),
          main := (case initTask of Some u \<Rightarrow> InitPush u | None \<Rightarrow> Waiting)\<rparr>)"
| signal_lost: "main s = Signalling \<Longrightarrow> (\<forall>i t. posters s i \<noteq> Asleep t) \<Longrightarrow>
     pump_step key again cap initTask s
       (s\<lparr>main := (case initTask of Some u \<Rightarrow> InitPush u | None \<Rightarrow> Waiting)\<rparr>)"
| init_push: "main s = InitPush t \<Longrightarrow> \<not> guard s \<Longrightarrow>
     pump_step key again cap initTask s ((enqueue key t s)\<lparr>main := InitWrite\<rparr>)"
| init_write: "main s = InitWrite \<Longrightarrow>
     pump_step key again cap initTask s ((notify cap s)\<lparr>main := Waiting\<rparr>)"
| wake: "main s = Waiting \<Longrightarrow> edge s \<Longrightarrow>
     pump_step key again cap initTask s (s\<lparr>edge := False, main := Reading\<rparr>)"
| read_byte: "main s = Reading \<Longrightarrow>
     pump_step key again cap initTask s (s\<lparr>pipe := pipe s - 1, main := Locking\<rparr>)"
| lock: "main s = Locking \<Longrightarrow> \<not> guard s \<Longrightarrow>
     pump_step key again cap initTask s (s\<lparr>guard := True, main := Draining\<rparr>)"
| run_task: "main s = Draining \<Longrightarrow> tasks s \<noteq> [] \<Longrightarrow>
     pump_step key again cap initTask s
       (s\<lparr>tasks := heap_pop key (tasks s), executed := executed s @ [heap_top (tasks s)],
          main := (case again (heap_top (tasks s)) of None \<Rightarrow> Draining | Some u \<Rightarrow> InTask u)\<rparr>)"
| task_posts: "main s = InTask t \<Longrightarrow> \<not> guard s \<Longrightarrow>
     pump_step key again cap initTask s ((enqueue key t s)\<lparr>main := InTaskWrite\<rparr>)"
| task_writes: "main s = InTaskWrite \<Longrightarrow>
     pump_step key again cap initTask s ((notify cap s)\<lparr>main := Draining\<rparr>)"
| unlock: "main s = Draining \<Longrightarrow> tasks s = [] \<Longrightarrow>
     pump_step key again cap initTask s (s\<lparr>guard := False, main := Waiting\<rparr>)"
| post_begin: "posters s i = Idle \<Longrightarrow>
     pump_step key again cap initTask s (s\<lparr>posters := (posters s)(i := Checking t)\<rparr>)"
| post_started: "posters s i = Checking t \<Longrightarrow> started s \<Longrightarrow>
     pump_step key again cap initTask s (s\<lparr>posters := (posters s)(i := Pushing t)\<rparr>)"
| post_not_started: "posters s i = Checking t \<Longrightarrow> \<not> started s \<Longrightarrow>
     pump_step key again cap initTask s (s\<lparr>posters := (posters s)(i := Blocking t)\<rparr>)"
| post_sleep: "posters s i = Blocking t \<Longrightarrow>
     pump_step key again cap initTask s (s\<lparr>posters := (posters s)(i := Asleep t)\<rparr>)"
| post_spurious: "posters s i = Asleep t \<Longrightarrow>
     pump_step key again cap initTask s (s\<lparr>posters := (posters s)(i := Pushing t)\<rparr>)"
| post_push: "posters s i = Pushing t \<Longrightarrow> \<not> guard s \<Longrightarrow>
     pump_step key again cap initTask s ((enqueue key t s)\<lparr>posters := (posters s)(i := Writing)\<rparr>)"
| post_write: "posters s i = Writing \<Longrightarrow>
     pump_step key again cap initTask s ((notify cap s)\<lparr>posters := (posters s)(i := Idle)\<rparr>)"

inductive_cases pump_stepE [consumes 1, case_names start signal_one signal_lost init_push init_write wake read_byte lock run_task
    task_posts task_writes unlock post_begin post_started post_not_started post_sleep post_spurious post_push post_write]:
  "pump_step key again cap initTask s s'"

abbreviation pump_reachable ::
    "('t \<Rightarrow> int) \<Rightarrow> ('t \<Rightarrow> 't option) \<Rightarrow> nat \<Rightarrow> 't option \<Rightarrow> 't pump_sys \<Rightarrow> bool" where
  "pump_reachable key again cap initTask \<equiv> reachable (\<lambda>s. s = pump_init) (pump_step key again cap initTask)"

lemmas pump_reach_init = reachable_init [of pump_init "pump_step key again cap initTask" for key again cap initTask]
lemmas pump_reach_step = reachable_step [of "\<lambda>s. s = pump_init" "pump_step key again cap initTask" for key again cap initTask]

section \<open>Invariant\<close>

text \<open>
  The loop holds the lock exactly while it serves the queue. Once it has read its byte and no
  event is pending, the pipe has room, so the next write will raise one. When the loop sleeps, or
  has yet to go to sleep for the first time, with no event pending, then a task can only be in
  the queue if the thread that put it there has yet to write its byte.
\<close>

definition serving :: "'t main_pc \<Rightarrow> bool" where
  "serving m \<longleftrightarrow> m = Draining \<or> (\<exists>t. m = InTask t)"

definition sleepy :: "'t main_pc \<Rightarrow> bool" where
  "sleepy m \<longleftrightarrow> m = Starting \<or> m = Signalling \<or> m = Waiting \<or> (\<exists>t. m = InitPush t)"

definition pump_inv :: "('t \<Rightarrow> int) \<Rightarrow> nat \<Rightarrow> 't pump_sys \<Rightarrow> bool" where
  "pump_inv key cap s \<longleftrightarrow>
     (guard s \<longleftrightarrow> serving (main s)) \<and>
     main s \<noteq> InTaskWrite \<and>
     is_heap key (tasks s) \<and>
     mset (pushed s) = mset (tasks s) + mset (executed s) \<and>
     pipe s \<le> cap \<and>
     (main s = Reading \<or> edge s \<or> pipe s < cap) \<and>
     (sleepy (main s) \<longrightarrow> edge s \<or> tasks s = [] \<or> (\<exists>i. posters s i = Writing))"

lemma pc_simps [simp]:
  "serving Draining" "serving (InTask t)" "\<not> serving Starting" "\<not> serving Signalling"
  "\<not> serving (InitPush t)" "\<not> serving InitWrite" "\<not> serving Waiting" "\<not> serving Reading"
  "\<not> serving Locking" "\<not> serving InTaskWrite"
  "sleepy Starting" "sleepy Signalling" "sleepy Waiting" "sleepy (InitPush t)"
  "\<not> sleepy InitWrite" "\<not> sleepy Reading" "\<not> sleepy Locking" "\<not> sleepy Draining"
  "\<not> sleepy (InTask t)" "\<not> sleepy InTaskWrite"
  by (auto simp: serving_def sleepy_def)

lemma enqueue_simps [simp]:
  "main (enqueue key t s) = main s" "posters (enqueue key t s) = posters s"
  "tasks (enqueue key t s) = heap_push key t (tasks s)" "pipe (enqueue key t s) = pipe s"
  "edge (enqueue key t s) = edge s" "guard (enqueue key t s) = guard s"
  "started (enqueue key t s) = started s"
  "pushed (enqueue key t s) = pushed s @ [t]" "executed (enqueue key t s) = executed s"
  by (simp_all add: enqueue_def)

lemma notify_simps [simp]:
  "main (notify cap s) = main s" "posters (notify cap s) = posters s"
  "tasks (notify cap s) = tasks s" "guard (notify cap s) = guard s"
  "started (notify cap s) = started s"
  "pushed (notify cap s) = pushed s" "executed (notify cap s) = executed s"
  "edge (notify cap s) \<longleftrightarrow> edge s \<or> pipe s < cap"
  "pipe (notify cap s) = (if pipe s < cap then Suc (pipe s) else pipe s)"
  by (simp_all add: notify_def)

lemma pump_inv_init: "cap > 0 \<Longrightarrow> pump_inv key cap pump_init"
  by (simp add: pump_inv_def pump_init_def is_heap_def)

lemma served_conserved:
  assumes "is_heap key q" and "q \<noteq> []"
  shows "is_heap key (heap_pop key q)" and "add_mset (heap_top q) (mset (heap_pop key q)) = mset q"
  using heap_pop_correct [OF assms] assms(2) by (simp_all add: heap_top_def)

lemma still_writing:
  assumes "posters s i \<noteq> Writing"
  shows "(\<exists>j. ((posters s)(i := p)) j = Writing) \<longleftrightarrow> p = Writing \<or> (\<exists>j. posters s j = Writing)"
  using assms by (metis fun_upd_other fun_upd_same)

lemma pump_inv_posters:
  assumes "pump_inv key cap s" and "posters s i \<noteq> Writing"
  shows "pump_inv key cap (s\<lparr>posters := (posters s)(i := p)\<rparr>)"
  using assms still_writing [OF assms(2), of p] by (auto simp: pump_inv_def)

lemma pump_inv_main:
  assumes "pump_inv key cap s" and "sleepy m \<longrightarrow> sleepy (main s)"
    and "serving m = serving (main s)" and "m \<noteq> InTaskWrite" and "main s \<noteq> Reading"
  shows "pump_inv key cap (s\<lparr>main := m\<rparr>)"
  using assms by (auto simp: pump_inv_def)

lemma pump_inv_moves:
  assumes "pump_inv key cap s" and "posters s i \<noteq> Writing" and "sleepy m \<longrightarrow> sleepy (main s)"
    and "serving m = serving (main s)" and "m \<noteq> InTaskWrite" and "main s \<noteq> Reading"
  shows "pump_inv key cap (s\<lparr>posters := (posters s)(i := p), main := m\<rparr>)"
  using pump_inv_main [OF pump_inv_posters [OF assms(1,2)], of m p] assms(3-) by simp

lemma pump_step_inv [inv_intros]:
  assumes "pump_step key again cap initTask s s'" and "pump_inv key cap s" and "cap > 0"
  shows "pump_inv key cap s'"
  using assms(1)
proof (cases rule: pump_stepE)
  case (run_task)
  with assms(2) served_conserved [of key "tasks s"] show ?thesis
    by (auto simp: pump_inv_def split: option.split)
next
  case (signal_one i t)
  with assms(2) show ?thesis by (auto intro!: pump_inv_moves split: option.split)
next
  case (post_push i t)
  with assms(2) show ?thesis by (auto simp: pump_inv_def heap_push_correct)
qed (use assms(2,3) in \<open>auto simp: pump_inv_def heap_push_correct intro: pump_inv_posters split: option.splits\<close>;
     use assms(2) in \<open>force simp: pump_inv_def intro: pump_inv_posters\<close>)+

interpretation protocol: step_invariant "\<lambda>s. s = pump_init" "pump_step key again cap initTask" "\<lambda>s. cap > 0 \<longrightarrow> pump_inv key cap s"
  for key again cap initTask
  by unfold_locales (auto intro: pump_inv_init pump_step_inv)

lemma pump_reachable_inv: "pump_reachable key again cap initTask s \<Longrightarrow> cap > 0 \<Longrightarrow> pump_inv key cap s"
  using protocol.holds by blast

section \<open>Serving what was posted\<close>

abbreviation pump_steps ::
    "('t \<Rightarrow> int) \<Rightarrow> ('t \<Rightarrow> 't option) \<Rightarrow> nat \<Rightarrow> 't option \<Rightarrow> 't pump_sys \<Rightarrow> 't pump_sys \<Rightarrow> bool" where
  "pump_steps key again cap initTask \<equiv> (pump_step key again cap initTask)\<^sup>*\<^sup>*"

lemmas then_step = converse_rtranclp_into_rtranclp [of "pump_step key again cap initTask" for key again cap initTask]

definition all_served :: "'t pump_sys \<Rightarrow> 't pump_sys \<Rightarrow> bool" where
  "all_served s s' \<longleftrightarrow> tasks s' = [] \<and> mset (pushed s) \<subseteq># mset (executed s')"

definition can_serve :: "('t \<Rightarrow> int) \<Rightarrow> nat \<Rightarrow> 't option \<Rightarrow> 't pump_sys \<Rightarrow> bool" where
  "can_serve key cap initTask s \<longleftrightarrow> (\<exists>s'. pump_steps key (\<lambda>_. None) cap initTask s s' \<and> all_served s s')"

lemma can_serve_step:
  assumes "pump_step key (\<lambda>_. None) cap initTask s s'" and "can_serve key cap initTask s'"
    and "mset (pushed s) \<subseteq># mset (pushed s')"
  shows "can_serve key cap initTask s"
  using assms unfolding can_serve_def all_served_def
  by (metis then_step subset_mset.trans)

lemma can_serve_idle: "pump_inv key cap s \<Longrightarrow> tasks s = [] \<Longrightarrow> can_serve key cap initTask s"
  unfolding can_serve_def all_served_def by (rule exI [of _ s]) (auto simp: pump_inv_def)

lemma can_serve_draining:
  "pump_inv key cap s \<Longrightarrow> cap > 0 \<Longrightarrow> main s = Draining \<Longrightarrow> can_serve key cap initTask s"
proof (induction "length (tasks s)" arbitrary: s)
  case 0
  then show ?case by (simp add: can_serve_idle)
next
  case (Suc n)
  let ?s = "s\<lparr>tasks := heap_pop key (tasks s), executed := executed s @ [heap_top (tasks s)],
              main := Draining\<rparr>"
  have step: "pump_step key (\<lambda>_. None) cap initTask s ?s"
    using run_task [of s key "\<lambda>_. None" cap initTask] Suc.hyps(2) Suc.prems(3) by fastforce
  have "can_serve key cap initTask ?s"
    using Suc pump_step_inv [OF step] by (intro Suc.hyps(1)) auto
  then show ?case by (rule can_serve_step [OF step]) simp
qed

lemma can_serve_locking:
  assumes "pump_inv key cap s" and "cap > 0" and "main s = Locking"
  shows "can_serve key cap initTask s"
proof -
  have step: "pump_step key (\<lambda>_. None) cap initTask s (s\<lparr>guard := True, main := Draining\<rparr>)"
    using assms by (intro lock) (auto simp: pump_inv_def)
  show ?thesis
    by (rule can_serve_step [OF step can_serve_draining [OF pump_step_inv [OF step assms(1,2)] assms(2)]]) simp_all
qed

lemma can_serve_reading:
  assumes "pump_inv key cap s" and "cap > 0" and "main s = Reading"
  shows "can_serve key cap initTask s"
proof -
  have step: "pump_step key (\<lambda>_. None) cap initTask s (s\<lparr>pipe := pipe s - 1, main := Locking\<rparr>)"
    using assms by (intro read_byte)
  show ?thesis
    by (rule can_serve_step [OF step can_serve_locking [OF pump_step_inv [OF step assms(1,2)] assms(2)]]) simp_all
qed

lemma can_serve_edge:
  assumes "pump_inv key cap s" and "cap > 0" and "main s = Waiting" and "edge s"
  shows "can_serve key cap initTask s"
proof -
  have step: "pump_step key (\<lambda>_. None) cap initTask s (s\<lparr>edge := False, main := Reading\<rparr>)"
    using assms by (intro wake)
  show ?thesis
    by (rule can_serve_step [OF step can_serve_reading [OF pump_step_inv [OF step assms(1,2)] assms(2)]]) simp_all
qed

lemma can_serve_waiting:
  assumes "pump_inv key cap s" and "cap > 0" and "main s = Waiting"
  shows "can_serve key cap initTask s"
proof -
  consider "tasks s = []" | "edge s" | i where "posters s i = Writing" "\<not> edge s"
    using assms by (auto simp: pump_inv_def)
  then show ?thesis
  proof cases
    case (3 i)
    then have step: "pump_step key (\<lambda>_. None) cap initTask s
        ((notify cap s)\<lparr>posters := (posters s)(i := Idle)\<rparr>)" by (intro post_write)
    have "pipe s < cap" using assms 3 by (simp add: pump_inv_def)
    with assms 3 show ?thesis
      by (intro can_serve_step [OF step can_serve_edge [OF pump_step_inv [OF step assms(1,2)] assms(2)]]) simp_all
  qed (use assms in \<open>auto intro: can_serve_idle can_serve_edge\<close>)
qed

lemma can_serve_init:
  assumes "pump_inv key cap s" and "cap > 0" and "main s = InitPush t"
  shows "can_serve key cap initTask s"
proof -
  let ?s = "(enqueue key t s)\<lparr>main := InitWrite\<rparr>" and ?s' = "(notify cap ((enqueue key t s)\<lparr>main := InitWrite\<rparr>))\<lparr>main := Waiting\<rparr>"
  have 1: "pump_step key (\<lambda>_. None) cap initTask s ?s"
    using assms by (intro init_push) (auto simp: pump_inv_def)
  have 2: "pump_step key (\<lambda>_. None) cap initTask ?s ?s'"
    by (rule init_write) simp
  have inv: "pump_inv key cap ?s'" by (intro pump_step_inv [OF 2] pump_step_inv [OF 1] assms)
  show ?thesis
    by (rule can_serve_step [OF 1 can_serve_step [OF 2 can_serve_waiting [OF inv assms(2)]]]) simp_all
qed

lemma can_serve_signalling:
  assumes "pump_inv key cap s" and "cap > 0" and "main s = Signalling"
  shows "can_serve key cap initTask s"
proof -
  have "\<exists>s'. pump_step key (\<lambda>_. None) cap initTask s s' \<and> pushed s' = pushed s \<and>
          main s' = (case initTask of Some u \<Rightarrow> InitPush u | None \<Rightarrow> Waiting)"
    using signal_one [OF assms(3)] signal_lost [OF assms(3)]
    by (cases "\<exists>i t. posters s i = Asleep t") fastforce+
  then obtain s' where step: "pump_step key (\<lambda>_. None) cap initTask s s'" and "pushed s' = pushed s"
    and "main s' = (case initTask of Some u \<Rightarrow> InitPush u | None \<Rightarrow> Waiting)" by blast
  then show ?thesis
    using pump_step_inv [OF step assms(1,2)] assms(2)
    by (intro can_serve_step [OF step])
       (auto intro: can_serve_waiting can_serve_init split: option.splits)
qed

lemma can_serve_inv:
  assumes "pump_inv key cap s" and "cap > 0" and "\<And>t. main s \<noteq> InTask t"
  shows "can_serve key cap initTask s"
proof (cases "main s")
  case Starting
  then have step: "pump_step key (\<lambda>_. None) cap initTask s (s\<lparr>started := True, main := Signalling\<rparr>)"
    by (rule start)
  show ?thesis
    by (rule can_serve_step [OF step can_serve_signalling [OF pump_step_inv [OF step assms(1,2)] assms(2)]]) simp_all
next
  case InitWrite
  then have step: "pump_step key (\<lambda>_. None) cap initTask s ((notify cap s)\<lparr>main := Waiting\<rparr>)"
    by (rule init_write)
  show ?thesis
    by (rule can_serve_step [OF step can_serve_waiting [OF pump_step_inv [OF step assms(1,2)] assms(2)]]) simp_all
next
  case InTaskWrite
  with assms(1) show ?thesis by (simp add: pump_inv_def)
qed (use assms in \<open>auto intro: can_serve_init can_serve_signalling can_serve_waiting
       can_serve_reading can_serve_locking can_serve_draining\<close>)

interpretation no_tasks: step_invariant "\<lambda>s. s = pump_init" "pump_step key (\<lambda>_. None) cap initTask" "\<lambda>s. \<forall>t. main s \<noteq> InTask t"
  for key :: "'t \<Rightarrow> int" and cap and initTask :: "'t option"
proof unfold_locales
  fix s s' :: "'t pump_sys"
  assume "pump_step key (\<lambda>_. None) cap initTask s s'" and "\<forall>t. main s \<noteq> InTask t"
  then show "\<forall>t. main s' \<noteq> InTask t" by (cases rule: pump_stepE) (auto split: option.splits)
qed (simp add: pump_init_def)

section \<open>Threads that never come back\<close>

lemma stuck_step:
  assumes "pump_step key again cap initTask s s'" and "main s = InTask u" and "guard s"
  shows "main s' = InTask u \<and> guard s' \<and> tasks s' = tasks s \<and> executed s' = executed s \<and> pushed s' = pushed s"
  using assms by (cases rule: pump_stepE) auto

definition blocked :: "nat \<Rightarrow> 't \<Rightarrow> 't pump_sys \<Rightarrow> bool" where
  "blocked i t s \<longleftrightarrow> main s \<noteq> Starting \<and> main s \<noteq> Signalling \<and> (posters s i = Blocking t \<or> posters s i = Asleep t)"

lemma past_signal_step:
  assumes "pump_step key again cap initTask s s'" and "blocked i t s"
  shows "blocked i t s' \<or> posters s i = Asleep t \<and> s' = s\<lparr>posters := (posters s)(i := Pushing t)\<rparr>"
  using assms(1)
proof (cases rule: pump_stepE)
  case (post_spurious j u)
  with assms(2) show ?thesis by (cases "j = i") (auto simp: blocked_def)
qed (use assms(2) in \<open>auto simp: blocked_def split: option.splits\<close>)

text \<open>Past the signal a blocked thread stays where it is until, if ever, it wakes up on its own.\<close>

lemma past_signal_steps:
  assumes "pump_steps key again cap initTask s s'" and "blocked i t s"
  shows "blocked i t s' \<or> (\<exists>u. pump_steps key again cap initTask s u \<and> blocked i t u \<and> posters u i = Asleep t \<and>
    pump_steps key again cap initTask (u\<lparr>posters := (posters u)(i := Pushing t)\<rparr>) s')"
  using assms(1)
proof (induction rule: rtranclp_induct)
  case base
  with assms(2) show ?case by simp
next
  case (step s1 s2)
  then show ?case
    using past_signal_step [OF step.hyps(2), of i t]
    by (metis rtranclp.rtrancl_into_rtrancl rtranclp.rtrancl_refl)
qed

lemma stuck_steps:
  assumes "pump_steps key again cap initTask s s'" and "main s = InTask u" and "guard s"
  shows "main s' = InTask u \<and> guard s' \<and> tasks s' = tasks s \<and> executed s' = executed s \<and> pushed s' = pushed s"
  using assms(1) by induction (use assms(2-) in \<open>simp_all add: stuck_step\<close>)

section \<open>Example runs\<close>

text \<open>
  Tasks are numbers and their own priorities. In the first run thread 0 posts task 5 to a loop
  that is already asleep and has not written its byte yet. In the second the loop has taken task
  5 off the queue, which posts task 6 to the same pump. In the third thread 0 looked at
  \<^verbatim>\<open>startComplete\<close> before the loop set it and goes to sleep after the signal was given.
\<close>

lemma reach_idle: "pump_reachable id again cap None (pump_init\<lparr>started := True, main := Waiting\<rparr>)"
proof -
  have "pump_reachable id again cap None (pump_init\<lparr>started := True, main := Signalling\<rparr>)"
    by (rule pump_reach_step [OF pump_reach_init start]) (simp add: pump_init_def)
  then show ?thesis
    using pump_reach_step [OF _ signal_lost, of id again cap None "pump_init\<lparr>started := True, main := Signalling\<rparr>"]
    by (simp add: pump_init_def)
qed

definition posting :: "int poster_pc \<Rightarrow> int list \<Rightarrow> int pump_sys" where
  "posting p q = pump_init\<lparr>started := True, main := Waiting, posters := (\<lambda>_. Idle)(0 := p), tasks := q, pushed := q\<rparr>"

lemma reach_posting: "pump_reachable id again cap None (posting Writing [5])"
proof -
  have 0: "pump_reachable id again cap None (posting Idle [])"
    using reach_idle [of again cap] by (simp add: posting_def pump_init_def fun_upd_idem)
  have 1: "pump_reachable id again cap None (posting (Checking 5) [])"
    using pump_reach_step [OF 0 post_begin [where i = 0 and t = 5]] by (simp add: posting_def pump_init_def)
  have 2: "pump_reachable id again cap None (posting (Pushing 5) [])"
    using pump_reach_step [OF 1 post_started [where i = 0 and t = 5]] by (simp add: posting_def pump_init_def)
  show ?thesis
    using pump_reach_step [OF 2 post_push [where i = 0 and t = 5]]
    by (simp add: posting_def pump_init_def enqueue_def heap_push_def push_heap.simps)
qed

definition chain :: "int \<Rightarrow> int option" where
  "chain t = (if t = 5 then Some 6 else None)"

definition running :: "int main_pc \<Rightarrow> bool \<Rightarrow> nat \<Rightarrow> bool \<Rightarrow> int list \<Rightarrow> int list \<Rightarrow> int pump_sys" where
  "running m e n g q x = pump_init\<lparr>started := True, main := m, edge := e, pipe := n, guard := g,
     tasks := q, executed := x, pushed := [5]\<rparr>"

lemma steps_in_task: "pump_steps id chain 1 None (posting Writing [5]) (running (InTask 6) False 0 True [] [5])"
proof -
  have 1: "pump_step id chain 1 None (posting Writing [5]) (running Waiting True 1 False [5] [])"
    using post_write [of "posting Writing [5]" 0 id chain 1 None]
    by (simp add: posting_def running_def pump_init_def notify_def fun_upd_idem)
  have 2: "pump_step id chain 1 None (running Waiting True 1 False [5] []) (running Reading False 1 False [5] [])"
    using wake [of "running Waiting True 1 False [5] []" id chain 1 None] by (simp add: running_def pump_init_def)
  have 3: "pump_step id chain 1 None (running Reading False 1 False [5] []) (running Locking False 0 False [5] [])"
    using read_byte [of "running Reading False 1 False [5] []" id chain 1 None] by (simp add: running_def pump_init_def)
  have 4: "pump_step id chain 1 None (running Locking False 0 False [5] []) (running Draining False 0 True [5] [])"
    using lock [of "running Locking False 0 False [5] []" id chain 1 None] by (simp add: running_def pump_init_def)
  have 5: "pump_step id chain 1 None (running Draining False 0 True [5] []) (running (InTask 6) False 0 True [] [5])"
    using run_task [of "running Draining False 0 True [5] []" id chain 1 None]
    by (simp add: running_def pump_init_def heap_pop_def heap_top_def chain_def adjust_heap.simps)
  show ?thesis
    by (rule then_step [OF 1] then_step [OF 2] then_step [OF 3] then_step [OF 4] then_step [OF 5] rtranclp.rtrancl_refl)+
qed

lemma reach_in_task: "pump_reachable id chain 1 None (running (InTask 6) False 0 True [] [5])"
  by (rule reachable_steps [OF steps_in_task reach_posting])

definition starting :: "int main_pc \<Rightarrow> bool \<Rightarrow> int poster_pc \<Rightarrow> int pump_sys" where
  "starting m b p = pump_init\<lparr>main := m, started := b, posters := (\<lambda>_. Idle)(0 := p)\<rparr>"

lemma reach_starting: "pump_reachable id again cap None (starting Waiting True (Blocking 5))"
proof -
  have 0: "pump_reachable id again cap None (starting Starting False Idle)"
    using pump_reach_init [of id again cap None] by (simp add: starting_def pump_init_def fun_upd_idem)
  have 1: "pump_reachable id again cap None (starting Starting False (Checking 5))"
    using pump_reach_step [OF 0 post_begin [where i = 0 and t = 5]] by (simp add: starting_def pump_init_def)
  have 2: "pump_reachable id again cap None (starting Starting False (Blocking 5))"
    using pump_reach_step [OF 1 post_not_started [where i = 0 and t = 5]] by (simp add: starting_def pump_init_def)
  have 3: "pump_reachable id again cap None (starting Signalling True (Blocking 5))"
    using pump_reach_step [OF 2 start] by (simp add: starting_def pump_init_def)
  show ?thesis
    using pump_reach_step [OF 3 signal_lost] by (simp add: starting_def pump_init_def)
qed

section \<open>Properties\<close>

text \<open>
  C16. No wake-up is lost once the loop runs: whenever it sleeps in \<^verbatim>\<open>epoll_wait\<close> while a task is
  queued, an event is already pending, or some thread that posted is about to write its byte and
  the pipe has room for it, so that write raises the event.
\<close>

theorem no_lost_wakeup:
  assumes "pump_reachable key again cap initTask s" and "cap > 0"
    and "main s = Waiting" and "tasks s \<noteq> []"
  shows "edge s \<or> ((\<exists>i. posters s i = Writing) \<and> edge (notify cap s))"
  using pump_reachable_inv [OF assms(1,2)] assms(3,4) by (auto simp: pump_inv_def)

theorem no_lost_wakeup_witness:
  "edge (posting Writing [5]) \<or>
     ((\<exists>i. posters (posting Writing [5]) i = Writing) \<and> edge (notify 1 (posting Writing [5])))"
  by (rule no_lost_wakeup [OF reach_posting [of chain 1]]) (simp_all add: posting_def)

text \<open>
  C17. Posted tasks are served exactly once. From every state the system can reach, whatever
  the threads have done so far, the loop can go on to a state with an empty queue in which the
  tasks executed are, with multiplicity, exactly those that were ever pushed. Tasks here do not
  post to their own pump.
\<close>

theorem posted_tasks_are_served_once:
  assumes "pump_reachable key (\<lambda>_. None) cap initTask s" and "cap > 0"
  shows "\<exists>s'. pump_steps key (\<lambda>_. None) cap initTask s s' \<and> tasks s' = [] \<and>
    mset (pushed s) \<subseteq># mset (pushed s') \<and> mset (executed s') = mset (pushed s')"
proof -
  have "can_serve key cap initTask s"
    using can_serve_inv [OF pump_reachable_inv [OF assms] assms(2)] no_tasks.holds [OF assms(1)] by blast
  then obtain s' where steps: "pump_steps key (\<lambda>_. None) cap initTask s s'" and served: "all_served s s'"
    by (auto simp: can_serve_def)
  from pump_reachable_inv [OF reachable_steps [OF steps assms(1)] assms(2)] steps served show ?thesis
    by (auto simp: pump_inv_def all_served_def)
qed

theorem posted_tasks_are_served_once_witness:
  "\<exists>s'. pump_steps id (\<lambda>_. None) 1 None (posting Writing [5]) s' \<and> tasks s' = [] \<and>
    mset (pushed (posting Writing [5])) \<subseteq># mset (pushed s') \<and> mset (executed s') = mset (pushed s')"
  by (rule posted_tasks_are_served_once [OF reach_posting]) simp

text \<open>
  C18. A task that posts to the pump it runs on stops that pump for good: the loop holds the
  queue's lock while it runs tasks and posting takes it again. From then on no step of any
  thread runs, queues or removes a task.
\<close>

theorem posting_to_own_pump_deadlocks:
  assumes "pump_reachable key again cap initTask s" and "cap > 0" and "main s = InTask u"
    and "pump_steps key again cap initTask s s'"
  shows "main s' = InTask u \<and> tasks s' = tasks s \<and> executed s' = executed s \<and> pushed s' = pushed s"
proof -
  have "guard s" using pump_reachable_inv [OF assms(1,2)] assms(3) by (simp add: pump_inv_def)
  from stuck_steps [OF assms(4,3) this] show ?thesis by simp
qed

theorem posting_to_own_pump_deadlocks_witness:
  "(let s = running (InTask 6) False 0 True [] [5];
        s' = s\<lparr>posters := (posters s)(0 := Checking 7)\<rparr> in
    main s' = InTask 6 \<and> tasks s' = tasks s \<and> executed s' = executed s \<and> pushed s' = pushed s)"
  unfolding Let_def
  by (rule posting_to_own_pump_deadlocks [OF reach_in_task])
     (use post_begin [of "running (InTask 6) False 0 True [] [5]" 0 id chain 1 None 7] in
       \<open>auto simp: running_def pump_init_def intro!: r_into_rtranclp\<close>)

text \<open>
  C19. The one signal by which the loop says that it has started can be lost. A thread that found
  the loop not yet started and had not begun to wait when the signal was given posts nothing
  afterwards: in every later state it is still blocked, unless the system woke it without a signal
  after it had gone to sleep, which is the one step (\<open>u\<close> to \<open>u'\<close>) by which it can leave. Nothing the
  loop or another thread does can free it.
\<close>

theorem start_signal_lost:
  assumes "main s \<noteq> Starting" and "main s \<noteq> Signalling" and "posters s i = Blocking t"
    and "pump_steps key again cap initTask s s'"
  shows "posters s' i = Blocking t \<or> posters s' i = Asleep t \<or>
    (\<exists>u u'. pump_steps key again cap initTask s u \<and> main u \<noteq> Signalling \<and> posters u i = Asleep t \<and>
       u' = u\<lparr>posters := (posters u)(i := Pushing t)\<rparr> \<and> pump_steps key again cap initTask u' s')"
  using past_signal_steps [OF assms(4), of i t] assms(1-3) unfolding blocked_def by blast

theorem start_signal_lost_witness:
  "(let s = starting Waiting True (Blocking 5); s' = starting Waiting True (Asleep 5) in
    pump_reachable id chain 1 None s \<and>
    (posters s' 0 = Blocking 5 \<or> posters s' 0 = Asleep 5 \<or>
      (\<exists>u u'. pump_steps id chain 1 None s u \<and> main u \<noteq> Signalling \<and> posters u 0 = Asleep 5 \<and>
         u' = u\<lparr>posters := (posters u)(0 := Pushing 5)\<rparr> \<and> pump_steps id chain 1 None u' s')))"
  unfolding Let_def
proof (rule conjI [OF reach_starting], rule start_signal_lost)
  show "pump_steps id chain 1 None (starting Waiting True (Blocking 5)) (starting Waiting True (Asleep 5))"
    using post_sleep [of "starting Waiting True (Blocking 5)" 0 5 id chain 1 None]
    by (auto simp: starting_def pump_init_def intro!: r_into_rtranclp)
qed (simp_all add: starting_def)

end
