(* ===== verification/Pump_Atomicity.thy ===== *)
theory Pump_Atomicity
  imports Pump_Protocol
begin

text \<open>
  Why the other theories may treat posting a task and a turn of the loop as one step each. The detailed machine of
  \<open>Pump_Protocol\<close> locks, pops, runs, unlocks, and writes the pipe in steps of their own, with other threads in between.
  Seen through \<open>view\<close> it makes only two moves, one that pushes a task and one that serves the whole
  queue: the moment the loop takes the lock is the moment its turn takes effect.
\<close>

section \<open>The specification: push one task, serve all\<close>

abbreviation serve_order :: "('t \<Rightarrow> int) \<Rightarrow> 't list \<Rightarrow> 't list" where
  "serve_order key q \<equiv> pops heap_top (heap_pop key) (length q) q"

inductive atomic_step :: "('t \<Rightarrow> int) \<Rightarrow> 't list \<times> 't list \<Rightarrow> 't list \<times> 't list \<Rightarrow> bool"
  for key :: "'t \<Rightarrow> int" where
  put: "atomic_step key (q, x) (heap_push key t q, x)"
| serve_all: "atomic_step key (q, x) ([], x @ serve_order key q)"

text \<open>What has been queued and executed, when a turn counts as done from the moment it has the lock.\<close>

definition view :: "('t \<Rightarrow> int) \<Rightarrow> 't pump_sys \<Rightarrow> 't list \<times> 't list" where
  "view key s =
     (if serving (main s) then ([], executed s @ serve_order key (tasks s)) else (tasks s, executed s))"

section \<open>The simulation\<close>

lemma serve_order_step: "q \<noteq> [] \<Longrightarrow> serve_order key q = heap_top q # serve_order key (heap_pop key q)"
  by (cases q) (simp_all add: length_heap_pop)

lemma view_step:
  assumes "pump_step key again cap initTask s s'" and "pump_inv key cap s"
  shows "view key s' = view key s \<or> atomic_step key (view key s) (view key s')"
  using assms(1)
proof (cases rule: pump_stepE)
  case lock
  then show ?thesis by (simp add: view_def serve_all)
next
  case run_task
  then show ?thesis by (simp add: view_def serve_order_step split: option.split)
next
  case (post_push i t)
  with assms(2) have "\<not> serving (main s)" by (simp add: pump_inv_def)
  with post_push show ?thesis by (simp add: view_def put)
qed (use assms(2) in \<open>auto simp: view_def pump_inv_def put split: option.split\<close>)

lemma view_steps:
  assumes "pump_steps key again cap initTask s s'" and "pump_inv key cap s" and "cap > 0"
  shows "(atomic_step key)\<^sup>*\<^sup>* (view key s) (view key s')"
  using assms(1)
proof (induction rule: rtranclp_induct)
  case (step s1 s2)
  have "pump_inv key cap s1"
    using step.hyps(1) assms(2) by (induction rule: rtranclp_induct) (auto intro: pump_step_inv assms(3))
  from view_step [OF step.hyps(2) this] step.IH show ?case by (auto intro: rtranclp.rtrancl_into_rtrancl)
qed simp

section \<open>Properties\<close>

text \<open>
  C15. Posting and a turn of the loop are atomic. However the single actions of the loop and of the posting threads
  interleave, what is queued and what has been executed changes as if tasks were pushed one at a time and the
  whole queue were served at once, in the order the heap gives; no thread can add a task to a turn that has begun.
\<close>

theorem pump_is_atomic:
  assumes "pump_reachable key again cap initTask s" and "cap > 0" and "pump_steps key again cap initTask s s'"
  shows "(atomic_step key)\<^sup>*\<^sup>* (view key s) (view key s')"
  by (rule view_steps [OF assms(3) pump_reachable_inv [OF assms(1,2)] assms(2)])

theorem pump_is_atomic_witness:
  "(atomic_step id)\<^sup>*\<^sup>* (view id (posting Writing [5])) (view id (running (InTask 6) False 0 True [] [5]))"
proof (rule pump_is_atomic [OF reach_posting [of chain 1]])
  show "pump_steps id chain 1 None (posting Writing [5]) (running (InTask 6) False 0 True [] [5])"
    by (rule steps_in_task)
qed simp

end
