(* ===== verification/Base64.thy ===== *)
theory Base64
  imports Prelude
begin

text \<open>
  \<^verbatim>\<open>base/base64.cpp\<close>: encoding and decoding with two small arrays that are filled byte by byte.
  The arrays are not initialised; \<open>junk\<close> is what they hold at first, and the proofs show that it
  does not matter. The arithmetic is done in \<^verbatim>\<open>int\<close> and stored into \<^verbatim>\<open>unsigned char\<close>, so only the
  lowest eight bits count: it is arithmetic on 8-bit words here.
  The lengths are an \<^verbatim>\<open>unsigned int\<close> and an \<^verbatim>\<open>int\<close>, so texts are shorter than two gigabytes.
\<close>

unbundle bit_operations_syntax

section \<open>The alphabet\<close>

definition base64_chars :: string where
  "base64_chars = ''ABCDEFGHIJKLMNOPQRSTUVWXYZabcdefghijklmnopqrstuvwxyz0123456789+/''"

definition is_alnum :: "char \<Rightarrow> bool" where
  "is_alnum c \<longleftrightarrow>
     (let n = of_char c :: nat in (48 \<le> n \<and> n \<le> 57) \<or> (65 \<le> n \<and> n \<le> 90) \<or> (97 \<le> n \<and> n \<le> 122))"

definition is_base64 :: "char \<Rightarrow> bool" where
  "is_base64 c \<longleftrightarrow> is_alnum c \<or> c = CHR ''+'' \<or> c = CHR ''/''"

text \<open>\<^verbatim>\<open>std::string::find\<close>: the first position, or the largest \<^verbatim>\<open>size_t\<close>.\<close>

fun find_from :: "nat \<Rightarrow> char \<Rightarrow> string \<Rightarrow> size_t" where
  "find_from n c [] = -1"
| "find_from n c (x # xs) = (if x = c then word_of_nat n else find_from (Suc n) c xs)"

definition base64_find :: "char \<Rightarrow> byte" where
  "base64_find c = ucast (find_from 0 c base64_chars)"

definition base64_char :: "byte \<Rightarrow> char" where
  "base64_char b = base64_chars ! unat b"

section \<open>Encoding\<close>

definition char_array_4_0 :: "byte list \<Rightarrow> byte" where
  "char_array_4_0 a = drop_bit 2 (a ! 0 AND 0xfc)"

definition char_array_4_1 :: "byte list \<Rightarrow> byte" where
  "char_array_4_1 a = push_bit 4 (a ! 0 AND 0x03) + drop_bit 4 (a ! 1 AND 0xf0)"

definition char_array_4_2 :: "byte list \<Rightarrow> byte" where
  "char_array_4_2 a = push_bit 2 (a ! 1 AND 0x0f) + drop_bit 6 (a ! 2 AND 0xc0)"

definition char_array_4_3 :: "byte list \<Rightarrow> byte" where
  "char_array_4_3 a = a ! 2 AND 0x3f"

definition encode_step :: "byte \<Rightarrow> nat \<times> byte list \<times> string \<Rightarrow> nat \<times> byte list \<times> string" where
  "encode_step b = (\<lambda>(i, a, ret).
     let a = a[i := b]; i = i + 1 in
     if i = 3
     then (0, a, ret @ map base64_char [char_array_4_0 a, char_array_4_1 a, char_array_4_2 a, char_array_4_3 a])
     else (i, a, ret))"

definition base64_encode :: "byte list \<Rightarrow> byte list \<Rightarrow> string" where
  "base64_encode junk bytes_to_encode =
     (let (i, a, ret) = fold encode_step bytes_to_encode (0, junk, []) in
      if i \<noteq> 0 then
        let a = fold (\<lambda>j a. a[j := 0]) [i..<3] a in
        ret @ map base64_char (take (i + 1) [char_array_4_0 a, char_array_4_1 a, char_array_4_2 a])
            @ replicate (3 - i) CHR ''=''
      else ret)"

section \<open>Decoding\<close>

definition char_array_3_0 :: "byte list \<Rightarrow> byte" where
  "char_array_3_0 a = push_bit 2 (a ! 0) + drop_bit 4 (a ! 1 AND 0x30)"

definition char_array_3_1 :: "byte list \<Rightarrow> byte" where
  "char_array_3_1 a = push_bit 4 (a ! 1 AND 0xf) + drop_bit 2 (a ! 2 AND 0x3c)"

definition char_array_3_2 :: "byte list \<Rightarrow> byte" where
  "char_array_3_2 a = push_bit 6 (a ! 2 AND 0x3) + a ! 3"

definition decode_step :: "char \<Rightarrow> nat \<times> byte list \<times> byte list \<Rightarrow> nat \<times> byte list \<times> byte list" where
  "decode_step c = (\<lambda>(i, a, ret).
     let a = a[i := of_char c]; i = i + 1 in
     if i = 4
     then let a = map (\<lambda>x. base64_find (char_of (unat x))) a in
          (0, a, ret @ [char_array_3_0 a, char_array_3_1 a, char_array_3_2 a])
     else (i, a, ret))"

fun decode_loop :: "string \<Rightarrow> nat \<times> byte list \<times> byte list \<Rightarrow> nat \<times> byte list \<times> byte list" where
  "decode_loop [] s = s"
| "decode_loop (c # cs) s =
     (if c \<noteq> CHR ''='' \<and> is_base64 c then decode_loop cs (decode_step c s) else s)"

definition base64_decode :: "byte list \<Rightarrow> string \<Rightarrow> byte list" where
  "base64_decode junk encoded_string =
     (let (i, a, ret) = decode_loop encoded_string (0, junk, []) in
      if i \<noteq> 0 then
        let a = fold (\<lambda>j a. a[j := base64_find (char_of (unat (a ! j)))]) [0..<i] a in
        ret @ take (i - 1) [char_array_3_0 a, char_array_3_1 a]
      else ret)"

section \<open>The alphabet, looked up both ways\<close>

lemma find_from_nth:
  "distinct xs \<Longrightarrow> i < length xs \<Longrightarrow> find_from n (xs ! i) xs = word_of_nat (n + i)"
proof (induction xs arbitrary: i n)
  case (Cons x xs)
  show ?case
  proof (cases i)
    case (Suc k)
    with Cons.prems have "x \<noteq> xs ! k" "k < length xs" by (auto simp: in_set_conv_nth)
    with Suc Cons show ?thesis by simp
  qed simp
qed simp

lemma length_base64_chars [simp]: "length base64_chars = 64"
  by (simp add: base64_chars_def)

lemma distinct_base64_chars: "distinct base64_chars"
  by (simp add: base64_chars_def)

lemma base64_chars_valid: "list_all (\<lambda>c. is_base64 c \<and> c \<noteq> CHR ''='') base64_chars"
  by (simp add: base64_chars_def is_base64_def is_alnum_def)

lemma base64_char_ok:
  assumes "unat b < 64"
  shows "is_base64 (base64_char b)" and "base64_char b \<noteq> CHR ''=''" and "base64_find (base64_char b) = b"
proof -
  have "base64_char b \<in> set base64_chars" using assms by (simp add: base64_char_def)
  then show "is_base64 (base64_char b)" and "base64_char b \<noteq> CHR ''=''"
    using base64_chars_valid by (auto simp: list_all_iff)
  have "find_from 0 (base64_char b) base64_chars = word_of_nat (unat b)"
    using find_from_nth [OF distinct_base64_chars, of "unat b" 0] assms by (simp add: base64_char_def)
  then show "base64_find (base64_char b) = b"
    by (auto simp: base64_find_def bit_simps intro!: bit_word_eqI)
qed

section \<open>Groups of bits\<close>

lemma nat_less_8: "n < 8 \<longleftrightarrow> n = 0 \<or> n = 1 \<or> n = 2 \<or> n = 3 \<or> n = 4 \<or> n = 5 \<or> n = 6 \<or> n = (7::nat)"
  by auto

lemma byte_eqI: "(\<And>n. n < 8 \<Longrightarrow> bit a n = bit b n) \<Longrightarrow> a = (b :: byte)"
  by (rule bit_word_eqI) simp

lemma sums_are_ors:
  fixes a b c w x y z :: byte
  shows "push_bit 4 (a AND 0x03) + drop_bit 4 (b AND 0xf0) = push_bit 4 (a AND 0x03) OR drop_bit 4 (b AND 0xf0)"
    and "push_bit 2 (b AND 0x0f) + drop_bit 6 (c AND 0xc0) = push_bit 2 (b AND 0x0f) OR drop_bit 6 (c AND 0xc0)"
    and "push_bit 2 w + drop_bit 4 (x AND 0x30) = push_bit 2 w OR drop_bit 4 (x AND 0x30)"
    and "push_bit 4 (x AND 0xf) + drop_bit 2 (y AND 0x3c) = push_bit 4 (x AND 0xf) OR drop_bit 2 (y AND 0x3c)"
    and "push_bit 6 (y AND 0x3) + (c AND 0x3f) = push_bit 6 (y AND 0x3) OR (c AND 0x3f)"
  by (rule disjunctive_add_eq_or, rule byte_eqI, auto simp: bit_simps nat_less_8)+

lemma small_byte:
  assumes "\<not> bit b 6" and "\<not> bit b 7"
  shows "unat (b :: byte) < 64"
proof -
  have "b = b AND 0x3f" using assms by (intro byte_eqI) (auto simp: bit_simps nat_less_8)
  then have b: "b = take_bit 6 b" by (simp add: take_bit_eq_mask mask_eq_exp_minus_1)
  have "unat (take_bit 6 b) < 2 ^ 6" using take_bit_nat_less_exp [of 6 "unat b"] by (simp add: unsigned_take_bit_eq)
  with b show ?thesis by simp
qed

lemma group_small:
  "unat (drop_bit 2 (a AND 0xfc) :: byte) < 64"
  "unat (push_bit 4 (a AND 0x03) + drop_bit 4 (b AND 0xf0) :: byte) < 64"
  "unat (push_bit 2 (b AND 0x0f) + drop_bit 6 (c AND 0xc0) :: byte) < 64"
  "unat (c AND 0x3f :: byte) < 64"
  unfolding sums_are_ors by (rule small_byte; simp add: bit_simps)+

lemma bit_Suc_Suc:
  "bit a (Suc (Suc 0)) = bit (a :: byte) 2" "bit a (Suc (Suc (Suc 0))) = bit (a :: byte) 3"
  by (simp_all add: numeral_2_eq_2 numeral_3_eq_3)

lemma groups_back:
  fixes a b c :: byte
  defines "w \<equiv> drop_bit 2 (a AND 0xfc)"
    and "x \<equiv> push_bit 4 (a AND 0x03) + drop_bit 4 (b AND 0xf0)"
    and "y \<equiv> push_bit 2 (b AND 0x0f) + drop_bit 6 (c AND 0xc0)"
    and "z \<equiv> c AND 0x3f"
  shows "push_bit 2 w + drop_bit 4 (x AND 0x30) = a"
    and "push_bit 4 (x AND 0xf) + drop_bit 2 (y AND 0x3c) = b"
    and "push_bit 6 (y AND 0x3) + z = c"
  unfolding w_def x_def y_def z_def sums_are_ors
  by (rule byte_eqI, auto simp: bit_simps nat_less_8 bit_Suc_Suc)+

section \<open>The loops by groups\<close>

text \<open>The references: encoding by groups of three bytes, decoding by groups of four characters.\<close>

definition quad :: "byte \<Rightarrow> byte \<Rightarrow> byte \<Rightarrow> byte list" where
  "quad a b c = [char_array_4_0 [a, b, c], char_array_4_1 [a, b, c], char_array_4_2 [a, b, c], char_array_4_3 [a, b, c]]"

fun encode_groups :: "byte list \<Rightarrow> string" where
  "encode_groups (a # b # c # bs) = map base64_char (quad a b c) @ encode_groups bs"
| "encode_groups [a, b] = map base64_char (take 3 (quad a b 0)) @ ''=''"
| "encode_groups [a] = map base64_char (take 2 (quad a 0 0)) @ ''==''"
| "encode_groups [] = []"

fun decode_groups :: "byte list \<Rightarrow> byte list" where
  "decode_groups (w # x # y # z # ws) =
     [char_array_3_0 [w, x, y, z], char_array_3_1 [w, x, y, z], char_array_3_2 [w, x, y, z]] @ decode_groups ws"
| "decode_groups [w, x, y] = [char_array_3_0 [w, x, y], char_array_3_1 [w, x, y]]"
| "decode_groups [w, x] = [char_array_3_0 [w, x]]"
| "decode_groups ws = []"

lemma length_3_conv: "length a = 3 \<Longrightarrow> \<exists>x y z. a = [x, y, z]"
  by (auto simp: length_Suc_conv numeral_3_eq_3)

lemma length_4_conv: "length a = 4 \<Longrightarrow> \<exists>w x y z. a = [w, x, y, z]"
  by (auto simp: length_Suc_conv numeral_eq_Suc)

definition encode_tail :: "nat \<times> byte list \<times> string \<Rightarrow> string" where
  "encode_tail = (\<lambda>(i, a, ret).
     if i \<noteq> 0 then
        let a = fold (\<lambda>j a. a[j := 0]) [i..<3] a in
        ret @ map base64_char (take (i + 1) [char_array_4_0 a, char_array_4_1 a, char_array_4_2 a])
            @ replicate (3 - i) CHR ''=''
      else ret)"

lemma encode_three:
  "fold encode_step [x, y, z] (0, [p, q, r], ret) = (0, [x, y, z], ret @ map base64_char (quad x y z))"
  by (simp add: encode_step_def quad_def Let_def)

lemma encode_loop_groups:
  "length a = 3 \<Longrightarrow> encode_tail (fold encode_step bs (0, a, ret)) = ret @ encode_groups bs"
proof (induction bs arbitrary: a ret rule: encode_groups.induct)
  case (1 x y z bs)
  from length_3_conv [OF "1.prems"] obtain p q r where "a = [p, q, r]" by blast
  then have "fold encode_step (x # y # z # bs) (0, a, ret) =
      fold encode_step bs (0, [x, y, z], ret @ map base64_char (quad x y z))"
    using encode_three [of x y z p q r ret] by simp
  then show ?case using "1.IH" [of "[x, y, z]"] by simp
next
  case (2 x y)
  from length_3_conv [OF "2.prems"] obtain p q r where "a = [p, q, r]" by blast
  then show ?case
    by (simp add: encode_step_def encode_tail_def quad_def upt_rec numeral_3_eq_3 numeral_2_eq_2
        char_array_4_0_def char_array_4_1_def char_array_4_2_def)
next
  case (3 x)
  from length_3_conv [OF "3.prems"] obtain p q r where "a = [p, q, r]" by blast
  then show ?case
    by (simp add: encode_step_def encode_tail_def quad_def upt_rec numeral_3_eq_3 numeral_2_eq_2
        char_array_4_0_def char_array_4_1_def char_array_4_2_def)
next
  case 4
  then show ?case by (simp add: encode_tail_def)
qed

lemma base64_encode_groups: "length junk = 3 \<Longrightarrow> base64_encode junk bs = encode_groups bs"
  using encode_loop_groups [of junk bs "[]"]
  by (simp add: base64_encode_def encode_tail_def split_def Let_def)

lemma list_induct_by4 [case_names nil one two three four]:
  assumes "P []" and "\<And>a. P [a]" and "\<And>a b. P [a, b]" and "\<And>a b c. P [a, b, c]"
    and "\<And>a b c d xs. P xs \<Longrightarrow> P (a # b # c # d # xs)"
  shows "P xs"
proof (induction xs rule: length_induct)
  case (1 xs)
  then show ?case
    using assms by (cases xs; cases "tl xs"; cases "tl (tl xs)"; cases "tl (tl (tl xs))") auto
qed

lemma char_of_byte [simp]: "char_of (unat (of_char c :: byte)) = c"
proof -
  have "(of_char c :: byte) = word_of_nat (of_char c)" by (simp add: of_nat_of_char)
  moreover have "(of_char c :: nat) < 256" by (rule nat_of_char_less_256)
  ultimately show ?thesis by (simp add: unat_of_nat)
qed

definition decode_tail :: "nat \<times> byte list \<times> byte list \<Rightarrow> byte list" where
  "decode_tail = (\<lambda>(i, a, ret).
     if i \<noteq> 0 then
        let a = fold (\<lambda>j a. a[j := base64_find (char_of (unat (a ! j)))]) [0..<i] a in
        ret @ take (i - 1) [char_array_3_0 a, char_array_3_1 a]
      else ret)"

lemma decode_four:
  "fold decode_step [c, d, e, f] (0, [p, q, r, s], ret) =
     (0, map base64_find [c, d, e, f], ret @ decode_groups (map base64_find [c, d, e, f]))"
  by (simp add: decode_step_def Let_def)

lemma decode_loop_groups:
  "length a = 4 \<Longrightarrow> decode_tail (fold decode_step cs (0, a, ret)) = ret @ decode_groups (map base64_find cs)"
proof (induction cs arbitrary: a ret rule: list_induct_by4)
  case (four c d e f cs)
  from length_4_conv [OF four.prems] obtain p q r s where "a = [p, q, r, s]" by blast
  then have "fold decode_step (c # d # e # f # cs) (0, a, ret) =
      fold decode_step cs (0, map base64_find [c, d, e, f], ret @ decode_groups (map base64_find [c, d, e, f]))"
    using decode_four [of c d e f p q r s ret] by simp
  then show ?case using four.IH [of "map base64_find [c, d, e, f]"] by simp
qed (drule length_4_conv,
     auto simp: decode_step_def decode_tail_def Let_def upt_rec numeral_2_eq_2 numeral_3_eq_3
       char_array_3_0_def char_array_3_1_def)+

lemma decode_loop_takeWhile:
  "decode_loop cs st = fold decode_step (takeWhile (\<lambda>c. c \<noteq> CHR ''='' \<and> is_base64 c) cs) st"
  by (induction cs arbitrary: st) auto

lemma base64_decode_groups:
  "length junk = 4 \<Longrightarrow>
   base64_decode junk s = decode_groups (map base64_find (takeWhile (\<lambda>c. c \<noteq> CHR ''='' \<and> is_base64 c) s))"
  using decode_loop_groups [of junk "takeWhile (\<lambda>c. c \<noteq> CHR ''='' \<and> is_base64 c) s" "[]"]
  by (simp add: base64_decode_def decode_tail_def decode_loop_takeWhile split_def Let_def)

section \<open>Round trip\<close>

lemma quad_small: "\<forall>w \<in> set (quad a b c). unat w < 64"
  by (simp add: quad_def char_array_4_0_def char_array_4_1_def char_array_4_2_def char_array_4_3_def group_small [simplified])

lemma map_find_char: "\<forall>w \<in> set ws. unat w < 64 \<Longrightarrow> map base64_find (map base64_char ws) = ws"
  by (induction ws) (auto simp: base64_char_ok)

lemma valid_map_char:
  "\<forall>w \<in> set ws. unat w < 64 \<Longrightarrow>
   takeWhile (\<lambda>c. c \<noteq> CHR ''='' \<and> is_base64 c) (map base64_char ws @ cs) =
     map base64_char ws @ takeWhile (\<lambda>c. c \<noteq> CHR ''='' \<and> is_base64 c) cs"
  by (induction ws) (auto simp: base64_char_ok)

lemma decode_quad:
  "decode_groups (quad a b c @ ws) = [a, b, c] @ decode_groups ws"
  "decode_groups (take 3 (quad a b 0)) = [a, b]"
  "decode_groups (take 2 (quad a 0 0)) = [a]"
  using groups_back(1) [of a b] groups_back(2) [of a b c] groups_back(2) [of a b 0] groups_back(3) [of b c]
    groups_back(1) [of a 0]
  by (simp_all add: quad_def char_array_4_0_def char_array_4_1_def char_array_4_2_def char_array_4_3_def
      char_array_3_0_def char_array_3_1_def char_array_3_2_def)

lemma decode_encode_groups:
  "decode_groups (map base64_find (takeWhile (\<lambda>c. c \<noteq> CHR ''='' \<and> is_base64 c) (encode_groups bs))) = bs"
proof (induction bs rule: encode_groups.induct)
  case (1 a b c bs)
  then show ?case
    by (simp add: valid_map_char quad_small map_find_char [OF quad_small] decode_quad del: map_map)
next
  case (2 a b)
  have "\<forall>w \<in> set (take 3 (quad a b 0)). unat w < 64" using quad_small by (meson in_set_takeD)
  then show ?case by (simp add: valid_map_char map_find_char decode_quad del: map_map take_map)
next
  case (3 a)
  have "\<forall>w \<in> set (take 2 (quad a 0 0)). unat w < 64" using quad_small by (meson in_set_takeD)
  then show ?case by (simp add: valid_map_char map_find_char decode_quad del: map_map take_map)
qed simp

section \<open>Properties\<close>

text \<open>
  C30. Decoding undoes encoding, for every sequence of bytes whose encoding is short enough for
  the \<open>int\<close> that counts it, whatever the uninitialised work arrays of the two functions hold.
\<close>

theorem base64_round_trip:
  assumes "length junk3 = 3" and "length junk4 = 4" and "length bs < 2 ^ 30"
  shows "base64_decode junk4 (base64_encode junk3 bs) = bs"
  using assms by (simp add: base64_encode_groups base64_decode_groups decode_encode_groups)

theorem base64_round_trip_witness:
  "base64_decode [9, 9, 9, 9] (base64_encode [7, 7, 7] [0xff, 0, 0x42, 1]) = [0xff, 0, 0x42, 1]"
  by (rule base64_round_trip) simp_all

lemma encode_groups_shape:
  "length (encode_groups bs) = 4 * ((length bs + 2) div 3) \<and>
   (\<forall>c \<in> set (encode_groups bs). c \<in> set base64_chars \<or> c = CHR ''='')"
proof -
  have char: "unat w < 64 \<Longrightarrow> base64_char w \<in> set base64_chars" for w
    by (simp add: base64_char_def)
  have quad: "w \<in> set (quad a b c) \<Longrightarrow> base64_char w \<in> set base64_chars" for w a b c
    using quad_small char by blast
  have len: "length (quad a b c) = 4" for a b c by (simp add: quad_def)
  have step: "4 + 4 * (Suc (Suc n) div 3) = 4 * ((5 + n) div 3)" for n :: nat by arith
  show ?thesis
    by (induction bs rule: encode_groups.induct) (auto simp: len quad step dest!: in_set_takeD)
qed

text \<open>
  The encoded text has four characters for every three bytes begun, each of them a letter
  of the alphabet or the padding character.
\<close>

theorem base64_encode_shape:
  assumes "length junk3 = 3"
  shows "length (base64_encode junk3 bs) = 4 * ((length bs + 2) div 3) \<and>
         list_all (\<lambda>c. c \<in> set base64_chars \<or> c = CHR ''='') (base64_encode junk3 bs)"
  using assms encode_groups_shape by (simp add: base64_encode_groups list_all_iff)

theorem base64_encode_shape_witness:
  "length (base64_encode [7, 7, 7] [1, 2, 3, 4]) = 4 * ((length [1, 2, 3, 4 :: byte] + 2) div 3) \<and>
   list_all (\<lambda>c. c \<in> set base64_chars \<or> c = CHR ''='') (base64_encode [7, 7, 7] [1, 2, 3, 4])"
  by (rule base64_encode_shape) simp

end
