(* ===== verification/Pickle.thy ===== *)
theory Pickle
  imports Prelude
begin

text \<open>
  \<^verbatim>\<open>base/pickle/Pickle.cpp\<close> and the class \<^verbatim>\<open>Pickle\<close> of \<^verbatim>\<open>base/pickle/Pickle.h\<close>: values are appended to a
  growing block of memory that starts with a header. The block is a list of bytes, \<open>None\<close> when the
  pointer to it is null. Sizes and offsets are \<^verbatim>\<open>size_t\<close> and wrap; copying outside the block is the
  fault \<open>OutOfBounds\<close>. \<open>junk\<close> is what newly allocated memory holds; allocation does not fail.
  The machine is little-endian with a 64-bit \<^verbatim>\<open>long\<close> and a 32-bit \<^verbatim>\<open>wchar_t\<close>.
\<close>

unbundle bit_operations_syntax

section \<open>Numbers as bytes\<close>

primrec le_bytes :: "nat \<Rightarrow> 'a::len word \<Rightarrow> byte list" where
  "le_bytes 0 w = []"
| "le_bytes (Suc k) w = ucast w # le_bytes k (drop_bit 8 w)"

primrec from_le :: "byte list \<Rightarrow> 'a::len word" where
  "from_le [] = 0"
| "from_le (b # bs) = ucast b OR push_bit 8 (from_le bs)"

lemma length_le_bytes [simp]: "length (le_bytes k w) = k"
  by (induction k arbitrary: w) simp_all

lemma from_le_bytes: "from_le (le_bytes k w) = take_bit (8 * k) (w :: 'a::len word)"
proof (induction k arbitrary: w)
  case (Suc k)
  show ?case
    by (rule bit_word_eqI) (auto simp: Suc bit_simps)
qed simp

lemma from_le_bytes_full: "LENGTH('a::len) \<le> 8 * k \<Longrightarrow> from_le (le_bytes k w) = (w :: 'a word)"
  by (simp add: from_le_bytes take_bit_word_eq_self)

section \<open>State\<close>

record Pickle =
  header_ptr :: "byte list option"
  hdr_size :: size_t
  capacity_after_header :: size_t
  write_offset :: size_t

definition kPayloadUnit :: size_t where
  "kPayloadUnit = 64"

definition kCapacityReadOnly :: size_t where
  "kCapacityReadOnly = -1"

definition sizeof_Header :: size_t where
  "sizeof_Header = 4"

definition AlignInt :: "size_t \<Rightarrow> size_t \<Rightarrow> size_t" where
  "AlignInt i alignment = i + (alignment - (i mod alignment)) mod alignment"

definition header_payload_size :: "byte list \<Rightarrow> uint32" where
  "header_payload_size b = from_le (take 4 b)"

definition set_payload_size :: "uint32 \<Rightarrow> byte list \<Rightarrow> byte list" where
  "set_payload_size n b = le_bytes 4 n @ drop 4 b"

definition realloc :: "(nat \<Rightarrow> byte) \<Rightarrow> byte list option \<Rightarrow> size_t \<Rightarrow> byte list" where
  "realloc junk p n =
     (let old = (case p of None \<Rightarrow> [] | Some b \<Rightarrow> b) in
      map (\<lambda>i. if i < length old then old ! i else junk i) [0..<unat n])"

definition memcpy_at :: "nat \<Rightarrow> byte list \<Rightarrow> byte list \<Rightarrow> byte list result" where
  "memcpy_at off src b =
     (if off + length src \<le> length b then Inr (take off b @ src @ drop (off + length src) b)
      else Inl OutOfBounds)"

section \<open>Operations\<close>

definition Resize :: "(nat \<Rightarrow> byte) \<Rightarrow> size_t \<Rightarrow> Pickle \<Rightarrow> Pickle" where
  "Resize junk new_capacity P =
     (let new_capacity = AlignInt new_capacity kPayloadUnit in
      P\<lparr>header_ptr := Some (realloc junk (header_ptr P) (hdr_size P + new_capacity)),
        capacity_after_header := new_capacity\<rparr>)"

definition with_header :: "(byte list \<Rightarrow> byte list) \<Rightarrow> Pickle \<Rightarrow> Pickle result" where
  "with_header f P =
     (case header_ptr P of
        None \<Rightarrow> Inl NullDeref
      | Some b \<Rightarrow> if length b < 4 then Inl OutOfBounds else Inr (P\<lparr>header_ptr := Some (f b)\<rparr>))"

definition Pickle_new :: "(nat \<Rightarrow> byte) \<Rightarrow> Pickle result" where
  "Pickle_new junk =
     (let P = \<lparr>header_ptr = None, hdr_size = sizeof_Header, capacity_after_header = 0, write_offset = 0\<rparr> in
      with_header (set_payload_size 0) (Resize junk kPayloadUnit P))"

definition Pickle_new_header :: "(nat \<Rightarrow> byte) \<Rightarrow> 32 word \<Rightarrow> Pickle result" where
  "Pickle_new_header junk header_size =
     (let P = \<lparr>header_ptr = None, hdr_size = AlignInt (scast header_size) 4, capacity_after_header = 0, write_offset = 0\<rparr> in
      with_header (set_payload_size 0) (Resize junk kPayloadUnit P))"

text \<open>
  \<open>data\<close> is the memory from the given pointer on. The subtraction is done in 32-bit unsigned
  arithmetic, \<open>data_len\<close> being an \<^verbatim>\<open>int\<close> and the payload size a \<^verbatim>\<open>uint32_t\<close>.
\<close>

definition Pickle_from_data :: "byte list \<Rightarrow> 32 word \<Rightarrow> Pickle result" where
  "Pickle_from_data data data_len =
     (if 4 \<le> sint data_len \<and> length data < 4 then Inl OutOfBounds
      else
        let hs = (if 4 \<le> sint data_len then ucast (data_len - header_payload_size data) else 0) :: size_t;
            hs = (if hs > ucast data_len then 0 else hs);
            hs = (if hs \<noteq> AlignInt hs 4 then 0 else hs)
        in Inr \<lparr>header_ptr = (if hs = 0 then None else Some data), hdr_size = hs,
               capacity_after_header = kCapacityReadOnly, write_offset = 0\<rparr>)"

definition Pickle_copy :: "(nat \<Rightarrow> byte) \<Rightarrow> Pickle \<Rightarrow> Pickle result" where
  "Pickle_copy junk other =
     (let P = \<lparr>header_ptr = None, hdr_size = hdr_size other, capacity_after_header = 0,
               write_offset = write_offset other\<rparr> in
      case header_ptr other of
        None \<Rightarrow> Inl NullDeref
      | Some ob \<Rightarrow>
          if length ob < 4 then Inl OutOfBounds
          else
            let payload_size = hdr_size P + ucast (header_payload_size ob);
                P = Resize junk payload_size P in
            if unat payload_size > length ob then Inl OutOfBounds
            else
              bindr (memcpy_at 0 (take (unat payload_size) ob) (the (header_ptr P))) (\<lambda>b.
              Inr (P\<lparr>header_ptr := Some b\<rparr>)))"

definition Pickle_assign :: "(nat \<Rightarrow> byte) \<Rightarrow> Pickle \<Rightarrow> Pickle \<Rightarrow> Pickle result" where
  "Pickle_assign junk other P =
     (let P = (if capacity_after_header P = kCapacityReadOnly
               then P\<lparr>header_ptr := None, capacity_after_header := 0\<rparr> else P);
          P = (if hdr_size P \<noteq> hdr_size other
               then P\<lparr>header_ptr := None, hdr_size := hdr_size other\<rparr> else P) in
      case header_ptr other of
        None \<Rightarrow> Inl NullDeref
      | Some ob \<Rightarrow>
          if length ob < 4 then Inl OutOfBounds
          else
            let P = Resize junk (ucast (header_payload_size ob)) P;
                n = unat (hdr_size other + ucast (header_payload_size ob)) in
            if n > length ob then Inl OutOfBounds
            else
              bindr (memcpy_at 0 (take n ob) (the (header_ptr P))) (\<lambda>b.
              Inr (P\<lparr>header_ptr := Some b, write_offset := write_offset other\<rparr>)))"

text \<open>
  \<open>data\<close> is the memory the caller passes; copying more than it holds reads outside of it.
\<close>

definition WriteBytesCommon :: "(nat \<Rightarrow> byte) \<Rightarrow> byte list \<Rightarrow> size_t \<Rightarrow> Pickle \<Rightarrow> Pickle result" where
  "WriteBytesCommon junk data len P =
     (let data_len = AlignInt len 4;
          new_size = write_offset P + data_len;
          P = (if new_size > capacity_after_header P
               then Resize junk (max (capacity_after_header P * 2) new_size) P else P);
          at = unat (hdr_size P) + unat (write_offset P) in
      if unat len > length data then Inl OutOfBounds
      else
        case header_ptr P of
          None \<Rightarrow> Inl NullDeref
        | Some b \<Rightarrow>
            bindr (memcpy_at at (take (unat len) data) b) (\<lambda>b.
            bindr (memcpy_at (at + unat len) (replicate (unat (data_len - len)) 0) b) (\<lambda>b.
            bindr (with_header (set_payload_size (ucast new_size)) (P\<lparr>header_ptr := Some b\<rparr>)) (\<lambda>P.
            Inr (P\<lparr>write_offset := new_size\<rparr>)))))"

definition WriteBytesStatic :: "(nat \<Rightarrow> byte) \<Rightarrow> byte list \<Rightarrow> Pickle \<Rightarrow> Pickle result" where
  "WriteBytesStatic junk data P = WriteBytesCommon junk data (word_of_nat (length data)) P"

definition WriteBytes :: "(nat \<Rightarrow> byte) \<Rightarrow> byte list \<Rightarrow> 32 word \<Rightarrow> Pickle \<Rightarrow> (bool \<times> Pickle) result" where
  "WriteBytes junk data len P = bindr (WriteBytesCommon junk data (scast len) P) (\<lambda>P. Inr (True, P))"

definition WritePOD :: "(nat \<Rightarrow> byte) \<Rightarrow> nat \<Rightarrow> 'a::len word \<Rightarrow> Pickle \<Rightarrow> (bool \<times> Pickle) result" where
  "WritePOD junk sz value P = bindr (WriteBytesStatic junk (le_bytes sz value) P) (\<lambda>P. Inr (True, P))"

definition WriteInt :: "(nat \<Rightarrow> byte) \<Rightarrow> 32 word \<Rightarrow> Pickle \<Rightarrow> (bool \<times> Pickle) result" where
  "WriteInt junk value P = WritePOD junk 4 value P"

definition WriteBool :: "(nat \<Rightarrow> byte) \<Rightarrow> bool \<Rightarrow> Pickle \<Rightarrow> (bool \<times> Pickle) result" where
  "WriteBool junk value P = WriteInt junk (if value then 1 else 0) P"

definition WriteLong :: "(nat \<Rightarrow> byte) \<Rightarrow> 64 word \<Rightarrow> Pickle \<Rightarrow> (bool \<times> Pickle) result" where
  "WriteLong junk value P = WritePOD junk 8 value P"

definition WriteUInt16 :: "(nat \<Rightarrow> byte) \<Rightarrow> uint16 \<Rightarrow> Pickle \<Rightarrow> (bool \<times> Pickle) result" where
  "WriteUInt16 junk value P = WritePOD junk 2 value P"

definition WriteUInt32 :: "(nat \<Rightarrow> byte) \<Rightarrow> uint32 \<Rightarrow> Pickle \<Rightarrow> (bool \<times> Pickle) result" where
  "WriteUInt32 junk value P = WritePOD junk 4 value P"

definition WriteInt64 :: "(nat \<Rightarrow> byte) \<Rightarrow> 64 word \<Rightarrow> Pickle \<Rightarrow> (bool \<times> Pickle) result" where
  "WriteInt64 junk value P = WritePOD junk 8 value P"

definition WriteUInt64 :: "(nat \<Rightarrow> byte) \<Rightarrow> uint64 \<Rightarrow> Pickle \<Rightarrow> (bool \<times> Pickle) result" where
  "WriteUInt64 junk value P = WritePOD junk 8 value P"

text \<open>Floating-point numbers are copied as the words that represent them.\<close>

definition WriteFloat :: "(nat \<Rightarrow> byte) \<Rightarrow> 32 word \<Rightarrow> Pickle \<Rightarrow> (bool \<times> Pickle) result" where
  "WriteFloat junk value P = WritePOD junk 4 value P"

definition WriteDouble :: "(nat \<Rightarrow> byte) \<Rightarrow> 64 word \<Rightarrow> Pickle \<Rightarrow> (bool \<times> Pickle) result" where
  "WriteDouble junk value P = WritePOD junk 8 value P"

definition WriteString :: "(nat \<Rightarrow> byte) \<Rightarrow> byte list \<Rightarrow> Pickle \<Rightarrow> (bool \<times> Pickle) result" where
  "WriteString junk value P =
     bindr (WriteInt junk (word_of_nat (length value)) P) (\<lambda>(ok, P).
     if \<not> ok then Inr (False, P) else WriteBytes junk value (word_of_nat (length value)) P)"

definition WriteWString :: "(nat \<Rightarrow> byte) \<Rightarrow> 32 word list \<Rightarrow> Pickle \<Rightarrow> (bool \<times> Pickle) result" where
  "WriteWString junk value P =
     bindr (WriteInt junk (word_of_nat (length value)) P) (\<lambda>(ok, P).
     if \<not> ok then Inr (False, P)
     else WriteBytes junk (concat (map (le_bytes 4) value)) (word_of_nat (length value * 4)) P)"

definition WriteData :: "(nat \<Rightarrow> byte) \<Rightarrow> byte list \<Rightarrow> 32 word \<Rightarrow> Pickle \<Rightarrow> (bool \<times> Pickle) result" where
  "WriteData junk data len P =
     (if 0 \<le> sint len then
        bindr (WriteInt junk len P) (\<lambda>(ok, P).
        if ok then WriteBytes junk data len P else Inr (False, P))
      else Inr (False, P))"

definition Reserve :: "(nat \<Rightarrow> byte) \<Rightarrow> size_t \<Rightarrow> Pickle \<Rightarrow> Pickle" where
  "Reserve junk len P =
     (let data_len = AlignInt len 4; new_size = write_offset P + data_len in
      if new_size > capacity_after_header P
      then Resize junk (capacity_after_header P * 2 + new_size) P else P)"

definition payload_size :: "Pickle \<Rightarrow> size_t" where
  "payload_size P = (case header_ptr P of None \<Rightarrow> 0 | Some b \<Rightarrow> ucast (header_payload_size b))"

definition pickle_size :: "Pickle \<Rightarrow> size_t result" where
  "pickle_size P =
     (case header_ptr P of None \<Rightarrow> Inl NullDeref | Some b \<Rightarrow> Inr (hdr_size P + ucast (header_payload_size b)))"

text \<open>\<open>block\<close> is the memory between the two pointers; the result is a distance from the first.\<close>

definition FindNext :: "size_t \<Rightarrow> byte list \<Rightarrow> size_t option" where
  "FindNext header_size block =
     (let len = word_of_nat (length block) :: size_t in
      if len < sizeof_Header then None
      else
        let ps = ucast (header_payload_size block) in
        if len < header_size \<or> len - header_size < ps then None
        else Some (header_size + ps))"

section \<open>Arithmetic of sizes\<close>

lemma AlignInt_unat:
  assumes "0 < unat m" and "unat i + unat m < 2 ^ 64"
  shows "unat (AlignInt i m) = unat i + (unat m - unat i mod unat m) mod unat m"
proof -
  have im: "unat (i mod m) = unat i mod unat m" by (rule unat_mod_distrib)
  then have "i mod m \<le> m" using assms(1) by (simp add: word_le_nat_alt less_imp_le)
  then have "unat (m - i mod m) = unat m - unat i mod unat m" using im by (simp add: unat_sub)
  then have r: "unat ((m - i mod m) mod m) = (unat m - unat i mod unat m) mod unat m"
    by (simp add: unat_mod_distrib)
  have "(unat m - unat i mod unat m) mod unat m < unat m" using assms(1) by simp
  with assms(2) r show ?thesis by (simp add: AlignInt_def unat_word_ariths)
qed

lemma AlignInt_4: "unat i + 4 < 2 ^ 64 \<Longrightarrow> unat (AlignInt i 4) = unat i + (4 - unat i mod 4) mod 4"
  using AlignInt_unat [of 4 i] by simp

lemma AlignInt_64: "unat i + 64 < 2 ^ 64 \<Longrightarrow> unat (AlignInt i 64) = unat i + (64 - unat i mod 64) mod 64"
  using AlignInt_unat [of 64 i] by simp

section \<open>Invariant\<close>

text \<open>
  \<open>pickle_holds P bs\<close>: the block is as large as header and capacity say, the payload written so
  far is \<open>bs\<close>, and the header records its size.
\<close>

definition pickle_holds :: "Pickle \<Rightarrow> byte list \<Rightarrow> bool" where
  "pickle_holds P bs \<longleftrightarrow>
     (\<exists>b. header_ptr P = Some b \<and> 4 \<le> unat (hdr_size P) \<and> unat (hdr_size P) < 2 ^ 33 \<and>
       length b = unat (hdr_size P) + unat (capacity_after_header P) \<and>
       unat (capacity_after_header P) < 2 ^ 34 \<and>
       unat (write_offset P) = length bs \<and> length bs \<le> unat (capacity_after_header P) \<and> length bs < 2 ^ 32 \<and>
       take (length bs) (drop (unat (hdr_size P)) b) = bs \<and>
       header_payload_size b = word_of_nat (length bs))"

definition pad :: "byte list \<Rightarrow> byte list" where
  "pad bs = bs @ replicate ((4 - length bs mod 4) mod 4) 0"

lemma length_pad: "length (pad bs) = length bs + (4 - length bs mod 4) mod 4"
  by (simp add: pad_def)

lemma length_pad_mod: "length (pad bs) mod 4 = 0"
proof -
  have "length (pad bs) mod 4 = (length bs mod 4 + (4 - length bs mod 4)) mod 4"
    unfolding length_pad by (metis mod_add_eq mod_mod_trivial)
  also have "length bs mod 4 + (4 - length bs mod 4) = 4" by (rule le_add_diff_inverse) simp
  finally show ?thesis by simp
qed

lemma length_pad_bounds: "length bs \<le> length (pad bs)" "length (pad bs) < length bs + 4"
  by (simp_all add: length_pad)

lemma take_realloc:
  assumes "k \<le> length b" and "k \<le> unat n"
  shows "take k (realloc junk (Some b) n) = take k b"
  using assms by (intro nth_equalityI) (auto simp: realloc_def)

lemma length_realloc [simp]: "length (realloc junk p n) = unat n"
  by (simp add: realloc_def Let_def)

lemma unat_add_small: "unat a + unat b < 2 ^ 64 \<Longrightarrow> unat (a + b :: size_t) = unat a + unat b"
  by (simp add: unat_word_ariths)

lemma Resize_holds:
  assumes "pickle_holds P bs" and "length bs \<le> unat n" and "unat n < 2 ^ 34 - 64"
  shows "pickle_holds (Resize junk n P) bs" and "unat n \<le> unat (capacity_after_header (Resize junk n P))"
    and "hdr_size (Resize junk n P) = hdr_size P" and "write_offset (Resize junk n P) = write_offset P"
proof -
  let ?c = "AlignInt n 64"
  have c: "unat ?c = unat n + (64 - unat n mod 64) mod 64" using assms(3) by (intro AlignInt_64) simp
  have "(64 - unat n mod 64) mod 64 < (64::nat)" by simp
  with c assms(3) have c1: "unat n \<le> unat ?c" "unat ?c < 2 ^ 34" by simp_all
  from assms(1) obtain b where b: "header_ptr P = Some b" "4 \<le> unat (hdr_size P)" "unat (hdr_size P) < 2 ^ 33"
      "length b = unat (hdr_size P) + unat (capacity_after_header P)" "unat (write_offset P) = length bs"
      "length bs \<le> unat (capacity_after_header P)" "length bs < 2 ^ 32"
      "take (length bs) (drop (unat (hdr_size P)) b) = bs" "header_payload_size b = word_of_nat (length bs)"
    by (auto simp: pickle_holds_def)
  let ?b = "realloc junk (Some b) (hdr_size P + ?c)"
  have len: "unat (hdr_size P + ?c) = unat (hdr_size P) + unat ?c"
    using b(3) c1(2) by (intro unat_add_small) simp
  have keep: "take (unat (hdr_size P) + length bs) ?b = take (unat (hdr_size P) + length bs) b"
    using b(4,6) c1(1) assms(2) len by (intro take_realloc) simp_all
  have "take (length bs) (drop (unat (hdr_size P)) ?b) = bs"
    using arg_cong [OF keep, of "drop (unat (hdr_size P))"] b(8) by (simp add: take_drop add.commute)
  moreover have "header_payload_size ?b = header_payload_size b"
    using arg_cong [OF keep, of "take 4"] b(2) by (simp add: header_payload_size_def min_def)
  ultimately show "pickle_holds (Resize junk n P) bs"
    using b c1 len assms(2) by (simp add: pickle_holds_def Resize_def Let_def kPayloadUnit_def)
  show "unat n \<le> unat (capacity_after_header (Resize junk n P))"
    using c1(1) by (simp add: Resize_def Let_def kPayloadUnit_def)
qed (simp_all add: Resize_def Let_def)

lemma memcpy_at_fits: "off + length src \<le> length b \<Longrightarrow> memcpy_at off src b = Inr (take off b @ src @ drop (off + length src) b)"
  by (simp add: memcpy_at_def)

lemma length_memcpy: "memcpy_at off src b = Inr b' \<Longrightarrow> length b' = length b"
  by (auto simp: memcpy_at_def split: if_splits)

lemma drop_set_payload_size: "4 \<le> hs \<Longrightarrow> drop hs (set_payload_size n b) = drop hs b"
  by (simp add: set_payload_size_def)

text \<open>Copying and padding in a block that is large enough.\<close>

lemma write_block:
  assumes "hs + length bs + length (pad d) \<le> length b" and "4 \<le> hs"
    and "take (length bs) (drop hs b) = bs" and "z = replicate (length (pad d) - length d) 0"
  obtains b1 b2 where "memcpy_at (hs + length bs) d b = Inr b1"
    and "memcpy_at (hs + length bs + length d) z b1 = Inr b2"
    and "length b2 = length b" and "take (length bs + length (pad d)) (drop hs (set_payload_size n b2)) = bs @ pad d"
    and "length (set_payload_size n b2) = length b" and "header_payload_size (set_payload_size n b2) = n"
proof -
  let ?at = "hs + length bs"
  let ?b1 = "take ?at b @ d @ drop (?at + length d) b"
  let ?b2 = "take ?at b @ pad d @ drop (?at + length (pad d)) b"
  have padz: "pad d = d @ z" using assms(4) by (simp add: pad_def)
  have 1: "memcpy_at ?at d b = Inr ?b1"
    using assms(1) length_pad_bounds(1) [of d] by (intro memcpy_at_fits) simp
  have "length ?b1 = length b" using length_memcpy [OF 1] .
  then have 2: "memcpy_at (?at + length d) z ?b1 = Inr ?b2"
    using assms(1) padz by (simp add: memcpy_at_def min_def add.commute add.left_commute)
  have l2: "length ?b2 = length b" using assms(1) by simp
  have at: "take ?at b = take hs b @ bs" using assms(3) by (metis take_add)
  have hs: "length (take hs b) = hs" using assms(1) by simp
  have "drop hs (set_payload_size n ?b2) = drop hs ?b2"
    by (rule drop_set_payload_size [OF assms(2)])
  also have "\<dots> = bs @ pad d @ drop (?at + length (pad d)) b" using at hs by simp
  finally have "take (length bs + length (pad d)) (drop hs (set_payload_size n ?b2)) = bs @ pad d" by simp
  moreover have "header_payload_size (set_payload_size n ?b2) = n"
    by (simp add: header_payload_size_def set_payload_size_def from_le_bytes_full)
  moreover have "length (set_payload_size n ?b2) = length b"
    using l2 assms(1,2) by (simp add: set_payload_size_def)
  ultimately show thesis using 1 2 l2 by (intro that)
qed

lemma grown_holds:
  assumes "pickle_holds P bs" and "unat n < 2 ^ 32" and "length bs \<le> unat n"
    and "P1 = (if n > capacity_after_header P then Resize junk (max (capacity_after_header P * 2) n) P else P)"
  shows "pickle_holds P1 bs \<and> unat n \<le> unat (capacity_after_header P1) \<and> hdr_size P1 = hdr_size P \<and>
    write_offset P1 = write_offset P"
proof (cases "n > capacity_after_header P")
  let ?c = "capacity_after_header P"
  case True
  then have "unat ?c < unat n" by (simp add: word_less_nat_alt)
  with assms(2) have "unat (?c * 2) = unat ?c * 2" by (simp add: unat_word_ariths)
  with \<open>unat ?c < unat n\<close> assms(2) have m: "unat (max (?c * 2) n) < 2 ^ 34 - 64" "unat n \<le> unat (max (?c * 2) n)"
    by (auto simp: max_def word_le_nat_alt)
  note grown = Resize_holds [OF assms(1) order_trans [OF assms(3) m(2)] m(1), of junk]
  from True assms(4) have "P1 = Resize junk (max (?c * 2) n) P" by simp
  with grown m(2) show ?thesis by (metis order_trans)
next
  case False
  then have "unat n \<le> unat (capacity_after_header P)" by (simp add: word_le_nat_alt not_less)
  with False assms show ?thesis by simp
qed

lemma WriteBytesCommon_holds:
  assumes "pickle_holds P bs" and "unat len \<le> length data" and "length bs + unat len + 4 < 2 ^ 32"
  shows "\<exists>P'. WriteBytesCommon junk data len P = Inr P' \<and> pickle_holds P' (bs @ pad (take (unat len) data)) \<and>
           hdr_size P' = hdr_size P"
proof -
  let ?d = "take (unat len) data"
  have ld: "length ?d = unat len" using assms(2) by simp
  have dl: "unat (AlignInt len 4) = length (pad ?d)"
    using assms(3) by (simp add: AlignInt_4 length_pad min_absorb2 [OF assms(2)])
  have wo: "unat (write_offset P) = length bs" using assms(1) by (auto simp: pickle_holds_def)
  define n where "n = write_offset P + AlignInt len 4"
  have small: "length bs + length (pad ?d) < 2 ^ 32"
    using length_pad_bounds(2) [of ?d] ld assms(3) by linarith
  have n: "unat n = length bs + length (pad ?d)"
    using unat_add_small [of "write_offset P" "AlignInt len 4"] dl wo small by (simp add: n_def)
  have z: "unat (AlignInt len 4 - len) = length (pad ?d) - length ?d"
    using dl ld length_pad_bounds(1) [of ?d] by (simp add: unat_sub word_le_nat_alt)
  define P1 where "P1 = (if n > capacity_after_header P then Resize junk (max (capacity_after_header P * 2) n) P else P)"
  note P1 = grown_holds [OF assms(1) _ _ P1_def]
  from n small have P1': "pickle_holds P1 bs" "unat n \<le> unat (capacity_after_header P1)" "hdr_size P1 = hdr_size P"
    "write_offset P1 = write_offset P" using P1 by simp_all
  from P1'(1) obtain b where b: "header_ptr P1 = Some b" "4 \<le> unat (hdr_size P1)" "unat (hdr_size P1) < 2 ^ 33"
      "length b = unat (hdr_size P1) + unat (capacity_after_header P1)" "unat (capacity_after_header P1) < 2 ^ 34"
      "take (length bs) (drop (unat (hdr_size P1)) b) = bs"
    by (auto simp: pickle_holds_def)
  obtain b1 b2 where w: "memcpy_at (unat (hdr_size P1) + length bs) ?d b = Inr b1"
      "memcpy_at (unat (hdr_size P1) + length bs + length ?d) (replicate (length (pad ?d) - length ?d) 0) b1 = Inr b2"
      "length b2 = length b"
      "take (length bs + length (pad ?d)) (drop (unat (hdr_size P1)) (set_payload_size (ucast n) b2)) = bs @ pad ?d"
      "length (set_payload_size (ucast n) b2) = length b" "header_payload_size (set_payload_size (ucast n) b2) = ucast n"
    using write_block [of "unat (hdr_size P1)" bs ?d b _ "ucast n"] b(2,4,6) P1'(2) n by auto
  have u: "(ucast n :: uint32) = word_of_nat (length (bs @ pad ?d))" using n by (simp flip: n)
  have "WriteBytesCommon junk data len P = Inr (P1\<lparr>header_ptr := Some (set_payload_size (ucast n) b2), write_offset := n\<rparr>)"
    using assms(2) w(1-3) b(1,2,4) P1'(4) wo z ld
    unfolding WriteBytesCommon_def Let_def n_def [symmetric] P1_def [symmetric]
    by (simp add: with_header_def)
  then show ?thesis
    using w(4-6) b(2-5) P1'(2,3) n small u by (simp add: pickle_holds_def)
qed

end
