(* ===== verification/Pickle_Iterator.thy ===== *)
theory Pickle_Iterator
  imports Pickle
begin

text \<open>
  \<^verbatim>\<open>base/pickle/PickleIterator.cpp\<close>: reading values back. A pointer into the payload is an offset;
  \<open>None\<close> is the null pointer. \<open>payload_null\<close> says that the payload pointer itself is null, as it is for an
  iterator without a pickle and for a pickle that refused its data. The memory behind the payload
  pointer is \<open>payload_mem\<close>; reading beyond it is the fault \<open>OutOfBounds\<close>, which the range checks are
  there to prevent.
\<close>

section \<open>State and range checks\<close>

record PickleIterator =
  payload_null :: bool
  payload_mem :: "byte list"
  read_index :: size_t
  end_index :: size_t

definition PickleIterator_new :: "Pickle \<Rightarrow> PickleIterator" where
  "PickleIterator_new P =
     \<lparr>payload_null = (header_ptr P = None \<and> hdr_size P = 0),
      payload_mem = (case header_ptr P of None \<Rightarrow> [] | Some b \<Rightarrow> drop (unat (hdr_size P)) b),
      read_index = 0, end_index = payload_size P\<rparr>"

definition PickleIterator_empty :: PickleIterator where
  "PickleIterator_empty = \<lparr>payload_null = True, payload_mem = [], read_index = 0, end_index = 0\<rparr>"

text \<open>\<^verbatim>\<open>payload_ + read_index_\<close>; an iterator whose payload pointer is null has only the index 0.\<close>

definition current_read_ptr :: "PickleIterator \<Rightarrow> nat option" where
  "current_read_ptr I = (if payload_null I then None else Some (unat (read_index I)))"

definition Advance :: "size_t \<Rightarrow> PickleIterator \<Rightarrow> PickleIterator" where
  "Advance size' I =
     (let aligned_size = AlignInt size' 4 in
      if end_index I - read_index I < aligned_size then I\<lparr>read_index := end_index I\<rparr>
      else I\<lparr>read_index := read_index I + aligned_size\<rparr>)"

text \<open>The template version, for a type of size \<open>sz\<close>, and the one for a number of bytes.\<close>

definition GetReadPointer_type :: "size_t \<Rightarrow> PickleIterator \<Rightarrow> nat option \<times> PickleIterator" where
  "GetReadPointer_type sz I =
     (if sz > end_index I - read_index I then (None, I\<lparr>read_index := end_index I\<rparr>)
      else (current_read_ptr I, Advance sz I))"

definition GetReadPointer_bytes :: "32 word \<Rightarrow> PickleIterator \<Rightarrow> nat option \<times> PickleIterator" where
  "GetReadPointer_bytes num_bytes I =
     (if sint num_bytes < 0 \<or> end_index I - read_index I < scast num_bytes
      then (None, I\<lparr>read_index := end_index I\<rparr>)
      else (current_read_ptr I, Advance (scast num_bytes) I))"

text \<open>
  The version for a number of elements computes the product in 64 bits and compares it with its
  own low 32 bits, sign-extended.
\<close>

definition GetReadPointer_elements :: "32 word \<Rightarrow> size_t \<Rightarrow> PickleIterator \<Rightarrow> nat option \<times> PickleIterator" where
  "GetReadPointer_elements num_elements size_element I =
     (let num_bytes = scast num_elements * size_element :: 64 word;
          num_bytes32 = ucast num_bytes :: 32 word in
      if num_bytes \<noteq> scast num_bytes32 then (None, I) else GetReadPointer_bytes num_bytes32 I)"

text \<open>Reading \<open>n\<close> bytes of the payload at an offset.\<close>

definition load :: "nat \<Rightarrow> nat \<Rightarrow> PickleIterator \<Rightarrow> byte list result" where
  "load at n I =
     (if at + n \<le> length (payload_mem I) then Inr (take n (drop at (payload_mem I))) else Inl OutOfBounds)"

section \<open>Reading\<close>

text \<open>A read gives \<open>None\<close> where the function returns false.\<close>

definition ReadBuiltinType :: "nat \<Rightarrow> PickleIterator \<Rightarrow> (byte list option \<times> PickleIterator) result" where
  "ReadBuiltinType sz I =
     (let (p, I) = GetReadPointer_type (word_of_nat sz) I in
      case p of None \<Rightarrow> Inr (None, I) | Some at \<Rightarrow> bindr (load at sz I) (\<lambda>bs. Inr (Some bs, I)))"

definition read_word :: "nat \<Rightarrow> PickleIterator \<Rightarrow> ('a::len word option \<times> PickleIterator) result" where
  "read_word sz I = bindr (ReadBuiltinType sz I) (\<lambda>(v, I). Inr (map_option from_le v, I))"

text \<open>A byte other than 0 and 1 is not a \<^verbatim>\<open>bool\<close>.\<close>

definition ReadBool :: "PickleIterator \<Rightarrow> (bool option \<times> PickleIterator) result" where
  "ReadBool I =
     bindr (read_word 1 I) (\<lambda>(v, I).
     case v of
       None \<Rightarrow> Inr (None, I)
     | Some (b :: byte) \<Rightarrow> if b = 0 then Inr (Some False, I) else if b = 1 then Inr (Some True, I) else Inl UninitRead)"

definition ReadInt :: "PickleIterator \<Rightarrow> (32 word option \<times> PickleIterator) result" where
  "ReadInt I = read_word 4 I"

definition ReadLong :: "PickleIterator \<Rightarrow> (64 word option \<times> PickleIterator) result" where
  "ReadLong I = read_word 8 I"

definition ReadUInt16 :: "PickleIterator \<Rightarrow> (uint16 option \<times> PickleIterator) result" where
  "ReadUInt16 I = read_word 2 I"

definition ReadUInt32 :: "PickleIterator \<Rightarrow> (uint32 option \<times> PickleIterator) result" where
  "ReadUInt32 I = read_word 4 I"

definition ReadInt64 :: "PickleIterator \<Rightarrow> (64 word option \<times> PickleIterator) result" where
  "ReadInt64 I = read_word 8 I"

definition ReadUInt64 :: "PickleIterator \<Rightarrow> (uint64 option \<times> PickleIterator) result" where
  "ReadUInt64 I = read_word 8 I"

definition ReadFloat :: "PickleIterator \<Rightarrow> (32 word option \<times> PickleIterator) result" where
  "ReadFloat I = read_word 4 I"

definition ReadDouble :: "PickleIterator \<Rightarrow> (64 word option \<times> PickleIterator) result" where
  "ReadDouble I = read_word 8 I"

definition ReadBytes :: "32 word \<Rightarrow> PickleIterator \<Rightarrow> (nat option \<times> PickleIterator) result" where
  "ReadBytes len I = Inr (GetReadPointer_bytes len I)"

definition ReadString :: "PickleIterator \<Rightarrow> (byte list option \<times> PickleIterator) result" where
  "ReadString I =
     bindr (ReadInt I) (\<lambda>(len, I).
     case len of
       None \<Rightarrow> Inr (None, I)
     | Some len \<Rightarrow>
         let (p, I) = GetReadPointer_bytes len I in
         (case p of
            None \<Rightarrow> Inr (None, I)
          | Some at \<Rightarrow> bindr (load at (unat len) I) (\<lambda>bs. Inr (Some bs, I))))"

fun words_of :: "byte list \<Rightarrow> 32 word list" where
  "words_of (a # b # c # d # bs) = from_le [a, b, c, d] # words_of bs"
| "words_of bs = []"

definition ReadWString :: "PickleIterator \<Rightarrow> (32 word list option \<times> PickleIterator) result" where
  "ReadWString I =
     bindr (ReadInt I) (\<lambda>(len, I).
     case len of
       None \<Rightarrow> Inr (None, I)
     | Some len \<Rightarrow>
         let (p, I) = GetReadPointer_elements len 4 I in
         (case p of
            None \<Rightarrow> Inr (None, I)
          | Some at \<Rightarrow> bindr (load at (unat len * 4) I) (\<lambda>bs. Inr (Some (words_of bs), I))))"

definition ReadData :: "PickleIterator \<Rightarrow> ((nat \<times> 32 word) option \<times> PickleIterator) result" where
  "ReadData I =
     bindr (ReadInt I) (\<lambda>(len, I).
     case len of
       None \<Rightarrow> Inr (None, I)
     | Some len \<Rightarrow> bindr (ReadBytes len I) (\<lambda>(p, I). Inr (map_option (\<lambda>at. (at, len)) p, I)))"

definition ReadLength :: "PickleIterator \<Rightarrow> (32 word option \<times> PickleIterator) result" where
  "ReadLength I =
     bindr (ReadInt I) (\<lambda>(v, I).
     case v of None \<Rightarrow> Inr (None, I) | Some len \<Rightarrow> Inr (if 0 \<le> sint len then Some len else None, I))"

definition SkipBytes :: "32 word \<Rightarrow> PickleIterator \<Rightarrow> bool \<times> PickleIterator" where
  "SkipBytes num_bytes I = (let (p, I) = GetReadPointer_bytes num_bytes I in (p \<noteq> None, I))"

section \<open>Staying inside the payload\<close>

definition iter_ok :: "PickleIterator \<Rightarrow> bool" where
  "iter_ok I \<longleftrightarrow> read_index I \<le> end_index I \<and> unat (end_index I) \<le> length (payload_mem I)"

lemma iter_ok_left: "iter_ok I \<Longrightarrow> unat (end_index I - read_index I) = unat (end_index I) - unat (read_index I)"
  by (simp add: iter_ok_def unat_sub)

lemma Advance_ok:
  assumes "iter_ok I"
  shows "iter_ok (Advance n I)" and "payload_mem (Advance n I) = payload_mem I" and "end_index (Advance n I) = end_index I"
    and "payload_null (Advance n I) = payload_null I"
proof -
  show "iter_ok (Advance n I)"
  proof (cases "end_index I - read_index I < AlignInt n 4")
    case False
    then have "unat (AlignInt n 4) \<le> unat (end_index I) - unat (read_index I)"
      using iter_ok_left [OF assms] by (simp add: word_le_nat_alt not_less)
    moreover have "unat (end_index I) < 2 ^ 64" using unsigned_less [of "end_index I"] by simp
    ultimately have "unat (read_index I + AlignInt n 4) \<le> unat (end_index I)"
      using assms by (subst unat_add_small) (auto simp: iter_ok_def word_le_nat_alt)
    with False assms show ?thesis by (simp add: Advance_def iter_ok_def word_le_nat_alt)
  qed (use assms in \<open>simp add: Advance_def iter_ok_def\<close>)
qed (simp_all add: Advance_def Let_def)

text \<open>Whenever a pointer to \<open>n\<close> bytes is handed out, these bytes are in the payload.\<close>

lemma GetReadPointer_type_ok:
  assumes "iter_ok I" and "GetReadPointer_type sz I = (p, I')"
  shows "iter_ok I'" and "payload_mem I' = payload_mem I" and "p = Some at \<Longrightarrow> at + unat sz \<le> length (payload_mem I)"
  using assms iter_ok_left [OF assms(1)]
  by (auto simp: GetReadPointer_type_def current_read_ptr_def Advance_ok word_less_nat_alt not_less split: if_splits)
     (auto simp: iter_ok_def word_le_nat_alt)

lemma scast_nonneg:
  assumes "0 \<le> sint (n :: 32 word)"
  shows "(scast n :: size_t) = ucast n" and "unat (scast n :: size_t) = unat n"
proof -
  have "\<not> bit n 31" using assms bit_last_iff [of n] by simp
  then show "(scast n :: size_t) = ucast n"
    by (intro bit_word_eqI) (auto simp: bit_simps min_def le_less dest: bit_imp_le_length)
  moreover have "unat n < 2 ^ 64" by (rule less_trans [OF unsigned_less]) simp
  ultimately show "unat (scast n :: size_t) = unat n"
    by (simp add: unsigned_ucast_eq take_bit_nat_eq_self)
qed

lemma GetReadPointer_bytes_ok:
  assumes "iter_ok I" and "GetReadPointer_bytes n I = (p, I')"
  shows "iter_ok I'" and "payload_mem I' = payload_mem I"
    and "p = Some at \<Longrightarrow> 0 \<le> sint n \<and> at + unat n \<le> length (payload_mem I)"
proof -
  show "iter_ok I'" and "payload_mem I' = payload_mem I"
    using assms by (auto simp: GetReadPointer_bytes_def Advance_ok split: if_splits) (auto simp: iter_ok_def)
  assume "p = Some at"
  with assms(2) have n: "0 \<le> sint n" "\<not> end_index I - read_index I < scast n" and at: "at = unat (read_index I)"
    by (auto simp: GetReadPointer_bytes_def current_read_ptr_def split: if_splits)
  then have "unat n \<le> unat (end_index I) - unat (read_index I)"
    using scast_nonneg [OF n(1)] iter_ok_left [OF assms(1)] by (simp add: not_less word_le_nat_alt)
  with n(1) at assms(1) show "0 \<le> sint n \<and> at + unat n \<le> length (payload_mem I)"
    by (auto simp: iter_ok_def word_le_nat_alt)
qed

lemma sint_bounds: "- (2 ^ 31) \<le> sint (n :: 32 word)" "sint (n :: 32 word) < 2 ^ 31"
  using sint_range_size [of n] by (simp_all add: word_size)

lemma unat_sint_nonneg:
  assumes "0 \<le> sint (n :: 32 word)"
  shows "unat n = nat (sint n)"
proof -
  have "\<not> bit n 31" using assms bit_last_iff [of n] by simp
  moreover have "bit n m \<Longrightarrow> m < 32" for m using bit_imp_le_length [of n m] by simp
  moreover have "m < 32 \<Longrightarrow> m \<noteq> 31 \<Longrightarrow> m < 31" for m :: nat by simp
  ultimately have "m < 31" if "bit n m" for m using that by blast
  then have "take_bit 31 (uint n) = uint n"
    by (intro bit_eqI) (auto simp: bit_simps)
  with \<open>\<not> bit n 31\<close> have "sint n = uint n"
    by (simp add: sint_uint signed_take_bit_eq_if_positive bit_uint_iff)
  then show ?thesis by (simp only: unat_eq_nat_uint)
qed

lemma sint_of_int64: "sint (word_of_int k :: 64 word) = signed_take_bit 63 k"
  by (simp add: signed_of_int)

lemma sint_mult_4: "sint (scast (n :: 32 word) * 4 :: 64 word) = sint n * 4"
proof -
  have "scast n * 4 = (word_of_int (sint n * 4) :: 64 word)"
    by (simp only: of_int_mult of_int_numeral scast_eq)
  moreover have "signed_take_bit 63 (sint n * 4) = sint n * 4"
    using sint_bounds [of n] by (intro signed_take_bit_int_eq_self) simp_all
  ultimately show ?thesis by (simp only: sint_of_int64)
qed

lemma sint_scast_up: "sint (scast (n :: 32 word) :: 64 word) = sint n"
proof -
  have "signed_take_bit 63 (sint n) = sint n"
    using sint_bounds [of n] by (intro signed_take_bit_int_eq_self) simp_all
  then show ?thesis by (simp only: scast_eq sint_of_int64)
qed

lemma GetReadPointer_elements_ok:
  assumes "iter_ok I" and "GetReadPointer_elements n 4 I = (p, I')"
  shows "iter_ok I'" and "payload_mem I' = payload_mem I"
    and "p = Some at \<Longrightarrow> at + unat n * 4 \<le> length (payload_mem I)"
proof -
  let ?b = "scast n * 4 :: 64 word" and ?b32 = "ucast (scast n * 4 :: 64 word) :: 32 word"
  show "iter_ok I'" and "payload_mem I' = payload_mem I"
    using assms by (auto simp: GetReadPointer_elements_def Let_def dest: GetReadPointer_bytes_ok split: if_splits)
  assume "p = Some at"
  with assms(2) have b: "?b = scast ?b32" "GetReadPointer_bytes ?b32 I = (Some at, I')"
    by (auto simp: GetReadPointer_elements_def Let_def split: if_splits)
  have ok: "0 \<le> sint ?b32" "at + unat ?b32 \<le> length (payload_mem I)"
    using GetReadPointer_bytes_ok(3) [OF assms(1) b(2)] by simp_all
  have s: "sint ?b32 = sint n * 4" using sint_mult_4 [of n] b(1) by (metis sint_scast_up)
  then have "0 \<le> sint n" using ok(1) by simp
  have "unat ?b32 = unat n * 4"
    using s ok(1) \<open>0 \<le> sint n\<close> by (simp add: unat_sint_nonneg nat_mult_distrib)
  with ok(2) show "at + unat n * 4 \<le> length (payload_mem I)" by simp
qed

lemma load_ok: "at + n \<le> length (payload_mem I) \<Longrightarrow> load at n I = Inr (take n (drop at (payload_mem I)))"
  by (simp add: load_def)

definition safe_read :: "('v \<times> PickleIterator) result \<Rightarrow> PickleIterator \<Rightarrow> bool" where
  "safe_read r I \<longleftrightarrow> (\<exists>v I'. r = Inr (v, I') \<and> iter_ok I' \<and> payload_mem I' = payload_mem I)"

lemma safe_read_bindr:
  "safe_read r I \<Longrightarrow> (\<And>v I'. iter_ok I' \<Longrightarrow> payload_mem I' = payload_mem I \<Longrightarrow> safe_read (f (v, I')) I) \<Longrightarrow>
   safe_read (bindr r f) I"
  by (auto simp: safe_read_def)

lemma safe_ReadBuiltinType:
  assumes "iter_ok I" and "sz < 2 ^ 64"
  shows "safe_read (ReadBuiltinType sz I) I"
proof (cases "GetReadPointer_type (word_of_nat sz) I")
  case (Pair p I')
  note ok = GetReadPointer_type_ok [OF assms(1) Pair]
  have "unat (word_of_nat sz :: size_t) = sz" using assms(2) by (simp add: unat_of_nat)
  with Pair ok show ?thesis by (cases p) (auto simp: ReadBuiltinType_def safe_read_def load_ok)
qed

lemma safe_read_word: "iter_ok I \<Longrightarrow> sz < 2 ^ 64 \<Longrightarrow> safe_read (read_word sz I) I"
  unfolding read_word_def by (rule safe_read_bindr [OF safe_ReadBuiltinType]) (auto simp: safe_read_def)

lemma safe_ReadInt: "iter_ok I \<Longrightarrow> safe_read (ReadInt I) I"
  unfolding ReadInt_def by (rule safe_read_word) simp_all

lemma safe_ReadBytes:
  assumes "iter_ok I"
  shows "safe_read (ReadBytes n I) I"
proof -
  obtain p I' where "GetReadPointer_bytes n I = (p, I')" by fastforce
  with GetReadPointer_bytes_ok(1,2) [OF assms this] show ?thesis by (simp add: ReadBytes_def safe_read_def)
qed

lemma safe_ReadString:
  assumes "iter_ok I"
  shows "safe_read (ReadString I) I"
  unfolding ReadString_def
proof (rule safe_read_bindr [OF safe_ReadInt [OF assms]])
  fix v I'
  assume I': "iter_ok I'" "payload_mem I' = payload_mem I"
  show "safe_read (case (v, I') of (len, I) \<Rightarrow> case len of None \<Rightarrow> Inr (None, I)
      | Some len \<Rightarrow> let (p, I) = GetReadPointer_bytes len I in
          case p of None \<Rightarrow> Inr (None, I) | Some at \<Rightarrow> bindr (load at (unat len) I) (\<lambda>bs. Inr (Some bs, I))) I"
  proof (cases v)
    case (Some len)
    obtain p I'' where g: "GetReadPointer_bytes len I' = (p, I'')" by fastforce
    note ok = GetReadPointer_bytes_ok [OF I'(1) g]
    with Some g I' show ?thesis by (cases p) (auto simp: safe_read_def load_ok)
  qed (use I' in \<open>simp add: safe_read_def\<close>)
qed

lemma safe_ReadWString:
  assumes "iter_ok I"
  shows "safe_read (ReadWString I) I"
  unfolding ReadWString_def
proof (rule safe_read_bindr [OF safe_ReadInt [OF assms]])
  fix v I'
  assume I': "iter_ok I'" "payload_mem I' = payload_mem I"
  show "safe_read (case (v, I') of (len, I) \<Rightarrow> case len of None \<Rightarrow> Inr (None, I)
      | Some len \<Rightarrow> let (p, I) = GetReadPointer_elements len 4 I in
          case p of None \<Rightarrow> Inr (None, I) | Some at \<Rightarrow> bindr (load at (unat len * 4) I) (\<lambda>bs. Inr (Some (words_of bs), I))) I"
  proof (cases v)
    case (Some len)
    obtain p I'' where g: "GetReadPointer_elements len 4 I' = (p, I'')" by fastforce
    note ok = GetReadPointer_elements_ok [OF I'(1) g]
    with Some g I' show ?thesis by (cases p) (auto simp: safe_read_def load_ok)
  qed (use I' in \<open>simp add: safe_read_def\<close>)
qed

lemma safe_ReadData: "iter_ok I \<Longrightarrow> safe_read (ReadData I) I"
  unfolding ReadData_def
  by (rule safe_read_bindr [OF safe_ReadInt], assumption)
     (auto simp: safe_read_def ReadBytes_def split: option.split prod.split dest: GetReadPointer_bytes_ok)

lemma safe_ReadLength: "iter_ok I \<Longrightarrow> safe_read (ReadLength I) I"
  unfolding ReadLength_def
  by (rule safe_read_bindr [OF safe_ReadInt], assumption) (auto simp: safe_read_def split: option.split)

section \<open>Data from elsewhere\<close>

lemma ucast_up_unat: "unat (ucast (n :: 32 word) :: size_t) = unat n"
proof -
  have "unat n < 2 ^ 64" by (rule less_trans [OF unsigned_less]) simp
  then show ?thesis by (simp add: unsigned_ucast_eq take_bit_nat_eq_self)
qed

text \<open>What the constructor accepts is consistent: header and payload fill the data exactly.\<close>

lemma Pickle_from_data_accepted:
  assumes "Pickle_from_data data data_len = Inr P" and "header_ptr P = Some b" and "unat data_len = length data"
  shows "b = data" and "unat (hdr_size P) + unat (header_payload_size data) = length data"
proof -
  let ?ps = "header_payload_size data"
  from assms(1,2) have "b = data" and hs: "hdr_size P = ucast (data_len - ?ps)" and le: "\<not> hdr_size P > ucast data_len"
    by (auto simp: Pickle_from_data_def Let_def split: if_splits)
  then show "b = data" by simp
  from hs le have le': "unat (data_len - ?ps) \<le> unat data_len"
    by (simp add: word_le_nat_alt not_less ucast_up_unat)
  have "?ps \<le> data_len"
    using le' by (metis (no_types) word_le_nat_alt word_sub_le_iff)
  with hs assms(3) show "unat (hdr_size P) + unat ?ps = length data"
    by (simp add: ucast_up_unat unat_sub word_le_nat_alt)
qed

lemma iter_ok_from_data:
  assumes "Pickle_from_data data data_len = Inr P" and "unat data_len = length data"
  shows "iter_ok (PickleIterator_new P)"
proof (cases "header_ptr P")
  case None
  then show ?thesis by (simp add: iter_ok_def PickleIterator_new_def payload_size_def)
next
  case (Some b)
  with Pickle_from_data_accepted [OF assms(1) Some assms(2)] show ?thesis
    by (auto simp: iter_ok_def PickleIterator_new_def payload_size_def ucast_up_unat)
qed

section \<open>Values, written and read\<close>

datatype pickle_value =
    VBool bool | VInt "32 word" | VLong "64 word" | VUInt16 uint16 | VUInt32 uint32 | VInt64 "64 word"
  | VUInt64 uint64 | VFloat "32 word" | VDouble "64 word" | VString "byte list" | VData "byte list"

datatype pickle_type =
    TBool | TInt | TLong | TUInt16 | TUInt32 | TInt64 | TUInt64 | TFloat | TDouble | TString | TData

fun type_of :: "pickle_value \<Rightarrow> pickle_type" where
  "type_of (VBool _) = TBool" | "type_of (VInt _) = TInt" | "type_of (VLong _) = TLong"
| "type_of (VUInt16 _) = TUInt16" | "type_of (VUInt32 _) = TUInt32" | "type_of (VInt64 _) = TInt64"
| "type_of (VUInt64 _) = TUInt64" | "type_of (VFloat _) = TFloat" | "type_of (VDouble _) = TDouble"
| "type_of (VString _) = TString" | "type_of (VData _) = TData"

fun write_value :: "(nat \<Rightarrow> byte) \<Rightarrow> pickle_value \<Rightarrow> Pickle \<Rightarrow> (bool \<times> Pickle) result" where
  "write_value j (VBool b) = WriteBool j b"
| "write_value j (VInt w) = WriteInt j w"
| "write_value j (VLong w) = WriteLong j w"
| "write_value j (VUInt16 w) = WriteUInt16 j w"
| "write_value j (VUInt32 w) = WriteUInt32 j w"
| "write_value j (VInt64 w) = WriteInt64 j w"
| "write_value j (VUInt64 w) = WriteUInt64 j w"
| "write_value j (VFloat w) = WriteFloat j w"
| "write_value j (VDouble w) = WriteDouble j w"
| "write_value j (VString bs) = WriteString j bs"
| "write_value j (VData bs) = WriteData j bs (word_of_nat (length bs))"

definition typed :: "('a \<Rightarrow> pickle_value) \<Rightarrow> ('a option \<times> PickleIterator) result \<Rightarrow> (pickle_value option \<times> PickleIterator) result" where
  "typed f r = bindr r (\<lambda>(v, I). Inr (map_option f v, I))"

fun read_value :: "pickle_type \<Rightarrow> PickleIterator \<Rightarrow> (pickle_value option \<times> PickleIterator) result" where
  "read_value TBool I = typed VBool (ReadBool I)"
| "read_value TInt I = typed VInt (ReadInt I)"
| "read_value TLong I = typed VLong (ReadLong I)"
| "read_value TUInt16 I = typed VUInt16 (ReadUInt16 I)"
| "read_value TUInt32 I = typed VUInt32 (ReadUInt32 I)"
| "read_value TInt64 I = typed VInt64 (ReadInt64 I)"
| "read_value TUInt64 I = typed VUInt64 (ReadUInt64 I)"
| "read_value TFloat I = typed VFloat (ReadFloat I)"
| "read_value TDouble I = typed VDouble (ReadDouble I)"
| "read_value TString I = typed VString (ReadString I)"
| "read_value TData I =
     bindr (ReadData I) (\<lambda>(v, I).
     case v of None \<Rightarrow> Inr (None, I) | Some (at, n) \<Rightarrow> bindr (load at (unat n) I) (\<lambda>bs. Inr (Some (VData bs), I)))"

fun write_values :: "(nat \<Rightarrow> byte) \<Rightarrow> pickle_value list \<Rightarrow> Pickle \<Rightarrow> Pickle result" where
  "write_values j [] P = Inr P"
| "write_values j (v # vs) P = bindr (write_value j v P) (\<lambda>(ok, P). write_values j vs P)"

fun read_values :: "pickle_type list \<Rightarrow> PickleIterator \<Rightarrow> (pickle_value option list \<times> PickleIterator) result" where
  "read_values [] I = Inr ([], I)"
| "read_values (t # ts) I =
     bindr (read_value t I) (\<lambda>(v, I). bindr (read_values ts I) (\<lambda>(vs, I). Inr (v # vs, I)))"

text \<open>The bytes a value takes in the payload.\<close>

fun encoded :: "pickle_value \<Rightarrow> byte list" where
  "encoded (VBool b) = le_bytes 4 (if b then 1 else 0 :: 32 word)"
| "encoded (VInt w) = le_bytes 4 w"
| "encoded (VLong w) = le_bytes 8 w"
| "encoded (VUInt16 w) = pad (le_bytes 2 w)"
| "encoded (VUInt32 w) = le_bytes 4 w"
| "encoded (VInt64 w) = le_bytes 8 w"
| "encoded (VUInt64 w) = le_bytes 8 w"
| "encoded (VFloat w) = le_bytes 4 w"
| "encoded (VDouble w) = le_bytes 8 w"
| "encoded (VString bs) = le_bytes 4 (word_of_nat (length bs) :: 32 word) @ pad bs"
| "encoded (VData bs) = le_bytes 4 (word_of_nat (length bs) :: 32 word) @ pad bs"

lemma pad_le_bytes [simp]: "pad (le_bytes 4 w) = le_bytes 4 w" "pad (le_bytes 8 w) = le_bytes 8 w"
  by (simp_all add: pad_def)

lemma small_length:
  assumes "n < 2 ^ 31"
  shows "unat (word_of_nat n :: 32 word) = n" and "0 \<le> sint (word_of_nat n :: 32 word)"
    and "unat (scast (word_of_nat n :: 32 word) :: size_t) = n"
proof -
  show u: "unat (word_of_nat n :: 32 word) = n" using assms by (simp add: unat_of_nat)
  have "bit (unat (word_of_nat n :: 32 word)) 31 \<longleftrightarrow> bit (word_of_nat n :: 32 word) 31"
    by (simp only: bit_unsigned_iff) simp
  then have "\<not> bit (word_of_nat n :: 32 word) 31"
    using assms unfolding u by (simp add: bit_iff_odd)
  then show "0 \<le> sint (word_of_nat n :: 32 word)" using bit_last_iff [of "word_of_nat n :: 32 word"] by simp
  then show "unat (scast (word_of_nat n :: 32 word) :: size_t) = n" using u scast_nonneg(2) by simp
qed

lemma WritePOD_holds:
  assumes "pickle_holds P bs" and "length bs + sz + 4 < 2 ^ 32"
  shows "\<exists>P'. WritePOD junk sz w P = Inr (True, P') \<and> pickle_holds P' (bs @ pad (le_bytes sz w))"
proof -
  have "unat (word_of_nat sz :: size_t) = sz" using assms(2) by (simp add: unat_of_nat)
  then show ?thesis
    using WriteBytesCommon_holds [OF assms(1), of "word_of_nat sz" "le_bytes sz w" junk] assms(2)
    by (auto simp: WritePOD_def WriteBytesStatic_def)
qed

lemma WriteBytes_holds:
  assumes "pickle_holds P bs" and "length data < 2 ^ 31" and "length bs + length data + 4 < 2 ^ 32"
  shows "\<exists>P'. WriteBytes junk data (word_of_nat (length data)) P = Inr (True, P') \<and> pickle_holds P' (bs @ pad data)"
  using WriteBytesCommon_holds [OF assms(1), of "scast (word_of_nat (length data) :: 32 word)" data junk] assms(3)
    small_length(3) [OF assms(2)]
  by (auto simp: WriteBytes_def)

lemma WritePOD_sizes:
  assumes "pickle_holds P bs" and "length bs < 2 ^ 31"
  shows "\<exists>P'. WritePOD junk 4 (w :: 32 word) P = Inr (True, P') \<and> pickle_holds P' (bs @ le_bytes 4 w)"
    and "\<exists>P'. WritePOD junk 8 (x :: 64 word) P = Inr (True, P') \<and> pickle_holds P' (bs @ le_bytes 8 x)"
    and "\<exists>P'. WritePOD junk 2 (y :: uint16) P = Inr (True, P') \<and> pickle_holds P' (bs @ pad (le_bytes 2 y))"
  using WritePOD_holds [OF assms(1), of 4 junk w] WritePOD_holds [OF assms(1), of 8 junk x]
    WritePOD_holds [OF assms(1), of 2 junk y] assms(2) by simp_all

lemma write_value_holds:
  assumes "pickle_holds P bs" and "length bs + length (encoded v) + 8 < 2 ^ 31"
  shows "\<exists>P'. write_value junk v P = Inr (True, P') \<and> pickle_holds P' (bs @ encoded v)"
proof (cases v)
  case (VString d)
  have len: "length d < 2 ^ 31" "length (bs @ le_bytes 4 (word_of_nat (length d) :: 32 word)) + length d + 4 < 2 ^ 32"
    using assms(2) VString length_pad_bounds(1) [of d] by simp_all
  obtain P1 where P1: "WriteInt junk (word_of_nat (length d)) P = Inr (True, P1)"
    "pickle_holds P1 (bs @ le_bytes 4 (word_of_nat (length d) :: 32 word))"
    using WritePOD_holds [OF assms(1), of 4 junk "word_of_nat (length d) :: 32 word"] assms(2)
    by (auto simp: WriteInt_def)
  from WriteBytes_holds [OF P1(2) len] P1(1) VString show ?thesis by (auto simp: WriteString_def)
next
  case (VData d)
  have len: "length d < 2 ^ 31" "length (bs @ le_bytes 4 (word_of_nat (length d) :: 32 word)) + length d + 4 < 2 ^ 32"
    using assms(2) VData length_pad_bounds(1) [of d] by simp_all
  obtain P1 where P1: "WriteInt junk (word_of_nat (length d)) P = Inr (True, P1)"
    "pickle_holds P1 (bs @ le_bytes 4 (word_of_nat (length d) :: 32 word))"
    using WritePOD_holds [OF assms(1), of 4 junk "word_of_nat (length d) :: 32 word"] assms(2)
    by (auto simp: WriteInt_def)
  from WriteBytes_holds [OF P1(2) len, of junk] P1(1) VData small_length(2) [OF len(1)] show ?thesis
    by (auto simp: WriteData_def)
qed (use assms(2) in \<open>simp_all add: WritePOD_sizes [OF assms(1)] WriteBool_def WriteInt_def WriteLong_def WriteUInt16_def
       WriteUInt32_def WriteInt64_def WriteUInt64_def WriteFloat_def WriteDouble_def\<close>)

lemma write_values_holds:
  assumes "pickle_holds P bs" and "length bs + length (concat (map encoded vs)) + 8 < 2 ^ 31"
  shows "\<exists>P'. write_values junk vs P = Inr P' \<and> pickle_holds P' (bs @ concat (map encoded vs))"
  using assms
proof (induction vs arbitrary: P bs)
  case (Cons v vs)
  then obtain P1 where "write_value junk v P = Inr (True, P1)" "pickle_holds P1 (bs @ encoded v)"
    using write_value_holds [OF Cons.prems(1), of v junk] by auto
  with Cons.IH [of P1 "bs @ encoded v"] Cons.prems(2) show ?case by simp
qed simp

lemma Pickle_new_holds: "\<exists>P. Pickle_new junk = Inr P \<and> pickle_holds P []"
proof -
  have "AlignInt 64 64 = 64" by (simp add: AlignInt_def)
  then show ?thesis
    by (simp add: Pickle_new_def Resize_def Let_def kPayloadUnit_def sizeof_Header_def with_header_def pickle_holds_def
        header_payload_size_def set_payload_size_def from_le_bytes_full)
qed

section \<open>Reading what was written\<close>

definition remaining :: "PickleIterator \<Rightarrow> byte list" where
  "remaining I = take (unat (end_index I) - unat (read_index I)) (drop (unat (read_index I)) (payload_mem I))"

lemma length_remaining: "iter_ok I \<Longrightarrow> length (remaining I) = unat (end_index I - read_index I)"
  by (auto simp: remaining_def iter_ok_left iter_ok_def word_le_nat_alt)

lemma remaining_split:
  assumes "iter_ok I" and "remaining I = d @ rest"
  shows "unat (read_index I) + length d \<le> length (payload_mem I)"
    and "take (length d) (drop (unat (read_index I)) (payload_mem I)) = d"
proof -
  have l: "length d \<le> unat (end_index I) - unat (read_index I)"
    using arg_cong [OF assms(2), of length] length_remaining [OF assms(1)] iter_ok_left [OF assms(1)] by simp
  with assms(1) show "unat (read_index I) + length d \<le> length (payload_mem I)"
    by (auto simp: iter_ok_def word_le_nat_alt)
  have "take (length d) (remaining I) = d" using assms(2) by simp
  with l show "take (length d) (drop (unat (read_index I)) (payload_mem I)) = d"
    by (simp add: remaining_def min_def)
qed

lemma Advance_remaining:
  assumes "iter_ok I" and "remaining I = d @ rest" and "unat (AlignInt n 4) = length d"
  shows "remaining (Advance n I) = rest"
proof -
  have left: "unat (end_index I - read_index I) = length d + length rest"
    using length_remaining [OF assms(1)] assms(2) by simp
  then have "\<not> end_index I - read_index I < AlignInt n 4" using assms(3) by (simp add: word_less_nat_alt)
  then have A: "Advance n I = I\<lparr>read_index := read_index I + AlignInt n 4\<rparr>" by (simp add: Advance_def)
  have e: "unat (end_index I) - unat (read_index I) = length d + length rest"
    using left iter_ok_left [OF assms(1)] by simp
  have "unat (end_index I) < 2 ^ 64" by (rule less_le_trans [OF unsigned_less]) simp
  with e assms(1,3) have r: "unat (read_index I + AlignInt n 4) = unat (read_index I) + length d"
    by (subst unat_add_small) (auto simp: iter_ok_def word_le_nat_alt)
  have e': "unat (end_index I) - (length d + unat (read_index I)) = length rest" using e by simp
  have "remaining (Advance n I) = drop (length d) (remaining I)"
    using e e' by (simp add: remaining_def A r drop_take add.commute)
  with assms(2) show ?thesis by simp
qed

text \<open>What is read is behind a payload pointer that is not null.\<close>

definition at_payload :: "PickleIterator \<Rightarrow> bool" where
  "at_payload I \<longleftrightarrow> iter_ok I \<and> \<not> payload_null I"

lemma at_payloadD: "at_payload I \<Longrightarrow> iter_ok I"
  by (simp add: at_payload_def)

lemma Advance_at: "at_payload I \<Longrightarrow> at_payload (Advance n I)"
  by (simp add: at_payload_def Advance_ok)

lemma read_type_remaining:
  assumes "at_payload I" and "remaining I = pad d @ rest" and "length d = sz" and "sz < 2 ^ 31"
  obtains I' where "ReadBuiltinType sz I = Inr (Some d, I')" and "at_payload I'" and "remaining I' = rest"
proof -
  have sz: "unat (word_of_nat sz :: size_t) = sz" using assms(4) by (simp add: unat_of_nat)
  have split: "remaining I = d @ (drop sz (pad d) @ rest)" using assms(2,3) by (simp add: pad_def)
  have "\<not> (word_of_nat sz :: size_t) > end_index I - read_index I"
    using length_remaining [OF assms(1) [THEN at_payloadD]] split assms(3) by (simp add: word_less_nat_alt sz)
  then have "GetReadPointer_type (word_of_nat sz) I = (Some (unat (read_index I)), Advance (word_of_nat sz) I)"
    using assms(1) by (simp add: GetReadPointer_type_def current_read_ptr_def at_payload_def)
  moreover have "load (unat (read_index I)) sz (Advance (word_of_nat sz) I) = Inr d"
    using remaining_split [OF assms(1) [THEN at_payloadD] split] assms(3) Advance_ok(2) [OF assms(1) [THEN at_payloadD]] by (simp add: load_def)
  moreover have "unat (AlignInt (word_of_nat sz) 4) = length (pad d)"
    using assms(3,4) sz by (simp add: AlignInt_4 length_pad)
  ultimately show thesis
    using Advance_remaining [OF assms(1) [THEN at_payloadD] assms(2)] Advance_at [OF assms(1)]
    by (intro that [of "Advance (word_of_nat sz) I"]) (simp_all add: ReadBuiltinType_def)
qed

lemma read_word_remaining:
  assumes "at_payload I" and "remaining I = pad (le_bytes sz (w :: 'a::len word)) @ rest" and "sz < 2 ^ 31"
    and "LENGTH('a) \<le> 8 * sz"
  obtains I' where "read_word sz I = Inr (Some w, I')" and "at_payload I'" and "remaining I' = rest"
proof -
  obtain I' where "ReadBuiltinType sz I = Inr (Some (le_bytes sz w), I')" "at_payload I'" "remaining I' = rest"
    using read_type_remaining [OF assms(1,2) _ assms(3)] by auto
  with assms(4) show thesis by (intro that [of I']) (auto simp: read_word_def from_le_bytes_full)
qed

lemma read_bytes_remaining:
  assumes "at_payload I" and "remaining I = pad d @ rest" and "length d < 2 ^ 31"
  obtains I' where "GetReadPointer_bytes (word_of_nat (length d)) I = (Some (unat (read_index I)), I')"
    and "load (unat (read_index I)) (length d) I' = Inr d" and "at_payload I'" and "remaining I' = rest"
proof -
  let ?n = "word_of_nat (length d) :: 32 word" and ?m = "scast (word_of_nat (length d) :: 32 word) :: size_t"
  note n = small_length [OF assms(3)]
  have split: "remaining I = d @ (drop (length d) (pad d) @ rest)" using assms(2) by (simp add: pad_def)
  have "\<not> end_index I - read_index I < ?m"
    using length_remaining [OF assms(1) [THEN at_payloadD]] split by (simp add: word_less_nat_alt n(3))
  then have "GetReadPointer_bytes ?n I = (Some (unat (read_index I)), Advance ?m I)"
    using n(2) assms(1) by (simp add: GetReadPointer_bytes_def current_read_ptr_def at_payload_def)
  moreover have "load (unat (read_index I)) (length d) (Advance ?m I) = Inr d"
    using remaining_split [OF assms(1) [THEN at_payloadD] split] Advance_ok(2) [OF assms(1) [THEN at_payloadD]] by (simp add: load_def)
  moreover have "unat (AlignInt ?m 4) = length (pad d)"
    using assms(3) n(3) by (simp add: AlignInt_4 length_pad)
  ultimately show thesis
    using Advance_remaining [OF assms(1) [THEN at_payloadD] assms(2)] Advance_at [OF assms(1)] by (intro that [of "Advance ?m I"]) simp_all
qed

lemma bool_bytes: "le_bytes 4 (if b then 1 else 0 :: 32 word) = pad (le_bytes 1 (if b then 1 else 0 :: byte))"
  by (cases b; simp only: if_True if_False simp_thms; code_simp)

lemma read_typed:
  assumes "at_payload I" and "remaining I = pad (le_bytes sz (w :: 'a::len word)) @ rest" and "sz < 2 ^ 31"
    and "LENGTH('a) \<le> 8 * sz"
  shows "\<exists>I'. typed f (read_word sz I) = Inr (Some (f w), I') \<and> at_payload I' \<and> remaining I' = rest"
proof -
  obtain I' where "read_word sz I = Inr (Some w, I')" "at_payload I'" "remaining I' = rest"
    by (rule read_word_remaining [OF assms])
  then show ?thesis by (simp add: typed_def)
qed

text \<open>A length and that many bytes: what strings and data have in common.\<close>

lemma read_sized_remaining:
  assumes "at_payload I" and "remaining I = pad (le_bytes 4 (word_of_nat (length d) :: 32 word)) @ (pad d @ rest)"
    and "length (pad d) < 2 ^ 31"
  obtains I1 I' where "read_word 4 I = Inr (Some (word_of_nat (length d) :: 32 word), I1)"
    and "GetReadPointer_bytes (word_of_nat (length d)) I1 = (Some (unat (read_index I1)), I')"
    and "load (unat (read_index I1)) (length d) I' = Inr d" and "at_payload I'" and "remaining I' = rest"
    and "length d < 2 ^ 31"
proof -
  have len: "length d < 2 ^ 31" using assms(3) length_pad_bounds(1) [of d] by simp
  obtain I1 where I1: "read_word 4 I = Inr (Some (word_of_nat (length d) :: 32 word), I1)" "at_payload I1" "remaining I1 = pad d @ rest"
    using read_word_remaining [OF assms(1,2)] by auto
  from read_bytes_remaining [OF I1(2,3) len] I1(1) len that show thesis by blast
qed

lemma read_value_sized:
  assumes "at_payload I" and "remaining I = encoded v @ rest" and "length (encoded v) < 2 ^ 31"
    and "v = VString d \<or> v = VData d"
  shows "\<exists>I'. read_value (type_of v) I = Inr (Some v, I') \<and> at_payload I' \<and> remaining I' = rest"
proof -
  from assms(2-4) have "remaining I = pad (le_bytes 4 (word_of_nat (length d) :: 32 word)) @ (pad d @ rest)" "length (pad d) < 2 ^ 31"
    by auto
  then obtain I1 I' where "read_word 4 I = Inr (Some (word_of_nat (length d) :: 32 word), I1)"
    "GetReadPointer_bytes (word_of_nat (length d)) I1 = (Some (unat (read_index I1)), I')"
    "load (unat (read_index I1)) (length d) I' = Inr d" "at_payload I'" "remaining I' = rest" "length d < 2 ^ 31"
    by (rule read_sized_remaining [OF assms(1)])
  with assms(4) small_length(1) show ?thesis
    by (auto simp: typed_def ReadString_def ReadData_def ReadBytes_def ReadInt_def)
qed

lemma read_value_remaining:
  assumes "at_payload I" and "remaining I = encoded v @ rest" and "length (encoded v) < 2 ^ 31"
  shows "\<exists>I'. read_value (type_of v) I = Inr (Some v, I') \<and> at_payload I' \<and> remaining I' = rest"
proof (cases v)
  case (VBool b)
  obtain I' where "read_word 1 I = Inr (Some (if b then 1 else 0 :: byte), I')" "at_payload I'" "remaining I' = rest"
    using read_word_remaining [OF assms(1), of 1 "if b then 1 else 0 :: byte" rest] assms(2) VBool bool_bytes [of b] by auto
  with VBool show ?thesis by (auto simp: typed_def ReadBool_def)
next
  case (VString d)
  then show ?thesis by (intro read_value_sized [OF assms]) simp
next
  case (VData d)
  then show ?thesis by (intro read_value_sized [OF assms]) simp
next
  case (VUInt16 w)
  then show ?thesis using read_typed [OF assms(1), of 2 w rest VUInt16] assms(2) by (simp add: ReadUInt16_def)
next
  case (VInt w)
  then show ?thesis using read_typed [OF assms(1), of 4 w rest VInt] assms(2) by (simp add: ReadInt_def)
next
  case (VLong w)
  then show ?thesis using read_typed [OF assms(1), of 8 w rest VLong] assms(2) by (simp add: ReadLong_def)
next
  case (VUInt32 w)
  then show ?thesis using read_typed [OF assms(1), of 4 w rest VUInt32] assms(2) by (simp add: ReadUInt32_def)
next
  case (VInt64 w)
  then show ?thesis using read_typed [OF assms(1), of 8 w rest VInt64] assms(2) by (simp add: ReadInt64_def)
next
  case (VUInt64 w)
  then show ?thesis using read_typed [OF assms(1), of 8 w rest VUInt64] assms(2) by (simp add: ReadUInt64_def)
next
  case (VFloat w)
  then show ?thesis using read_typed [OF assms(1), of 4 w rest VFloat] assms(2) by (simp add: ReadFloat_def)
next
  case (VDouble w)
  then show ?thesis using read_typed [OF assms(1), of 8 w rest VDouble] assms(2) by (simp add: ReadDouble_def)
qed

lemma read_values_remaining:
  assumes "at_payload I" and "remaining I = concat (map encoded vs) @ rest" and "length (concat (map encoded vs)) < 2 ^ 31"
  shows "\<exists>I'. read_values (map type_of vs) I = Inr (map Some vs, I')"
  using assms
proof (induction vs arbitrary: I)
  case (Cons v vs)
  obtain I1 where "read_value (type_of v) I = Inr (Some v, I1)" "at_payload I1" "remaining I1 = concat (map encoded vs) @ rest"
    using read_value_remaining [OF Cons.prems(1), of v "concat (map encoded vs) @ rest"] Cons.prems(2,3) by auto
  with Cons.IH [of I1] Cons.prems(3) show ?case by auto
qed simp

lemma iter_of_holds:
  assumes "pickle_holds P bs"
  shows "at_payload (PickleIterator_new P)" and "remaining (PickleIterator_new P) = bs"
proof -
  from assms obtain b where b: "header_ptr P = Some b" "length b = unat (hdr_size P) + unat (capacity_after_header P)"
      "length bs \<le> unat (capacity_after_header P)" "length bs < 2 ^ 32" "take (length bs) (drop (unat (hdr_size P)) b) = bs"
      "header_payload_size b = word_of_nat (length bs)"
    by (auto simp: pickle_holds_def)
  have e: "unat (payload_size P) = length bs"
    using b(1,4,6) by (simp add: payload_size_def ucast_up_unat unat_of_nat)
  with b show "at_payload (PickleIterator_new P)" "remaining (PickleIterator_new P) = bs"
    by (simp_all add: PickleIterator_new_def at_payload_def iter_ok_def remaining_def)
qed

section \<open>Properties\<close>

text \<open>
  What is written to a pickle is what is read from it: any sequence of values of any of the
  supported types, written to a new pickle, is read back unchanged by reading the same types in
  the same order, however often the block had to grow and whatever freshly allocated memory
  held, as long as the payload stays below two gigabytes.
\<close>

theorem pickle_round_trip:
  assumes "length (concat (map encoded vs)) + 8 < 2 ^ 31"
  shows "\<exists>P I. bindr (Pickle_new junk) (write_values junk vs) = Inr P \<and>
           read_values (map type_of vs) (PickleIterator_new P) = Inr (map Some vs, I)"
proof -
  obtain P0 where P0: "Pickle_new junk = Inr P0" "pickle_holds P0 []" using Pickle_new_holds by blast
  obtain P where P: "write_values junk vs P0 = Inr P" "pickle_holds P (concat (map encoded vs))"
    using write_values_holds [OF P0(2), of vs junk] assms by auto
  have "\<exists>I. read_values (map type_of vs) (PickleIterator_new P) = Inr (map Some vs, I)"
    using read_values_remaining [OF iter_of_holds(1) [OF P(2)], of vs "[]"] iter_of_holds(2) [OF P(2)] assms by auto
  with P0 P show ?thesis by auto
qed

theorem pickle_round_trip_witness:
  "\<exists>P I. bindr (Pickle_new (\<lambda>_. 0xAA)) (write_values (\<lambda>_. 0xAA) [VBool True, VString [1, 2, 3], VUInt16 513]) = Inr P \<and>
     read_values [TBool, TString, TUInt16] (PickleIterator_new P) =
       Inr ([Some (VBool True), Some (VString [1, 2, 3]), Some (VUInt16 513)], I)"
  using pickle_round_trip [of "[VBool True, VString [1, 2, 3], VUInt16 513]" "\<lambda>_. 0xAA"] by (simp add: length_pad)

datatype read_op =
    Op_Int | Op_Long | Op_UInt16 | Op_UInt32 | Op_Int64 | Op_UInt64 | Op_Float | Op_Double
  | Op_String | Op_WString | Op_Data | Op_Bytes "32 word" | Op_Length | Op_Skip "32 word"

fun run_read :: "read_op \<Rightarrow> PickleIterator \<Rightarrow> PickleIterator result" where
  "run_read Op_Int I = map_sum id snd (ReadInt I)"
| "run_read Op_Long I = map_sum id snd (ReadLong I)"
| "run_read Op_UInt16 I = map_sum id snd (ReadUInt16 I)"
| "run_read Op_UInt32 I = map_sum id snd (ReadUInt32 I)"
| "run_read Op_Int64 I = map_sum id snd (ReadInt64 I)"
| "run_read Op_UInt64 I = map_sum id snd (ReadUInt64 I)"
| "run_read Op_Float I = map_sum id snd (ReadFloat I)"
| "run_read Op_Double I = map_sum id snd (ReadDouble I)"
| "run_read (Op_Skip n) I = Inr (snd (SkipBytes n I))"
| "run_read Op_String I = map_sum id snd (ReadString I)"
| "run_read Op_WString I = map_sum id snd (ReadWString I)"
| "run_read Op_Data I = map_sum id snd (ReadData I)"
| "run_read (Op_Bytes n) I = map_sum id snd (ReadBytes n I)"
| "run_read Op_Length I = map_sum id snd (ReadLength I)"

lemma safe_run: "safe_read r I \<Longrightarrow> \<exists>I'. map_sum id snd r = Inr I' \<and> iter_ok I'"
  by (auto simp: safe_read_def)

lemma safe_SkipBytes: "iter_ok I \<Longrightarrow> iter_ok (snd (SkipBytes n I))"
  using GetReadPointer_bytes_ok(1) [of I n] by (auto simp: SkipBytes_def split: prod.split)

text \<open>Without a payload nothing is read and nothing skipped, not even no bytes.\<close>

lemma null_payload_refuses:
  assumes "payload_null I"
  shows "fst (SkipBytes n I) = False" and "fst (projr (ReadBytes n I)) = None"
  using assms by (simp_all add: SkipBytes_def ReadBytes_def GetReadPointer_bytes_def current_read_ptr_def)

lemma run_read_ok: "iter_ok I \<Longrightarrow> \<exists>I'. run_read x I = Inr I' \<and> iter_ok I'"
  by (cases x)
     (auto simp: safe_SkipBytes ReadLong_def ReadUInt16_def ReadUInt32_def ReadInt64_def ReadUInt64_def
        ReadFloat_def ReadDouble_def
        intro!: safe_run safe_ReadInt safe_ReadString safe_ReadWString safe_ReadData safe_ReadLength safe_ReadBytes safe_read_word)

text \<open>
  C32. Reading data from elsewhere never leaves it: whatever bytes a pickle is made from, any
  sequence of reads, in any order and of any type, with any lengths the data claims, only touches
  bytes of the payload and ends with a result; only a byte that is neither 0 nor 1 read as a
  \<open>bool\<close>, which is not among these reads, is outside what the language defines.
\<close>

theorem untrusted_reads_stay_inside:
  assumes "Pickle_from_data data data_len = Inr P" and "unat data_len = length data"
  shows "\<exists>I. fold (\<lambda>x r. bindr r (run_read x)) xs (Inr (PickleIterator_new P)) = Inr I \<and>
           read_index I \<le> end_index I \<and> unat (end_index I) \<le> length (payload_mem I)"
proof -
  have "iter_ok I \<Longrightarrow> \<exists>I'. fold (\<lambda>x r. bindr r (run_read x)) xs (Inr I) = Inr I' \<and> iter_ok I'" for I
  proof (induction xs arbitrary: I)
    case (Cons x xs)
    from run_read_ok [OF Cons.prems, of x] Cons.IH show ?case by auto
  qed simp
  from this [OF iter_ok_from_data [OF assms]] show ?thesis by (simp add: iter_ok_def)
qed

theorem untrusted_reads_stay_inside_witness:
  "\<exists>I. fold (\<lambda>x r. bindr r (run_read x)) [Op_String, Op_Int]
         (Inr (PickleIterator_new (projr (Pickle_from_data [4, 0, 0, 0, 0xff, 0xff, 0xff, 0x7f] 8)))) = Inr I \<and>
       read_index I \<le> end_index I \<and> unat (end_index I) \<le> length (payload_mem I)"
  by (rule untrusted_reads_stay_inside [where data = "[4, 0, 0, 0, 0xff, 0xff, 0xff, 0x7f]" and data_len = 8])
     (code_simp, simp)

text \<open>
  A failed read does not always end the iteration, although the class says so: when the
  length of a wide string does not fit in an \<open>int\<close>, the read fails without moving to the end, and
  the next read goes on behind the length.
\<close>

theorem failed_wide_read_goes_on:
  assumes "ReadInt I = Inr (Some n, I1)" and "sint n \<ge> 2 ^ 29"
  shows "ReadWString I = Inr (None, I1)"
proof -
  have "GetReadPointer_elements n 4 I1 = (None, I1)"
  proof -
    have "(scast n * 4 :: 64 word) \<noteq> scast (ucast (scast n * 4 :: 64 word) :: 32 word)"
      using sint_mult_4 [of n] sint_scast_up [of "ucast (scast n * 4 :: 64 word)"] assms(2)
        sint_bounds(2) [of "ucast (scast n * 4 :: 64 word)"] by auto
    then show ?thesis by (simp add: GetReadPointer_elements_def)
  qed
  with assms(1) show ?thesis by (simp add: ReadWString_def)
qed

theorem failed_wide_read_goes_on_witness:
  "(let I = \<lparr>payload_null = False, payload_mem = [0, 0, 0, 0x20, 7, 0, 0, 0], read_index = 0, end_index = 8\<rparr> in
    ReadWString I = Inr (None, I\<lparr>read_index := 4\<rparr>))"
  unfolding Let_def
  by (rule failed_wide_read_goes_on [where n = "0x20000000"]) (code_simp, code_simp)

end
