(* ===== verification/Pickle_Wire.thy ===== *)
theory Pickle_Wire
  imports Pickle_Iterator
begin

text \<open>
  The remaining members of \<^verbatim>\<open>base/pickle/Pickle.h\<close>: the accessors through which a pickle is sent, and the
  older read methods that pass through to the iterator. The theorem is about a message: the bytes
  \<^verbatim>\<open>data()\<close> and \<^verbatim>\<open>size()\<close> describe are found again in a stream and read as what was written.

  A pointer into the block is the memory from there on; \<open>None\<close> is the null pointer.
\<close>

section \<open>Accessors\<close>

definition pickle_data :: "Pickle \<Rightarrow> byte list option" where
  "pickle_data P = header_ptr P"

text \<open>The check of the type's size is compiled away, so the cast is all that is left.\<close>

definition headerT :: "size_t \<Rightarrow> Pickle \<Rightarrow> byte list option" where
  "headerT sizeof_T P = header_ptr P"

definition payload :: "Pickle \<Rightarrow> byte list option" where
  "payload P = map_option (drop (unat (hdr_size P))) (header_ptr P)"

definition mutable_payload :: "Pickle \<Rightarrow> byte list option" where
  "mutable_payload P = map_option (drop (unat (hdr_size P))) (header_ptr P)"

definition end_of_payload :: "Pickle \<Rightarrow> byte list option" where
  "end_of_payload P =
     (case header_ptr P of
        None \<Rightarrow> None
      | Some b \<Rightarrow> map_option (drop (unat (payload_size P))) (payload P))"

text \<open>The destructor: the block it frees, \<open>None\<close> when the data belongs to somebody else.\<close>

definition Pickle_delete :: "Pickle \<Rightarrow> byte list option" where
  "Pickle_delete P = (if capacity_after_header P \<noteq> kCapacityReadOnly then header_ptr P else None)"

section \<open>Reading through the pickle\<close>

definition Pickle_ReadBool :: "Pickle \<Rightarrow> PickleIterator \<Rightarrow> (bool option \<times> PickleIterator) result" where
  "Pickle_ReadBool P iter = ReadBool iter"

definition Pickle_ReadInt :: "Pickle \<Rightarrow> PickleIterator \<Rightarrow> (32 word option \<times> PickleIterator) result" where
  "Pickle_ReadInt P iter = ReadInt iter"

definition Pickle_ReadLong :: "Pickle \<Rightarrow> PickleIterator \<Rightarrow> (64 word option \<times> PickleIterator) result" where
  "Pickle_ReadLong P iter = ReadLong iter"

definition Pickle_ReadUInt16 :: "Pickle \<Rightarrow> PickleIterator \<Rightarrow> (uint16 option \<times> PickleIterator) result" where
  "Pickle_ReadUInt16 P iter = ReadUInt16 iter"

definition Pickle_ReadUInt32 :: "Pickle \<Rightarrow> PickleIterator \<Rightarrow> (uint32 option \<times> PickleIterator) result" where
  "Pickle_ReadUInt32 P iter = ReadUInt32 iter"

definition Pickle_ReadInt64 :: "Pickle \<Rightarrow> PickleIterator \<Rightarrow> (64 word option \<times> PickleIterator) result" where
  "Pickle_ReadInt64 P iter = ReadInt64 iter"

definition Pickle_ReadUInt64 :: "Pickle \<Rightarrow> PickleIterator \<Rightarrow> (uint64 option \<times> PickleIterator) result" where
  "Pickle_ReadUInt64 P iter = ReadUInt64 iter"

definition Pickle_ReadFloat :: "Pickle \<Rightarrow> PickleIterator \<Rightarrow> (32 word option \<times> PickleIterator) result" where
  "Pickle_ReadFloat P iter = ReadFloat iter"

definition Pickle_ReadDouble :: "Pickle \<Rightarrow> PickleIterator \<Rightarrow> (64 word option \<times> PickleIterator) result" where
  "Pickle_ReadDouble P iter = ReadDouble iter"

definition Pickle_ReadString :: "Pickle \<Rightarrow> PickleIterator \<Rightarrow> (byte list option \<times> PickleIterator) result" where
  "Pickle_ReadString P iter = ReadString iter"

definition Pickle_ReadWString :: "Pickle \<Rightarrow> PickleIterator \<Rightarrow> (32 word list option \<times> PickleIterator) result" where
  "Pickle_ReadWString P iter = ReadWString iter"

definition Pickle_ReadData :: "Pickle \<Rightarrow> PickleIterator \<Rightarrow> ((nat \<times> 32 word) option \<times> PickleIterator) result" where
  "Pickle_ReadData P iter = ReadData iter"

definition Pickle_ReadBytes :: "32 word \<Rightarrow> Pickle \<Rightarrow> PickleIterator \<Rightarrow> (nat option \<times> PickleIterator) result" where
  "Pickle_ReadBytes len P iter = ReadBytes len iter"

definition Pickle_ReadLength :: "Pickle \<Rightarrow> PickleIterator \<Rightarrow> (32 word option \<times> PickleIterator) result" where
  "Pickle_ReadLength P iter = ReadLength iter"

lemmas pass_through =
  Pickle_ReadBool_def Pickle_ReadInt_def Pickle_ReadLong_def Pickle_ReadUInt16_def Pickle_ReadUInt32_def
  Pickle_ReadInt64_def Pickle_ReadUInt64_def Pickle_ReadFloat_def Pickle_ReadDouble_def Pickle_ReadString_def
  Pickle_ReadWString_def Pickle_ReadData_def Pickle_ReadBytes_def Pickle_ReadLength_def

fun pickle_read_value :: "Pickle \<Rightarrow> pickle_type \<Rightarrow> PickleIterator \<Rightarrow> (pickle_value option \<times> PickleIterator) result" where
  "pickle_read_value P TBool I = typed VBool (Pickle_ReadBool P I)"
| "pickle_read_value P TInt I = typed VInt (Pickle_ReadInt P I)"
| "pickle_read_value P TLong I = typed VLong (Pickle_ReadLong P I)"
| "pickle_read_value P TUInt16 I = typed VUInt16 (Pickle_ReadUInt16 P I)"
| "pickle_read_value P TUInt32 I = typed VUInt32 (Pickle_ReadUInt32 P I)"
| "pickle_read_value P TInt64 I = typed VInt64 (Pickle_ReadInt64 P I)"
| "pickle_read_value P TUInt64 I = typed VUInt64 (Pickle_ReadUInt64 P I)"
| "pickle_read_value P TFloat I = typed VFloat (Pickle_ReadFloat P I)"
| "pickle_read_value P TDouble I = typed VDouble (Pickle_ReadDouble P I)"
| "pickle_read_value P TString I = typed VString (Pickle_ReadString P I)"
| "pickle_read_value P TData I =
     bindr (Pickle_ReadData P I) (\<lambda>(v, I).
     case v of None \<Rightarrow> Inr (None, I) | Some (at, n) \<Rightarrow> bindr (load at (unat n) I) (\<lambda>bs. Inr (Some (VData bs), I)))"

fun pickle_read_values :: "Pickle \<Rightarrow> pickle_type list \<Rightarrow> PickleIterator \<Rightarrow> (pickle_value option list \<times> PickleIterator) result" where
  "pickle_read_values P [] I = Inr ([], I)"
| "pickle_read_values P (t # ts) I =
     bindr (pickle_read_value P t I) (\<lambda>(v, I). bindr (pickle_read_values P ts I) (\<lambda>(vs, I). Inr (v # vs, I)))"

lemma pickle_read_value_eq: "pickle_read_value P t I = read_value t I"
  by (cases t) (simp_all add: pass_through)

lemma pickle_read_values_eq: "pickle_read_values P ts I = read_values ts I"
  by (induction ts arbitrary: I) (simp_all add: pickle_read_value_eq)

section \<open>Messages\<close>

text \<open>What a sender transmits: \<^verbatim>\<open>size()\<close> bytes from \<^verbatim>\<open>data()\<close> on.\<close>

definition message :: "Pickle \<Rightarrow> byte list result" where
  "message P =
     bindr (pickle_size P) (\<lambda>n.
     case pickle_data P of
       None \<Rightarrow> Inl NullDeref
     | Some b \<Rightarrow> if unat n \<le> length b then Inr (take (unat n) b) else Inl OutOfBounds)"

lemma message_holds:
  assumes "pickle_holds P bs"
  obtains m where "message P = Inr m" and "length m = unat (hdr_size P) + length bs"
    and "drop (unat (hdr_size P)) m = bs" and "header_payload_size m = word_of_nat (length bs)" and "4 \<le> unat (hdr_size P)"
proof -
  from assms obtain b where b: "header_ptr P = Some b" "length b = unat (hdr_size P) + unat (capacity_after_header P)"
      "length bs \<le> unat (capacity_after_header P)" "length bs < 2 ^ 32" "take (length bs) (drop (unat (hdr_size P)) b) = bs"
      "header_payload_size b = word_of_nat (length bs)" "4 \<le> unat (hdr_size P)" "unat (hdr_size P) < 2 ^ 33"
    by (auto simp: pickle_holds_def)
  let ?n = "hdr_size P + ucast (header_payload_size b)"
  have n: "unat ?n = unat (hdr_size P) + length bs"
    using b(4,6,8) by (subst unat_add_small) (simp_all add: ucast_up_unat unat_of_nat)
  show thesis
  proof
    show "message P = Inr (take (unat ?n) b)"
      using b n by (simp add: message_def pickle_size_def pickle_data_def)
    show "length (take (unat ?n) b) = unat (hdr_size P) + length bs" using b n by simp
    show "drop (unat (hdr_size P)) (take (unat ?n) b) = bs" using b(5) by (simp add: n drop_take)
    show "header_payload_size (take (unat ?n) b) = word_of_nat (length bs)"
      using b(6,7) n by (simp add: header_payload_size_def min_def)
    show "4 \<le> unat (hdr_size P)" by (rule b(7))
  qed
qed

lemma WriteBytesCommon_hdr_size: "WriteBytesCommon junk d n P = Inr P' \<Longrightarrow> hdr_size P' = hdr_size P"
  by (auto simp: WriteBytesCommon_def Resize_def with_header_def Let_def fault_simps split: if_splits option.splits)

lemma WritePOD_hdr_size: "WritePOD junk k w P = Inr (ok, P') \<Longrightarrow> hdr_size P' = hdr_size P"
  by (auto simp: WritePOD_def WriteBytesStatic_def fault_simps dest: WriteBytesCommon_hdr_size)

lemma write_value_hdr_size: "write_value junk v P = Inr (ok, P') \<Longrightarrow> hdr_size P' = hdr_size P"
  by (cases v)
     (auto simp: WriteBool_def WriteInt_def WriteLong_def WriteUInt16_def WriteUInt32_def WriteInt64_def WriteUInt64_def
        WriteFloat_def WriteDouble_def WriteString_def WriteData_def WriteBytes_def fault_simps
        split: if_splits dest!: WritePOD_hdr_size WriteBytesCommon_hdr_size)

lemma write_values_hdr_size: "write_values junk vs P = Inr P' \<Longrightarrow> hdr_size P' = hdr_size P"
  by (induction vs arbitrary: P) (fastforce simp: fault_simps dest: write_value_hdr_size)+

text \<open>A message is found at the head of whatever is received with it.\<close>

lemma FindNext_message:
  assumes "header_payload_size m = word_of_nat (length bs)" and "length bs < 2 ^ 32"
    and "length m = unat hs + length bs" and "4 \<le> unat hs" and "length (m @ rest) < 2 ^ 64"
  shows "FindNext hs (m @ rest) = Some (word_of_nat (length m))"
proof -
  let ?len = "word_of_nat (length (m @ rest)) :: size_t" and ?ps = "ucast (header_payload_size (m @ rest)) :: size_t"
  have "header_payload_size (m @ rest) = header_payload_size m"
    using assms(3,4) by (simp add: header_payload_size_def)
  then have ps: "unat ?ps = length bs" using assms(1,2) by (simp add: ucast_up_unat unat_of_nat)
  have len: "unat ?len = length (m @ rest)" using assms(5) by (subst unat_of_nat) simp
  have hs: "hs \<le> ?len" using len assms(3) by (simp add: word_le_nat_alt)
  have "unat (?len - hs) = length (m @ rest) - unat hs" using hs len by (simp add: unat_sub)
  then have "\<not> ?len - hs < ?ps" "\<not> ?len < hs" "\<not> ?len < sizeof_Header"
    using ps len hs assms(3,4) by (simp_all add: word_less_nat_alt sizeof_Header_def)
  moreover have "hs + ?ps = word_of_nat (length m)"
    using arg_cong [OF ps, of "word_of_nat :: nat \<Rightarrow> size_t"] assms(3) by simp
  ultimately show ?thesis by (simp add: FindNext_def Let_def)
qed

lemma Pickle_from_message:
  fixes hs :: size_t
  assumes "header_payload_size m = word_of_nat (length bs)" and "length m = unat hs + length bs" and "4 \<le> unat hs"
    and "unat hs mod 4 = 0" and "length m < 2 ^ 31" and "drop (unat hs) m = bs"
  obtains Q where "Pickle_from_data m (word_of_nat (length m)) = Inr Q" and "at_payload (PickleIterator_new Q)"
    and "remaining (PickleIterator_new Q) = bs"
proof -
  let ?n = "word_of_nat (length m) :: 32 word"
  note n = small_length(1,2) [OF assms(5)]
  have n4: "4 \<le> sint ?n" using unat_sint_nonneg [OF n(2)] n(1) assms(2,3) by simp
  have "?n - header_payload_size m = word_of_nat (unat hs)" using assms(1,2) by simp
  then have "unat (?n - header_payload_size m) = unat hs"
    using small_length(1) [of "unat hs"] assms(2,5) by (simp only:)
  then have h: "ucast (?n - header_payload_size m) = hs" by (simp only: word_unat_eq_iff ucast_up_unat)
  have le: "\<not> hs > ucast ?n" using n(1) assms(2) by (simp add: word_less_nat_alt ucast_up_unat)
  have al: "AlignInt hs 4 = hs" using AlignInt_4 [of hs] assms(2,4,5) by (simp add: word_unat_eq_iff)
  let ?Q = "\<lparr>header_ptr = Some m, hdr_size = hs, capacity_after_header = kCapacityReadOnly, write_offset = 0\<rparr>"
  have "hs \<noteq> 0" "\<not> length m < 4" using assms(2,3) by auto
  then have Q: "Pickle_from_data m ?n = Inr ?Q"
    using n4 le by (simp add: Pickle_from_data_def Let_def h al)
  have e: "unat (payload_size ?Q) = length bs"
    using assms(1,2,5) by (simp add: payload_size_def ucast_up_unat unat_of_nat)
  show thesis
  proof
    show "Pickle_from_data m ?n = Inr ?Q" by (rule Q)
    show "at_payload (PickleIterator_new ?Q)"
      using iter_ok_from_data [OF Q n(1)] by (simp add: at_payload_def PickleIterator_new_def)
    show "remaining (PickleIterator_new ?Q) = bs" using e assms(6) by (simp add: PickleIterator_new_def remaining_def)
  qed
qed

lemma Pickle_new_hdr_size: "Pickle_new junk = Inr P \<Longrightarrow> hdr_size P = 4"
  by (auto simp: Pickle_new_def with_header_def Resize_def sizeof_Header_def Let_def split: option.splits if_splits)

section \<open>Properties\<close>

text \<open>
  C31. A pickle survives being sent: the \<open>size\<close> bytes of its data, whatever follows them in the
  stream, are delimited by \<open>FindNext\<close>, accepted by the constructor from received data, and the reads
  through the received pickle return every value that was written to the first, in order.
\<close>

theorem pickle_survives_the_wire:
  assumes "length (concat (map encoded vs)) + 8 < 2 ^ 31" and "length rest < 2 ^ 63"
  shows "\<exists>P m Q I. bindr (Pickle_new junk) (write_values junk vs) = Inr P \<and> message P = Inr m \<and>
           FindNext sizeof_Header (m @ rest) = Some (word_of_nat (length m)) \<and>
           Pickle_from_data (take (length m) (m @ rest)) (word_of_nat (length m)) = Inr Q \<and>
           pickle_read_values Q (map type_of vs) (PickleIterator_new Q) = Inr (map Some vs, I)"
proof -
  let ?bs = "concat (map encoded vs)"
  obtain P0 where P0: "Pickle_new junk = Inr P0" "pickle_holds P0 []" using Pickle_new_holds by blast
  obtain P where P: "write_values junk vs P0 = Inr P" "pickle_holds P ?bs"
    using write_values_holds [OF P0(2), of vs junk] assms(1) by auto
  have hs: "hdr_size P = 4" using write_values_hdr_size [OF P(1)] Pickle_new_hdr_size [OF P0(1)] by simp
  obtain m where m: "message P = Inr m" "length m = unat (hdr_size P) + length ?bs" "drop (unat (hdr_size P)) m = ?bs"
      "header_payload_size m = word_of_nat (length ?bs)"
    using message_holds [OF P(2)] by metis
  have small: "length ?bs < 2 ^ 32" "length m < 2 ^ 31" "length (m @ rest) < 2 ^ 64" using assms m(2) hs by auto
  obtain Q where Q: "Pickle_from_data m (word_of_nat (length m)) = Inr Q" "at_payload (PickleIterator_new Q)"
      "remaining (PickleIterator_new Q) = ?bs"
    using Pickle_from_message [OF m(4,2) _ _ small(2) m(3)] hs by auto
  have "FindNext sizeof_Header (m @ rest) = Some (word_of_nat (length m))"
    using FindNext_message [OF m(4) small(1) m(2) _ small(3)] hs by (simp add: sizeof_Header_def)
  moreover obtain I where "read_values (map type_of vs) (PickleIterator_new Q) = Inr (map Some vs, I)"
    using read_values_remaining [OF Q(2), of vs "[]"] Q(3) assms(1) by auto
  ultimately show ?thesis using P0(1) P(1) m(1) Q(1) by (auto simp: pickle_read_values_eq)
qed

theorem pickle_survives_the_wire_witness:
  "\<exists>P m Q I. bindr (Pickle_new (\<lambda>_. 0xAA)) (write_values (\<lambda>_. 0xAA) [VInt 7, VString [1, 2, 3]]) = Inr P \<and> message P = Inr m \<and>
     FindNext sizeof_Header (m @ [9, 9]) = Some (word_of_nat (length m)) \<and>
     Pickle_from_data (take (length m) (m @ [9, 9])) (word_of_nat (length m)) = Inr Q \<and>
     pickle_read_values Q [TInt, TString] (PickleIterator_new Q) = Inr ([Some (VInt 7), Some (VString [1, 2, 3])], I)"
  using pickle_survives_the_wire [of "[VInt 7, VString [1, 2, 3]]" "[9, 9]" "\<lambda>_. 0xAA"] by (simp add: length_pad)

text \<open>The accessors delimit exactly what was written, and the destructor frees exactly the blocks a pickle owns.\<close>

lemma end_of_payload_holds:
  assumes "pickle_holds P bs"
  shows "map_option (take (length bs)) (payload P) = Some bs"
    and "\<exists>b e. header_ptr P = Some b \<and> end_of_payload P = Some e \<and> b = take (unat (hdr_size P)) b @ bs @ e"
proof -
  from assms obtain b where b: "header_ptr P = Some b" "length bs < 2 ^ 32" "take (length bs) (drop (unat (hdr_size P)) b) = bs"
      "header_payload_size b = word_of_nat (length bs)"
    by (auto simp: pickle_holds_def)
  then show "map_option (take (length bs)) (payload P) = Some bs" by (simp add: payload_def)
  have "unat (payload_size P) = length bs" using b by (simp add: payload_size_def ucast_up_unat unat_of_nat)
  moreover have "b = take (unat (hdr_size P)) b @ bs @ drop (length bs) (drop (unat (hdr_size P)) b)"
    using b(3) by (metis append_take_drop_id)
  ultimately show "\<exists>b e. header_ptr P = Some b \<and> end_of_payload P = Some e \<and> b = take (unat (hdr_size P)) b @ bs @ e"
    using b(1) by (simp add: end_of_payload_def payload_def)
qed

lemma Pickle_delete_owned:
  "pickle_holds P bs \<Longrightarrow> Pickle_delete P = header_ptr P"
  "Pickle_from_data d n = Inr Q \<Longrightarrow> Pickle_delete Q = None"
proof -
  have "unat (-1 :: size_t) = 2 ^ 64 - 1" by (simp add: unsigned_minus_1_eq_mask mask_eq_exp_minus_1)
  then show "pickle_holds P bs \<Longrightarrow> Pickle_delete P = header_ptr P"
    by (auto simp: pickle_holds_def Pickle_delete_def kCapacityReadOnly_def)
qed (auto simp: Pickle_delete_def kCapacityReadOnly_def Pickle_from_data_def Let_def split: if_splits)

end
