(* ===== verification/Base_Utils.thy ===== *)
theory Base_Utils
  imports Prelude Complex_Main
begin

text \<open>
  \<^verbatim>\<open>base/Utils.cpp\<close>, \<^verbatim>\<open>base/Utils.h\<close> and \<^verbatim>\<open>base/StringView.h\<close>: splitting and comparing strings, random
  identifiers, the clock and the server's socket. What the operating system and the random number
  generator answer is an argument: \<open>draw k\<close> is the \<open>k\<close>-th number drawn, \<open>made\<close> and \<open>bound\<close> are the
  outcomes of \<^verbatim>\<open>socket\<close> and \<^verbatim>\<open>bind\<close>.
\<close>

section \<open>Splitting\<close>

text \<open>\<^verbatim>\<open>std::getline\<close> on a string stream: it fails only when nothing is left to extract.\<close>

fun getline :: "char \<Rightarrow> string \<Rightarrow> (string \<times> string) option" where
  "getline delim [] = None"
| "getline delim (c # cs) =
     Some (takeWhile (\<lambda>x. x \<noteq> delim) (c # cs), drop 1 (dropWhile (\<lambda>x. x \<noteq> delim) (c # cs)))"

lemma getline_shorter: "getline delim s = Some (item, rest) \<Longrightarrow> length rest < length s"
  using length_dropWhile_le [of "\<lambda>x. x \<noteq> delim" "tl s"]
  by (cases s) (auto split: if_splits)

function split_into :: "string \<Rightarrow> char \<Rightarrow> string list \<Rightarrow> string list" where
  "split_into s delim elems =
     (case getline delim s of
        None \<Rightarrow> elems
      | Some (item, rest) \<Rightarrow> split_into rest delim (elems @ [item]))"
  by pat_completeness auto
termination
  by (relation "measure (\<lambda>(s, delim, elems). length s)") (auto simp: getline_shorter)

declare split_into.simps [simp del]

definition split :: "string \<Rightarrow> char \<Rightarrow> string list" where
  "split s delim = split_into s delim []"

section \<open>Comparing and converting\<close>

definition EndsWith :: "string \<Rightarrow> string \<Rightarrow> bool" where
  "EndsWith str suf \<longleftrightarrow>
     length str \<ge> length suf \<and> take (length suf) (drop (length str - length suf) str) = suf"

text \<open>\<^verbatim>\<open>std::tolower\<close> in the C locale.\<close>

definition tolower :: "char \<Rightarrow> char" where
  "tolower c = (let n = of_char c :: nat in if 65 \<le> n \<and> n \<le> 90 then char_of (n + 32) else c)"

definition str_tolower :: "string \<Rightarrow> string" where
  "str_tolower s = map tolower s"

text \<open>\<^verbatim>\<open>strcmp(a, b) < 0\<close>: lexicographic on unsigned characters, a proper prefix first.\<close>

fun strcmp_less :: "string \<Rightarrow> string \<Rightarrow> bool" where
  "strcmp_less a [] = False"
| "strcmp_less [] (d # ds) = True"
| "strcmp_less (c # cs) (d # ds) =
     ((of_char c :: nat) < of_char d \<or> c = d \<and> strcmp_less cs ds)"

definition CStringComparator :: "string \<Rightarrow> string \<Rightarrow> bool" where
  "CStringComparator a b \<longleftrightarrow> strcmp_less (c_str a) (c_str b)"

section \<open>Random values, platform, clock, socket\<close>

definition alphabet :: string where
  "alphabet = ''abcdefghijklmnopqrstuvwxyzABCDEFGHIJKLMNOPQRSTUVWXYZ0123456789'' @ [CHR 0x00]"

definition draw_max :: nat where
  "draw_max = length alphabet - 2"

definition GenerateRandomString :: "(nat \<Rightarrow> nat) \<Rightarrow> nat \<Rightarrow> string result" where
  "GenerateRandomString draw len =
     (if \<forall>k < len. draw k < length alphabet
      then Inr (map (\<lambda>k. alphabet ! draw k) [0..<len]) else Inl OutOfBounds)"

text \<open>
  \<open>draw\<close> is the distribution over the closed interval between its two arguments; an empty interval
  is not allowed.
\<close>

definition RandomNumber :: "(rat \<Rightarrow> rat \<Rightarrow> rat) \<Rightarrow> rat" where
  "RandomNumber draw = draw 0 1"

definition RandomInt :: "(int \<Rightarrow> int \<Rightarrow> int) \<Rightarrow> 32 word \<Rightarrow> int result" where
  "RandomInt draw mx = (if 0 \<le> sint mx then Inr (draw 0 (sint mx)) else Inl AssertFailed)"

definition GetAppPath :: "string \<Rightarrow> string" where
  "GetAppPath current_path = current_path"

text \<open>The id of a thread in the kernel, narrowed to \<^verbatim>\<open>int\<close>, and its id in the thread library.\<close>

definition GetThreadID :: "64 word \<Rightarrow> 32 word" where
  "GetThreadID gettid = ucast gettid"

definition GetPthreadID :: "64 word \<Rightarrow> 64 word" where
  "GetPthreadID self = self"

definition GetPlatformPathPrefix :: string where
  "GetPlatformPathPrefix = ''''"

definition GetUnixTimestamp :: "64 word \<Rightarrow> 64 word \<Rightarrow> 64 word" where
  "GetUnixTimestamp tv_sec tv_usec = tv_sec * 1000000 + tv_usec"

definition sun_path_size :: nat where
  "sun_path_size = 108"

text \<open>The path that is bound, when the call succeeds.\<close>

definition CreateUnixSocket :: "bool \<Rightarrow> (string \<Rightarrow> bool) \<Rightarrow> string \<Rightarrow> bool \<times> string option" where
  "CreateUnixSocket made bound name =
     (if made then
        let path = take (sun_path_size - 1) (c_str name) in
        if bound path then (True, Some path) else (False, None)
      else (False, None))"

section \<open>String views\<close>

text \<open>
  \<^verbatim>\<open>as_c_string\<close> returns the characters of a temporary that is destroyed at the end of the
  statement: whoever reads them reads released storage. \<^verbatim>\<open>find\<close> narrows its result to \<^verbatim>\<open>int\<close>.
\<close>

record StringView = wrapped :: string

definition StringView_c :: "string \<Rightarrow> StringView" where
  "StringView_c content = \<lparr>wrapped = c_str content\<rparr>"

definition as_string :: "StringView \<Rightarrow> string" where
  "as_string v = wrapped v"

definition as_c_string :: "StringView \<Rightarrow> string result" where
  "as_c_string v = Inl UseAfterFree"

fun first_at :: "nat \<Rightarrow> char \<Rightarrow> string \<Rightarrow> size_t" where
  "first_at n c [] = -1"
| "first_at n c (x # xs) = (if x = c then word_of_nat n else first_at (Suc n) c xs)"

definition view_find :: "char \<Rightarrow> 32 word \<Rightarrow> StringView \<Rightarrow> 32 word" where
  "view_find needle pos v =
     (let p = scast pos :: size_t in
      ucast (first_at (unat p) needle (drop (unat p) (wrapped v))))"

section \<open>Splitting undoes joining\<close>

definition terminated :: "char \<Rightarrow> string list \<Rightarrow> string" where
  "terminated delim items = concat (map (\<lambda>i. i @ [delim]) items)"

lemma getline_item:
  assumes "delim \<notin> set i"
  shows "getline delim (i @ delim # rest) = Some (i, rest)"
    and "i \<noteq> [] \<Longrightarrow> getline delim i = Some (i, [])"
proof -
  have tw: "takeWhile (\<lambda>x. x \<noteq> delim) i = i" "dropWhile (\<lambda>x. x \<noteq> delim) i = []"
    using assms by (auto simp: takeWhile_eq_all_conv)
  obtain c cs where c: "i @ delim # rest = c # cs" by (cases i) auto
  have "takeWhile (\<lambda>x. x \<noteq> delim) (i @ delim # rest) = i" "dropWhile (\<lambda>x. x \<noteq> delim) (i @ delim # rest) = delim # rest"
    using assms by (simp_all add: takeWhile_append dropWhile_append tw)
  then show "getline delim (i @ delim # rest) = Some (i, rest)" using c by (metis getline.simps(2) drop0 drop_Suc_Cons One_nat_def)
  show "i \<noteq> [] \<Longrightarrow> getline delim i = Some (i, [])" using tw by (cases i) (auto split: if_splits)
qed

lemma split_into_items:
  assumes "\<forall>i \<in> set items. delim \<notin> set i"
  shows "split_into (terminated delim items @ rest) delim elems = split_into rest delim (elems @ items)"
  using assms
proof (induction items arbitrary: elems)
  case Nil
  then show ?case by (simp add: terminated_def)
next
  case (Cons i items)
  then show ?case
    by (simp add: terminated_def split_into.simps [of "i @ _"] getline_item)
qed

lemma split_getline:
  "split_into s delim elems =
     (case getline delim s of None \<Rightarrow> elems | Some (item, rest) \<Rightarrow> elems @ item # split rest delim)"
proof (induction s arbitrary: elems rule: length_induct)
  case (1 s)
  show ?case
  proof (cases "getline delim s")
    case None
    then show ?thesis by (simp add: split_into.simps [of s])
  next
    case (Some p)
    obtain item rest where p: "p = (item, rest)" by (cases p)
    have "split_into rest delim es = es @ split rest delim" for es
      using "1.IH" getline_shorter [OF Some [unfolded p]] unfolding split_def
      by (auto split: option.split)
    with Some p show ?thesis by (simp add: split_into.simps [of s])
  qed
qed

lemma split_simps:
  "split [] delim = []"
  "getline delim s = Some (item, rest) \<Longrightarrow> split s delim = item # split rest delim"
  by (simp_all add: split_def [of s] split_def [of "[]"] split_getline [of s] split_getline [of "[]"])

lemma split_no_delim: "i \<in> set (split s delim) \<Longrightarrow> delim \<notin> set i"
proof (induction s arbitrary: i rule: length_induct)
  case (1 s)
  show ?case
  proof (cases "getline delim s")
    case None
    with "1.prems" show ?thesis by (simp add: split_def split_getline)
  next
    case (Some p)
    obtain item rest where p: "p = (item, rest)" by (cases p)
    have item: "delim \<notin> set item" using Some p by (cases s) (auto dest: set_takeWhileD split: if_splits)
    note sp = split_simps(2) [OF Some [unfolded p]]
    from "1.prems" sp consider "i = item" | "i \<in> set (split rest delim)" by auto
    then show ?thesis using item "1.IH" getline_shorter [OF Some [unfolded p]] by cases blast+
  qed
qed

lemma terminated_Cons [simp]: "terminated delim (i # items) = i @ delim # terminated delim items"
  by (simp add: terminated_def)

lemma terminated_Nil [simp]: "terminated delim [] = []"
  by (simp add: terminated_def)

lemma getline_parts:
  assumes "getline delim s = Some (item, rest)"
  shows "s = item @ delim # rest \<or> s = item \<and> rest = []"
proof -
  let ?d = "dropWhile (\<lambda>x. x \<noteq> delim) s"
  have g: "item = takeWhile (\<lambda>x. x \<noteq> delim) s" "rest = drop 1 ?d" using assms by (cases s; simp)+
  have s: "s = item @ ?d" by (simp add: g(1))
  show ?thesis
  proof (cases ?d)
    case Nil
    then show ?thesis using s g(2) by (metis append_Nil2 drop_Nil)
  next
    case (Cons x xs)
    with hd_dropWhile [of "\<lambda>x. x \<noteq> delim" s] have "x = delim" by simp
    with Cons s g(2) show ?thesis by simp
  qed
qed

lemma terminated_split:
  "terminated delim (split s delim) = (if s = [] \<or> last s = delim then s else s @ [delim])"
proof (induction s rule: length_induct)
  case (1 s)
  show ?case
  proof (cases "getline delim s")
    case None
    then have "s = []" by (cases s) auto
    then show ?thesis by (simp add: split_simps)
  next
    case (Some p)
    obtain item rest where p: "p = (item, rest)" by (cases p)
    note g = Some [unfolded p]
    have no: "delim \<notin> set item"
      using split_no_delim [of item s delim] split_simps(2) [OF g] by simp
    have ne: "s \<noteq> []" using g by auto
    from getline_parts [OF g] show ?thesis
    proof
      assume s: "s = item @ delim # rest"
      from "1.IH" getline_shorter [OF g]
      have "terminated delim (split rest delim) = (if rest = [] \<or> last rest = delim then rest else rest @ [delim])"
        by blast
      then have "terminated delim (split s delim) =
          item @ delim # (if rest = [] \<or> last rest = delim then rest else rest @ [delim])"
        by (simp only: split_simps(2) [OF g] terminated_Cons)
      with s show ?thesis by auto
    next
      assume s: "s = item \<and> rest = []"
      have "terminated delim (split s delim) = item @ delim # terminated delim (split rest delim)"
        by (simp only: split_simps(2) [OF g] terminated_Cons)
      then have "terminated delim (split s delim) = item @ [delim]" using s by (simp add: split_simps(1))
      with s no ne last_in_set [OF ne] show ?thesis by auto
    qed
  qed
qed

section \<open>The order of C strings\<close>

lemma strcmp_less_irrefl: "\<not> strcmp_less a a"
  by (induction a) auto

lemma strcmp_less_trans: "strcmp_less a b \<Longrightarrow> strcmp_less b c \<Longrightarrow> strcmp_less a c"
proof (induction a c arbitrary: b rule: strcmp_less.induct)
  case (1 a)
  then show ?case by (cases b) auto
next
  case (3 x xs z zs)
  then show ?case by (cases b) (auto dest: less_trans)
qed auto

lemma strcmp_less_total: "strcmp_less a b \<or> a = b \<or> strcmp_less b a"
proof (induction a b rule: strcmp_less.induct)
  case (1 a)
  then show ?case by (cases a) auto
next
  case (3 c cs d ds)
  have "c = d" if "(of_char c :: nat) = of_char d" using that by simp
  with 3 show ?case by (metis linorder_neqE_nat strcmp_less.simps(3))
qed auto

text \<open>
  The maps of the dispatcher and of the event hub are ordered by this comparison, so two names are
  the same key exactly when \<^verbatim>\<open>strcmp\<close> finds them equal.
\<close>

lemma CStringComparator_same_key:
  "\<not> CStringComparator a b \<and> \<not> CStringComparator b a \<longleftrightarrow> c_str a = c_str b"
  using strcmp_less_total strcmp_less_irrefl by (auto simp: CStringComparator_def)

section \<open>Properties\<close>

text \<open>
  Splitting undoes joining: items without the delimiter that are joined by it, with or without
  a trailing delimiter, are returned by \<open>split\<close>, and joining what \<open>split\<close> returns gives the text
  back. An empty last item is the one thing that is lost.
\<close>

theorem split_round_trip:
  assumes "list_all (\<lambda>i. delim \<notin> set i) items" and "final \<noteq> []" and "delim \<notin> set final"
  shows "split (terminated delim items) delim = items \<and>
         split (terminated delim items @ final) delim = items @ [final] \<and>
         terminated delim (split s delim) = (if s = [] \<or> last s = delim then s else s @ [delim])"
proof -
  have items: "\<forall>i \<in> set items. delim \<notin> set i" using assms(1) by (simp add: list_all_iff)
  note joined = split_into_items [OF items, of _ "[]", folded split_def]
  have "split (terminated delim items) delim = items" using joined [of "[]"] by (simp add: split_getline)
  moreover have "split (terminated delim items @ final) delim = items @ [final]"
    using joined [of final] getline_item(2) [OF assms(3,2)] by (simp add: split_getline split_simps)
  ultimately show ?thesis by (simp add: terminated_split)
qed

theorem split_round_trip_witness:
  "split (terminated CHR ''/'' [''refs'', []]) CHR ''/'' = [''refs'', []] \<and>
   split (terminated CHR ''/'' [''refs'', []] @ ''master'') CHR ''/'' = [''refs'', []] @ [''master''] \<and>
   terminated CHR ''/'' (split ''a//b'' CHR ''/'') = (if ''a//b'' = [] \<or> last ''a//b'' = CHR ''/'' then ''a//b'' else ''a//b'' @ ''/'')"
  by (rule split_round_trip) simp_all

text \<open>
  A random identifier has the length asked for and consists of letters and digits: the largest
  number the distribution may draw is the position of the last letter, and the terminating NUL
  of the alphabet is never picked.
\<close>

theorem random_identifiers:
  assumes "\<And>k. draw k \<le> draw_max"
  shows "\<exists>s. GenerateRandomString draw len = Inr s \<and> length s = len \<and> CHR 0x00 \<notin> set s \<and>
             set s \<subseteq> set (butlast alphabet)"
proof -
  have len: "length alphabet = 63" by (simp add: alphabet_def)
  have draw: "draw k < length alphabet" "alphabet ! draw k \<in> set (butlast alphabet)" for k
  proof -
    have "draw k < 62" using assms [of k] by (simp add: draw_max_def len)
    then show "draw k < length alphabet" "alphabet ! draw k \<in> set (butlast alphabet)"
      using nth_butlast [of "draw k" alphabet] nth_mem [of "draw k" "butlast alphabet"] by (simp_all add: len)
  qed
  moreover have "CHR 0x00 \<notin> set (butlast alphabet)" by (simp add: alphabet_def)
  ultimately show ?thesis by (auto simp: GenerateRandomString_def)
qed

theorem random_identifiers_witness:
  "\<exists>s. GenerateRandomString (\<lambda>k. k mod 62) 16 = Inr s \<and> length s = 16 \<and> CHR 0x00 \<notin> set s \<and>
       set s \<subseteq> set (butlast alphabet)"
proof (rule random_identifiers)
  fix k :: nat
  have "k mod 62 < 62" by simp
  then show "k mod 62 \<le> draw_max" by (simp add: draw_max_def alphabet_def)
qed

end
