(* ===== verification/Event_Hub.thy ===== *)
theory Event_Hub
  imports Message_Pump Base_Utils
begin

text \<open>
  \<^verbatim>\<open>base/events\<close>: named events with handlers. A handler is called directly by \<^verbatim>\<open>TriggerEvent\<close> or runs
  as a task on the thread that owns it: then a copy of the handler and the event's argument go into
  a heap object, and a task bound to \<^verbatim>\<open>RunEventHandler\<close> is posted to the owner.

  What a handler function does is the parameter \<open>exec\<close>; it may change the hub itself (register and
  unregister handlers) and the rest of the program's state \<open>'s\<close>. An empty \<^verbatim>\<open>std::function\<close> is
  \<open>None\<close>. The heap objects are never deleted, so their addresses are positions in \<open>te_objects\<close>.
\<close>

section \<open>Data\<close>

record 'h EventHandler =
  event_name :: string
  runHandlerAsTask :: bool
  handler :: "'h option"
  owningThread :: string
  handler_id :: string

definition EventHandler_new ::
    "(nat \<Rightarrow> nat) \<Rightarrow> bool \<Rightarrow> string \<Rightarrow> 'h option \<Rightarrow> string \<Rightarrow> 'h EventHandler result" where
  "EventHandler_new draw runAsTask onThread handlerFunc event =
     bindr (GenerateRandomString draw 16) (\<lambda>i.
     Inr \<lparr>event_name = event, runHandlerAsTask = runAsTask, handler = handlerFunc,
          owningThread = onThread, handler_id = i\<rparr>)"

text \<open>The structures the \<^verbatim>\<open>EVENTARGS\<close> macros generate.\<close>

record 'a EventArgs1 = only_First :: 'a

definition EventArgs1_new :: "'a \<Rightarrow> 'a EventArgs1" where
  "EventArgs1_new value1 = \<lparr>only_First = value1\<rparr>"

record ('a, 'b) EventArgs2 =
  pair_First :: 'a
  pair_Second :: 'b

definition EventArgs2_new :: "'a \<Rightarrow> 'b \<Rightarrow> ('a, 'b) EventArgs2" where
  "EventArgs2_new a1 a2 = \<lparr>pair_First = a1, pair_Second = a2\<rparr>"

record ('a, 'b, 'c) EventArgs3 =
  arg_First :: 'a
  arg_Second :: 'b
  arg_Third :: 'c

record ('h, 's) hub_state =
  eventHandlers :: "string \<rightharpoonup> 'h EventHandler list"
  app_state :: 's

record ('h, 'v) ThreadedEventHandlerArgs =
  eventHandler :: "'h EventHandler"
  event_args :: 'v

datatype event_fn = fn_RunEventHandler

record ('h, 'v, 's) event_sys =
  ev_disp :: Dispatcher
  ev_pumps :: "nat \<Rightarrow> (event_fn, unit, nat) MessagePumpEPoll \<times> SharedThreadState"
  te_objects :: "('h, 'v) ThreadedEventHandlerArgs list"
  hub :: "('h, 's) hub_state"

type_synonym ('h, 'v, 's) handler_exec = "'h \<Rightarrow> 'v \<Rightarrow> ('h, 's) hub_state \<Rightarrow> ('h, 's) hub_state result"

section \<open>Registration\<close>

text \<open>\<^verbatim>\<open>std::map::insert\<close> keeps an entry that exists.\<close>

definition RegisterEvent :: "string \<Rightarrow> ('h, 's) hub_state \<Rightarrow> ('h, 's) hub_state" where
  "RegisterEvent name H =
     (if eventHandlers H (c_str name) = None
      then H\<lparr>eventHandlers := (eventHandlers H)(c_str name \<mapsto> [])\<rparr> else H)"

definition RegisterEventHandler :: "string \<Rightarrow> 'h EventHandler \<Rightarrow> ('h, 's) hub_state \<Rightarrow> ('h, 's) hub_state" where
  "RegisterEventHandler name eh H =
     (case eventHandlers H (c_str name) of
        Some hs \<Rightarrow> H\<lparr>eventHandlers := (eventHandlers H)(c_str name \<mapsto> hs @ [eh])\<rparr>
      | None \<Rightarrow> H)"

text \<open>\<^verbatim>\<open>find_if\<close> and \<^verbatim>\<open>erase\<close>: the first handler with the id goes.\<close>

fun erase_id :: "string \<Rightarrow> 'h EventHandler list \<Rightarrow> 'h EventHandler list" where
  "erase_id i [] = []"
| "erase_id i (eh # hs) = (if handler_id eh = i then hs else eh # erase_id i hs)"

text \<open>The map's \<^verbatim>\<open>operator[]\<close> inserts an empty list of handlers for a name it does not know.\<close>

definition UnregisterEventHandler :: "string \<Rightarrow> string \<Rightarrow> ('h, 's) hub_state \<Rightarrow> ('h, 's) hub_state" where
  "UnregisterEventHandler name i H =
     (let handlers = (case eventHandlers H (c_str name) of None \<Rightarrow> [] | Some hs \<Rightarrow> hs) in
      H\<lparr>eventHandlers := (eventHandlers H)(c_str name \<mapsto> erase_id i handlers)\<rparr>)"

section \<open>Triggering\<close>

definition call_handler ::
    "('h, 'v, 's) handler_exec \<Rightarrow> 'h EventHandler \<Rightarrow> 'v \<Rightarrow> ('h, 's) hub_state \<Rightarrow> ('h, 's) hub_state result" where
  "call_handler exec eh args H = (case handler eh of None \<Rightarrow> Inl UninitCall | Some f \<Rightarrow> exec f args H)"

definition POST_EVENT :: "nat \<Rightarrow> (event_fn, unit, nat) Task \<Rightarrow> string \<Rightarrow> ('h, 'v, 's) event_sys \<Rightarrow> ('h, 'v, 's) event_sys result" where
  "POST_EVENT cap t receiver S =
     bindr (PostTask receiver (ev_disp S)) (\<lambda>d.
     case d of
       None \<Rightarrow> Inr S
     | Some d \<Rightarrow>
         bindr (PostMessageToThread cap t (ev_pumps S (pump d))) (\<lambda>p.
         Inr (S\<lparr>ev_pumps := (ev_pumps S)(pump d := p)\<rparr>)))"

text \<open>The loop runs over a copy of the handlers. \<open>junk a\<close> is what the memory of the task for object \<open>a\<close> held.\<close>

fun trigger_loop ::
    "nat \<Rightarrow> (nat \<Rightarrow> int) \<Rightarrow> ('h, 'v, 's) handler_exec \<Rightarrow> 'v \<Rightarrow> 'h EventHandler list
       \<Rightarrow> ('h, 'v, 's) event_sys \<Rightarrow> ('h, 'v, 's) event_sys result" where
  "trigger_loop cap junk exec args [] S = Inr S"
| "trigger_loop cap junk exec args (eh # ehs) S =
     (if runHandlerAsTask eh then
        let teArgs = length (te_objects S);
            S = S\<lparr>te_objects := te_objects S @ [\<lparr>eventHandler = eh, event_args = args\<rparr>]\<rparr>;
            EventDispatch = NEW_TASK1 (junk teArgs) () fn_RunEventHandler (Some teArgs) in
        bindr (POST_EVENT cap EventDispatch (owningThread eh) S) (trigger_loop cap junk exec args ehs)
      else
        bindr (call_handler exec eh args (hub S)) (\<lambda>H. trigger_loop cap junk exec args ehs (S\<lparr>hub := H\<rparr>)))"

definition TriggerEvent ::
    "nat \<Rightarrow> (nat \<Rightarrow> int) \<Rightarrow> ('h, 'v, 's) handler_exec \<Rightarrow> string \<Rightarrow> 'v
       \<Rightarrow> ('h, 'v, 's) event_sys \<Rightarrow> ('h, 'v, 's) event_sys result" where
  "TriggerEvent cap junk exec name args S =
     (case eventHandlers (hub S) (c_str name) of
        Some handlers \<Rightarrow> trigger_loop cap junk exec args handlers S
      | None \<Rightarrow> Inr S)"

definition RunEventHandler ::
    "('h, 'v, 's) handler_exec \<Rightarrow> ('h, 'v) ThreadedEventHandlerArgs list \<Rightarrow> nat option
       \<Rightarrow> ('h, 's) hub_state \<Rightarrow> ('h, 's) hub_state result" where
  "RunEventHandler exec objs args H =
     (case args of
        None \<Rightarrow> Inl NullDeref
      | Some a \<Rightarrow>
          if a < length objs
          then call_handler exec (eventHandler (objs ! a)) (event_args (objs ! a)) H
          else Inl OutOfBounds)"

text \<open>The macros of the header. \<^verbatim>\<open>HANDLE_EVENT\<close> always asks for a task on the given thread.\<close>

definition EVENT :: "string \<Rightarrow> ('h, 's) hub_state \<Rightarrow> ('h, 's) hub_state" where
  "EVENT name H = RegisterEvent name H"

definition HANDLE_EVENT :: "(nat \<Rightarrow> nat) \<Rightarrow> string \<Rightarrow> string \<Rightarrow> 'h option \<Rightarrow> ('h, 's) hub_state \<Rightarrow> ('h, 's) hub_state result" where
  "HANDLE_EVENT draw name onThread handler' H =
     bindr (EventHandler_new draw True onThread handler' name) (\<lambda>eh. Inr (RegisterEventHandler name eh H))"


text \<open>One turn of the message loop of pump \<open>p\<close>; the only function ever bound is \<^verbatim>\<open>RunEventHandler\<close>.\<close>

definition event_turn :: "('h, 'v, 's) handler_exec \<Rightarrow> nat \<Rightarrow> ('h, 'v, 's) event_sys \<Rightarrow> ('h, 'v, 's) event_sys result" where
  "event_turn exec p S =
     bindr (loop_turn (\<lambda>c. RunEventHandler exec (te_objects S) (argument c))
              (fst (ev_pumps S p), snd (ev_pumps S p), hub S)) (\<lambda>(P, T, H).
     Inr (S\<lparr>ev_pumps := (ev_pumps S)(p := (P, T)), hub := H\<rparr>))"

section \<open>Registration laws\<close>

lemma erase_id_fresh: "i \<notin> handler_id ` set hs \<Longrightarrow> erase_id i hs = hs"
  by (induction hs) auto

lemma erase_id_append: "i \<notin> handler_id ` set hs \<Longrightarrow> erase_id i (hs @ ks) = hs @ erase_id i ks"
  by (induction hs) auto

section \<open>Posted handlers\<close>

text \<open>Pump \<open>p\<close> serves the named thread and its loop runs.\<close>

definition serves :: "nat \<Rightarrow> string \<Rightarrow> ('h, 'v, 's) event_sys \<Rightarrow> bool" where
  "serves p n S \<longleftrightarrow>
     (\<exists>r. GetTaskRunner n (ev_disp S) = Some r \<and> runner_dmp r = Ptr p) \<and>
     (\<exists>a. sts (fst (ev_pumps S p)) = Ptr a) \<and> \<not> guard_held (snd (ev_pumps S p))"

abbreviation event_queue :: "nat \<Rightarrow> ('h, 'v, 's) event_sys \<Rightarrow> (event_fn, unit, nat) Task list" where
  "event_queue p S \<equiv> taskQueue (fst (ev_pumps S p))"

abbreviation event_task :: "(nat \<Rightarrow> int) \<Rightarrow> nat \<Rightarrow> (event_fn, unit, nat) Task" where
  "event_task junk a \<equiv> NEW_TASK1 (junk a) () fn_RunEventHandler (Some a)"

lemma POST_EVENT_serves:
  assumes "serves p n S" and "is_heap GetTaskPriority (event_queue p S)"
  shows "\<exists>S'. POST_EVENT cap t n S = Inr S' \<and> is_heap GetTaskPriority (event_queue p S') \<and>
           mset (event_queue p S') = add_mset t (mset (event_queue p S)) \<and>
           te_objects S' = te_objects S \<and> hub S' = hub S \<and> (\<forall>m. serves p m S \<longrightarrow> serves p m S')"
proof -
  obtain r a where r: "GetTaskRunner n (ev_disp S) = Some r" "runner_dmp r = Ptr p"
    "sts (fst (ev_pumps S p)) = Ptr a" "\<not> guard_held (snd (ev_pumps S p))"
    using assms(1) by (auto simp: serves_def)
  obtain P T where PT: "ev_pumps S p = (P, T)" by (cases "ev_pumps S p")
  have T: "guard_held (write_byte cap T) = guard_held T" by (simp add: write_byte_def)
  show ?thesis
    using r PT assms(2) T
    by (auto simp: POST_EVENT_def PostTask_runner [OF r(1,2)] PostMessageToThread_def
        LockedPostTaskToQueue_def heap_push_correct serves_def)
qed

abbreviation async :: "'h EventHandler list \<Rightarrow> 'h EventHandler list" where
  "async hs \<equiv> filter runHandlerAsTask hs"

abbreviation direct :: "'h EventHandler list \<Rightarrow> 'h EventHandler list" where
  "direct hs \<equiv> filter (\<lambda>eh. \<not> runHandlerAsTask eh) hs"

abbreviation run_all :: "('h \<Rightarrow> 'v \<Rightarrow> ('h, 's) hub_state \<Rightarrow> ('h, 's) hub_state) \<Rightarrow> 'v \<Rightarrow> 'h EventHandler list \<Rightarrow> ('h, 's) hub_state \<Rightarrow> ('h, 's) hub_state" where
  "run_all e args hs \<equiv> fold (\<lambda>eh. e (the (handler eh)) args) hs"

definition triggerable :: "nat \<Rightarrow> ('h, 'v, 's) event_sys \<Rightarrow> 'h EventHandler \<Rightarrow> bool" where
  "triggerable p S eh \<longleftrightarrow> handler eh \<noteq> None \<and> (\<not> runHandlerAsTask eh \<or> serves p (owningThread eh) S)"

lemma upt_split: "[n..<Suc (n + k)] = n # [Suc n..<Suc (n + k)]"
  by (simp add: upt_conv_Cons del: upt_Suc)

lemma trigger_loop_posts:
  assumes "\<And>f v H. exec f v H = Inr (e f v H)" and "list_all (triggerable p S) hs"
    and "is_heap GetTaskPriority (event_queue p S)"
  shows "\<exists>S'. trigger_loop cap junk exec args hs S = Inr S' \<and> is_heap GetTaskPriority (event_queue p S') \<and>
           te_objects S' = te_objects S @ map (\<lambda>eh. \<lparr>eventHandler = eh, event_args = args\<rparr>) (async hs) \<and>
           mset (event_queue p S') = mset (event_queue p S) +
             mset (map (event_task junk) [length (te_objects S)..<length (te_objects S) + length (async hs)]) \<and>
           hub S' = run_all e args (direct hs) (hub S)"
  using assms(2,3)
proof (induction hs arbitrary: S)
  case (Cons eh hs)
  show ?case
  proof (cases "runHandlerAsTask eh")
    case False
    have "triggerable p (S\<lparr>hub := H\<rparr>) = triggerable p S" for H
      by (auto simp: triggerable_def serves_def)
    with Cons.IH [of "S\<lparr>hub := e (the (handler eh)) args (hub S)\<rparr>"] Cons.prems False assms(1) show ?thesis
      by (auto simp: call_handler_def triggerable_def)
  next
    case True
    define S0 where "S0 = S\<lparr>te_objects := te_objects S @ [\<lparr>eventHandler = eh, event_args = args\<rparr>]\<rparr>"
    have same: "serves p n S0 = serves p n S" for n by (simp add: S0_def serves_def)
    have "serves p (owningThread eh) S0" using Cons.prems(1) True by (simp add: same triggerable_def)
    from POST_EVENT_serves [OF this, of cap "event_task junk (length (te_objects S))"] Cons.prems(2)
    obtain S1 where S1: "POST_EVENT cap (event_task junk (length (te_objects S))) (owningThread eh) S0 = Inr S1"
      "is_heap GetTaskPriority (event_queue p S1)"
      "mset (event_queue p S1) = add_mset (event_task junk (length (te_objects S))) (mset (event_queue p S))"
      "te_objects S1 = te_objects S0" "hub S1 = hub S" "\<And>n. serves p n S0 \<Longrightarrow> serves p n S1"
      by (auto simp: S0_def)
    have "list_all (triggerable p S1) hs"
      using Cons.prems(1) S1(6) by (auto simp: triggerable_def same list_all_iff)
    from Cons.IH [OF this S1(2)] obtain S' where S': "trigger_loop cap junk exec args hs S1 = Inr S'"
      "is_heap GetTaskPriority (event_queue p S')"
      "te_objects S' = te_objects S1 @ map (\<lambda>eh. \<lparr>eventHandler = eh, event_args = args\<rparr>) (async hs)"
      "mset (event_queue p S') = mset (event_queue p S1) +
         mset (map (event_task junk) [length (te_objects S1)..<length (te_objects S1) + length (async hs)])"
      "hub S' = run_all e args (direct hs) (hub S1)" by blast
    have "trigger_loop cap junk exec args (eh # hs) S = Inr S'"
      using True S1(1) S'(1) by (simp add: Let_def S0_def)
    moreover have "length (te_objects S1) = Suc (length (te_objects S))" using S1(4) by (simp add: S0_def)
    ultimately show ?thesis using S' S1(3,4,5) True by (intro exI [of _ S']) (simp add: S0_def upt_split del: upt_Suc)
  qed
qed simp

lemma event_tasks_run:
  assumes "\<And>f v H. exec f v H = Inr (e f v H)"
    and "\<forall>a \<in> set as. a < length objs \<and> handler (eventHandler (objs ! a)) \<noteq> None \<and> event_args (objs ! a) = args"
  shows "run_list (\<lambda>c. RunEventHandler exec objs (argument c)) (map (event_task junk) as) H =
           Inr (run_all e args (map (\<lambda>a. eventHandler (objs ! a)) as) H)"
  using assms(2)
proof (induction as arbitrary: H)
  case (Cons a as)
  then show ?case
    by (auto simp: assms(1) RunEventHandler_def call_handler_def)
qed simp

text \<open>A list of event tasks with the right tasks in it is determined by the addresses in it.\<close>

lemma event_tasks_of:
  assumes "mset ts = mset (map (event_task junk) as)"
  obtains bs where "ts = map (event_task junk) bs" and "mset bs = mset as"
proof
  let ?arg = "\<lambda>t :: (event_fn, unit, nat) Task. the (functionArguments t)"
  have arg: "?arg (event_task junk a) = a" for a by (simp add: create_defs bind_defs)
  have "t = event_task junk (?arg t)" if "t \<in> set ts" for t
  proof -
    have "t \<in> set (map (event_task junk) as)" using that mset_eq_setD [OF assms] by simp
    then show ?thesis using arg by auto
  qed
  then show "ts = map (event_task junk) (map ?arg ts)" by (simp add: map_idI)
  have "mset (map ?arg ts) = image_mset ?arg (mset ts)" by (rule mset_map)
  also have "\<dots> = image_mset ?arg (mset (map (event_task junk) as))" by (simp only: assms)
  also have "\<dots> = image_mset (\<lambda>a. ?arg (event_task junk a)) (mset as)"
    by (simp only: mset_map image_mset.compositionality Fun.comp_def)
  finally show "mset (map ?arg ts) = mset as" by (simp only: arg image_mset.identity id_apply)
qed

section \<open>Properties\<close>

text \<open>
  C34. An event reaches every handler that is registered when it is triggered, exactly once and with the
  event's argument: the direct handlers at once and in order, whatever they do to the hub
  meanwhile; the others, whose owner is a running task runner, in one turn of the owner's loop, in
  some order, and also when they are unregistered before the loop gets to them.
\<close>

theorem triggered_handlers_run_once:
  assumes "eventHandlers (hub S) (c_str name) = Some hs"
    and "\<And>f v H. exec f v H = Inr (e f v H)"
    and "list_all (triggerable p S) hs" and "event_queue p S = []"
  shows "\<exists>S1 order. TriggerEvent cap junk exec name args S = Inr S1 \<and>
           hub S1 = run_all e args (direct hs) (hub S) \<and> mset order = mset (async hs) \<and>
           (\<forall>H. \<exists>S2. event_turn exec p (S1\<lparr>hub := H\<rparr>) = Inr S2 \<and> hub S2 = run_all e args order H)"
proof -
  let ?n = "length (te_objects S)"
  have "is_heap GetTaskPriority (event_queue p S)" using assms(4) by (simp add: is_heap_def)
  from trigger_loop_posts [of exec e, OF assms(2,3) this, of cap junk args] assms(1,4)
  obtain S1 where S1: "TriggerEvent cap junk exec name args S = Inr S1" "is_heap GetTaskPriority (event_queue p S1)"
    "te_objects S1 = te_objects S @ map (\<lambda>eh. \<lparr>eventHandler = eh, event_args = args\<rparr>) (async hs)"
    "mset (event_queue p S1) = mset (map (event_task junk) [?n..<?n + length (async hs)])"
    "hub S1 = run_all e args (direct hs) (hub S)" by (auto simp: TriggerEvent_def)
  note all = vector_heap.pops_all [OF S1(2) size_mset [symmetric]]
  obtain as where as: "served (event_queue p S1) = map (event_task junk) as"
    "mset as = mset [?n..<?n + length (async hs)]"
    by (rule event_tasks_of [OF trans [OF conjunct1 [OF all] S1(4)]])
  have in_as: "a \<in> set as \<longleftrightarrow> ?n \<le> a \<and> a < ?n + length (async hs)" for a
    using mset_eq_setD [OF as(2)] by simp
  have obj: "te_objects S1 ! (?n + k) = \<lparr>eventHandler = async hs ! k, event_args = args\<rparr>" if "k < length (async hs)" for k
    using that by (simp add: S1(3) nth_append)
  have ok: "\<forall>a \<in> set as. a < length (te_objects S1) \<and> handler (eventHandler (te_objects S1 ! a)) \<noteq> None \<and>
      event_args (te_objects S1 ! a) = args"
  proof
    fix a assume "a \<in> set as"
    then have bounds: "?n \<le> a \<and> a < ?n + length (async hs)" by (simp only: in_as)
    define k where "k = a - ?n"
    have k: "a = ?n + k" "k < length (async hs)" using bounds by (simp_all only: k_def) arith+
    have "async hs ! k \<in> set hs" using nth_mem [OF k(2)] by simp
    then have "handler (async hs ! k) \<noteq> None" using assms(3) by (auto simp: list_all_iff triggerable_def)
    with k(2) obj [OF k(2)] show "a < length (te_objects S1) \<and> handler (eventHandler (te_objects S1 ! a)) \<noteq> None \<and>
      event_args (te_objects S1 ! a) = args" unfolding k(1) by (simp add: S1(3))
  qed
  let ?order = "map (\<lambda>a. eventHandler (te_objects S1 ! a)) as"
  have "mset ?order = mset (map (\<lambda>a. eventHandler (te_objects S1 ! a)) [?n..<?n + length (async hs)])"
    by (simp only: mset_map as(2))
  also have "map (\<lambda>a. eventHandler (te_objects S1 ! a)) [?n..<?n + length (async hs)] = async hs"
    by (rule nth_equalityI) (simp_all add: obj)
  finally have "mset ?order = mset (async hs)" .
  moreover have "\<exists>S2. event_turn exec p (S1\<lparr>hub := H\<rparr>) = Inr S2 \<and> hub S2 = run_all e args ?order H" for H
    by (simp add: event_turn_def loop_turn_def run_tasks_served as(1) event_tasks_run [of exec e, OF assms(2) ok])
  ultimately show ?thesis using S1(1,5) by blast
qed

text \<open>A hub with a direct and a posted handler for one event, owned by the running task runner \<open>Main\<close>.\<close>

definition demo_handlers :: "nat EventHandler list" where
  "demo_handlers =
     [\<lparr>event_name = ''open'', runHandlerAsTask = True, handler = Some 1, owningThread = ''Main'', handler_id = ''a''\<rparr>,
      \<lparr>event_name = ''open'', runHandlerAsTask = False, handler = Some 2, owningThread = ''Main'', handler_id = ''b''\<rparr>]"

definition demo_events :: "(nat, nat, (nat \<times> nat) list) event_sys" where
  "demo_events =
     \<lparr>ev_disp = snd (TaskRunner_Init 7 0 1 ''Main'' Null Dispatcher_new),
      ev_pumps = (\<lambda>_. ((MessagePumpEPoll_new ''Main'')\<lparr>sts := Ptr 1\<rparr>, SharedThreadState_new)),
      te_objects = [], hub = \<lparr>eventHandlers = [''open'' \<mapsto> demo_handlers], app_state = []\<rparr>\<rparr>"

definition demo_effect :: "nat \<Rightarrow> nat \<Rightarrow> (nat, (nat \<times> nat) list) hub_state \<Rightarrow> (nat, (nat \<times> nat) list) hub_state" where
  "demo_effect f v H = H\<lparr>app_state := app_state H @ [(f, v)]\<rparr>"

theorem triggered_handlers_run_once_witness:
  "\<exists>S1 order. TriggerEvent 16 (\<lambda>_. 0) (\<lambda>f v H. Inr (demo_effect f v H)) ''open'' 5 demo_events = Inr S1 \<and>
     hub S1 = run_all demo_effect 5 (direct demo_handlers) (hub demo_events) \<and> mset order = mset (async demo_handlers) \<and>
     (\<forall>H. \<exists>S2. event_turn (\<lambda>f v H. Inr (demo_effect f v H)) 0 (S1\<lparr>hub := H\<rparr>) = Inr S2 \<and> hub S2 = run_all demo_effect 5 order H)"
  by (rule triggered_handlers_run_once)
     (simp_all add: demo_events_def demo_handlers_def triggerable_def serves_def TaskRunner_Init_def
        Dispatcher_new_def AddTaskRunner_def GetTaskRunner_def Let_def MessagePumpEPoll_new_def SharedThreadState_new_def)

text \<open>
  Unregistering a handler undoes its registration and leaves every other event and handler as
  it was. A handler for an event nobody registered is ignored, but unregistering from
  such an event makes it known, so that a later registration is accepted.
\<close>

theorem unregister_undoes_register:
  assumes "eventHandlers H (c_str name) = Some hs" and "handler_id eh \<notin> handler_id ` set hs"
    and "eventHandlers H (c_str other) = None"
  shows "UnregisterEventHandler name (handler_id eh) (RegisterEventHandler name eh H) = H \<and>
         RegisterEventHandler other eh H = H \<and>
         eventHandlers (RegisterEventHandler other eh (UnregisterEventHandler other i H)) (c_str other) = Some [eh]"
proof -
  have "erase_id (handler_id eh) (hs @ [eh]) = hs" by (simp add: erase_id_append assms(2))
  moreover have "(eventHandlers H)(c_str name \<mapsto> hs) = eventHandlers H" using assms(1) by auto
  ultimately show ?thesis
    using assms(1,3) by (simp add: UnregisterEventHandler_def RegisterEventHandler_def)
qed

theorem unregister_undoes_register_witness:
  "(let H = hub demo_events; eh = (hd demo_handlers)\<lparr>handler_id := ''c''\<rparr> in
    UnregisterEventHandler ''open'' (handler_id eh) (RegisterEventHandler ''open'' eh H) = H \<and>
    RegisterEventHandler ''shut'' eh H = H \<and>
    eventHandlers (RegisterEventHandler ''shut'' eh (UnregisterEventHandler ''shut'' ''x'' H)) (c_str ''shut'') = Some [eh])"
  unfolding Let_def
  by (rule unregister_undoes_register [where hs = demo_handlers])
     (simp_all add: demo_events_def demo_handlers_def)

end
