(* ===== verification/Tm_Tasks.thy ===== *)
theory Tm_Tasks
  imports Task_Types Base_Utils
begin

text \<open>
  \<^verbatim>\<open>base/taskmanager/dispatcher/TaskManagerTypes.h\<close>: the tasks of the experimental task manager. The
  class is a sibling of the dispatcher's \<^verbatim>\<open>Task\<close> with the same function slots and flags and an
  identifier of its own, so its record extends the one of \<open>Task_Types\<close>. The functions \<^verbatim>\<open>Bind\<close>,
  \<^verbatim>\<open>Create\<close> and \<^verbatim>\<open>Invoke\<close> are those of this file. As there, the overload for static functions
  cannot be instantiated and has no model.

  \<open>junk\<close> is the content of the uninitialised priority; \<open>i\<close> is the random identifier the
  constructor draws.
\<close>

section \<open>Data\<close>

datatype Priority = High | Normal | Low

fun Priority_num :: "Priority \<Rightarrow> int" where
  "Priority_num High = 0"
| "Priority_num Normal = 1"
| "Priority_num Low = 2"

text \<open>What a function returns: any value, or none.\<close>

record 'v TaskResult = task_result :: "'v option"

definition TaskResult_empty :: "'v TaskResult" where
  "TaskResult_empty = \<lparr>task_result = None\<rparr>"

definition TaskResult_new :: "'v \<Rightarrow> 'v TaskResult" where
  "TaskResult_new v = TaskResult_empty\<lparr>task_result := Some v\<rparr>"

record ('f, 'o, 'a) TmTask = "('f, 'o, 'a) Task" +
  taskID :: string

definition TmTask_new :: "int \<Rightarrow> string \<Rightarrow> ('f, 'o, 'a) TmTask" where
  "TmTask_new junk i =
     \<lparr>cbFunction = None, taskFunction = None, taskNothing = None, taskFuncNoArgs = None,
      taskFuncNoReturn = None, taskPriority = junk, taskFuncInstance = None, cbFuncInstance = None,
      functionArguments = None, hasCB = False, isCBTask = False, hasArgs = False, hasReturn = True,
      isComplete = False, cbThreadName = [], taskID = i\<rparr>"

section \<open>Binding\<close>

definition Tm_Bind_result0 :: "'f \<Rightarrow> 'o \<Rightarrow> Priority \<Rightarrow> ('f, 'o, 'a) TmTask \<Rightarrow> ('f, 'o, 'a) TmTask" where
  "Tm_Bind_result0 f reference priority t =
     t\<lparr>taskFuncInstance := Some reference, functionArguments := None, hasCB := False, hasArgs := False,
       isCBTask := False, taskPriority := Priority_num priority, taskFuncNoArgs := Some f\<rparr>"

definition Tm_Bind_result1 ::
    "'f \<Rightarrow> 'o \<Rightarrow> 'a option \<Rightarrow> Priority \<Rightarrow> ('f, 'o, 'a) TmTask \<Rightarrow> ('f, 'o, 'a) TmTask" where
  "Tm_Bind_result1 f reference args priority t =
     t\<lparr>taskFuncInstance := Some reference, functionArguments := args, hasCB := False, hasArgs := True,
       isCBTask := False, hasReturn := True, taskPriority := Priority_num priority, taskFunction := Some f\<rparr>"

text \<open>As in the dispatcher's class, the overload for \<^verbatim>\<open>void (C::*)(void*)\<close> does not store the priority.\<close>

definition Tm_Bind_void1 ::
    "'f \<Rightarrow> 'o \<Rightarrow> 'a option \<Rightarrow> Priority \<Rightarrow> ('f, 'o, 'a) TmTask \<Rightarrow> ('f, 'o, 'a) TmTask" where
  "Tm_Bind_void1 f reference args priority t =
     t\<lparr>taskFuncInstance := Some reference, functionArguments := args, hasCB := False, hasArgs := True,
       isCBTask := False, hasReturn := False, taskFuncNoReturn := Some f\<rparr>"

definition Tm_Bind_void0 :: "'f \<Rightarrow> 'o \<Rightarrow> Priority \<Rightarrow> ('f, 'o, 'a) TmTask \<Rightarrow> ('f, 'o, 'a) TmTask" where
  "Tm_Bind_void0 f reference priority t =
     t\<lparr>taskFuncInstance := Some reference, functionArguments := None, hasCB := False, hasArgs := False,
       isCBTask := False, hasReturn := False, taskPriority := Priority_num priority, taskNothing := Some f\<rparr>"

definition Tm_CallbackBind :: "'o \<Rightarrow> 'f \<Rightarrow> 'a option \<Rightarrow> ('f, 'o, 'a) TmTask \<Rightarrow> ('f, 'o, 'a) TmTask" where
  "Tm_CallbackBind reference cb args t =
     t\<lparr>cbFuncInstance := Some reference, functionArguments := args, cbFunction := Some cb,
       isCBTask := True, hasReturn := False, hasCB := False\<rparr>"

definition CreateCallbackTask :: "int \<Rightarrow> string \<Rightarrow> 'a option \<Rightarrow> 'o \<Rightarrow> 'f \<Rightarrow> ('f, 'o, 'a) TmTask" where
  "CreateCallbackTask junk i tr reference callback = Tm_CallbackBind reference callback tr (TmTask_new junk i)"

section \<open>Creating\<close>

definition Tm_Create_void1 :: "int \<Rightarrow> string \<Rightarrow> 'f \<Rightarrow> 'o \<Rightarrow> 'a option \<Rightarrow> Priority \<Rightarrow> ('f, 'o, 'a) TmTask" where
  "Tm_Create_void1 junk i f reference args priority = Tm_Bind_void1 f reference args priority (TmTask_new junk i)"

definition Tm_Create_result1 :: "int \<Rightarrow> string \<Rightarrow> 'f \<Rightarrow> 'o \<Rightarrow> 'a option \<Rightarrow> Priority \<Rightarrow> ('f, 'o, 'a) TmTask" where
  "Tm_Create_result1 junk i f reference args priority = Tm_Bind_result1 f reference args priority (TmTask_new junk i)"

definition Tm_Create_void0 :: "int \<Rightarrow> string \<Rightarrow> 'f \<Rightarrow> 'o \<Rightarrow> Priority \<Rightarrow> ('f, 'o, 'a) TmTask" where
  "Tm_Create_void0 junk i f reference priority = Tm_Bind_void0 f reference priority (TmTask_new junk i)"

definition Tm_Create_result0 :: "int \<Rightarrow> string \<Rightarrow> 'f \<Rightarrow> 'o \<Rightarrow> Priority \<Rightarrow> ('f, 'o, 'a) TmTask" where
  "Tm_Create_result0 junk i f reference priority = Tm_Bind_result0 f reference priority (TmTask_new junk i)"

definition Tm_NEW_TASK0 :: "int \<Rightarrow> string \<Rightarrow> 'o \<Rightarrow> 'f \<Rightarrow> Priority \<Rightarrow> ('f, 'o, 'a) TmTask" where
  "Tm_NEW_TASK0 junk i Ref fn TPriority = Tm_Create_void0 junk i fn Ref TPriority"

section \<open>Invoking\<close>

text \<open>The trampolines: whatever the overload, the stored function is called on the stored object.\<close>

definition Tm_ClassMethod :: "'f option \<Rightarrow> 'o option \<Rightarrow> 'a option \<Rightarrow> ('f, 'o, 'a) call result" where
  "Tm_ClassMethod slot ptr args =
     (case slot of None \<Rightarrow> Inl UninitCall
      | Some f \<Rightarrow> Inr \<lparr>callee = f, object_ref = ptr, argument = args\<rparr>)"

lemma Tm_ClassMethod_eq [simp]: "Tm_ClassMethod = ClassMethod"
  by (intro ext) (simp add: Tm_ClassMethod_def ClassMethod_def)

text \<open>The call a task makes; the caller marks the task as complete where it lies in memory.\<close>

definition Tm_call :: "('f, 'o, 'a) TmTask \<Rightarrow> ('f, 'o, 'a) call result" where
  "Tm_call t =
     (if functionArguments t \<noteq> None then
        if \<not> isCBTask t then
          if hasReturn t then Tm_ClassMethod (taskFunction t) (taskFuncInstance t) (functionArguments t)
          else Tm_ClassMethod (taskFuncNoReturn t) (taskFuncInstance t) (functionArguments t)
        else Tm_ClassMethod (cbFunction t) (cbFuncInstance t) (functionArguments t)
      else
        if hasReturn t then Tm_ClassMethod (taskFuncNoArgs t) (taskFuncInstance t) None
        else Tm_ClassMethod (taskNothing t) (taskFuncInstance t) None)"

definition InvokeAndReturn :: "bool \<Rightarrow> ('f, 'o, 'a) TmTask \<Rightarrow> ('f, 'o, 'a) call result" where
  "InvokeAndReturn NoArguments t =
     (if \<not> NoArguments then Tm_ClassMethod (taskFunction t) (taskFuncInstance t) (functionArguments t)
      else Tm_ClassMethod (taskFuncNoArgs t) (taskFuncInstance t) None)"

text \<open>The posting of the callback is commented out, so the result of the call is dropped.\<close>

definition InvokeWithCallback :: "bool \<Rightarrow> ('f, 'o, 'a) TmTask \<Rightarrow> ('f, 'o, 'a) call result" where
  "InvokeWithCallback NoArguments t = InvokeAndReturn NoArguments t"

definition Tm_HasCallback :: "('f, 'o, 'a) TmTask \<Rightarrow> bool" where
  "Tm_HasCallback t = hasCB t"

definition Tm_HasArguments :: "('f, 'o, 'a) TmTask \<Rightarrow> bool" where
  "Tm_HasArguments t = hasArgs t"

definition IsCompleted :: "('f, 'o, 'a) TmTask \<Rightarrow> bool" where
  "IsCompleted t = isComplete t"

definition Tm_GetCallbackThreadName :: "('f, 'o, 'a) TmTask \<Rightarrow> string" where
  "Tm_GetCallbackThreadName t = cbThreadName t"

definition Tm_GetTaskPriority :: "('f, 'o, 'a) TmTask \<Rightarrow> int" where
  "Tm_GetTaskPriority t = taskPriority t"

definition GetTaskID :: "('f, 'o, 'a) TmTask \<Rightarrow> string" where
  "GetTaskID t = taskID t"

definition Tm_PriorityComparer :: "('f, 'o, 'a) TmTask \<Rightarrow> ('f, 'o, 'a) TmTask \<Rightarrow> bool" where
  "Tm_PriorityComparer x y \<longleftrightarrow> Tm_GetTaskPriority x > Tm_GetTaskPriority y"

lemmas tm_bind_defs = Tm_Bind_result0_def Tm_Bind_result1_def Tm_Bind_void1_def
  Tm_Bind_void0_def Tm_CallbackBind_def TmTask_new_def
lemmas tm_create_defs = Tm_Create_void1_def Tm_Create_result1_def Tm_Create_void0_def
  Tm_Create_result0_def Tm_NEW_TASK0_def CreateCallbackTask_def

section \<open>Both classes call alike\<close>

text \<open>
  A task of the task manager calls what the dispatcher's task with the same fields would call. So
  what is proved there about bound functions holds here too.
\<close>

lemma Tm_call_Invoke: "Tm_call t = map_sum id fst (Invoke (Task.truncate t))"
  by (auto simp: Tm_call_def Invoke_def ClassMethod_def Task.truncate_def bindr_def split: sum.splits option.splits)

lemma Tm_tasks [simp]:
  "Tm_call (Tm_Create_void0 junk i f r p) = Inr \<lparr>callee = f, object_ref = Some r, argument = None\<rparr>"
  "Tm_call (Tm_Create_result0 junk i f r p) = Inr \<lparr>callee = f, object_ref = Some r, argument = None\<rparr>"
  "Tm_call (Tm_Create_void1 junk i f r (Some a) p) = Inr \<lparr>callee = f, object_ref = Some r, argument = Some a\<rparr>"
  "Tm_call (Tm_Create_result1 junk i f r (Some a) p) = Inr \<lparr>callee = f, object_ref = Some r, argument = Some a\<rparr>"
  "Tm_call (CreateCallbackTask junk i (Some a) r f) = Inr \<lparr>callee = f, object_ref = Some r, argument = Some a\<rparr>"
  "\<not> IsCompleted (Tm_Create_void0 junk i f r p)" "\<not> IsCompleted (Tm_Create_result0 junk i f r p)"
  "\<not> IsCompleted (Tm_Create_void1 junk i f r args p)" "\<not> IsCompleted (Tm_Create_result1 junk i f r args p)"
  by (simp_all add: Tm_call_def ClassMethod_def IsCompleted_def tm_create_defs tm_bind_defs)

end
