(* ===== verification/Task_Manager.thy ===== *)
theory Task_Manager
  imports Tm_Tasks Std_Heap
begin

text \<open>
  \<^verbatim>\<open>base/taskmanager\<close>: the experimental successor of the dispatcher. A \<^verbatim>\<open>Runner\<close> serves a priority queue
  of its own on a dedicated thread, or a task that a \<^verbatim>\<open>ThreadPool\<close> hands to it; the \<^verbatim>\<open>TaskManager\<close>
  keeps the named runners and the pool.

  Both queues store the tasks themselves in a vector, and the code keeps pointers to the first slot
  of it while the vector changes. A vector therefore has an allocation number that changes
  whenever pushing moves it to larger storage, and a pointer to a slot is the allocation
  number with the index: it dangles when the number changed or the slot's object is gone.

  What a bound function does is the parameter \<open>exec\<close>. Waiting is a flag of the runner: a signal
  wakes a runner that waits and is lost otherwise. Creating the operating system's thread cannot
  fail here; a failure is only logged by the code.
\<close>

section \<open>Vectors as priority queues\<close>

record 't vec =
  vec_gen :: nat
  vec_cap :: nat
  vec_items :: "'t list"

definition vec_new :: "'t vec" where
  "vec_new = \<lparr>vec_gen = 0, vec_cap = 0, vec_items = []\<rparr>"

definition vec_push :: "('f, 'o, 'a) TmTask \<Rightarrow> ('f, 'o, 'a) TmTask vec \<Rightarrow> ('f, 'o, 'a) TmTask vec" where
  "vec_push t v =
     (let full = (length (vec_items v) = vec_cap v) in
      \<lparr>vec_gen = (if full then Suc (vec_gen v) else vec_gen v),
       vec_cap = (if full then max 1 (2 * vec_cap v) else vec_cap v),
       vec_items = heap_push Tm_GetTaskPriority t (vec_items v)\<rparr>)"

definition vec_pop :: "('f, 'o, 'a) TmTask vec \<Rightarrow> ('f, 'o, 'a) TmTask vec" where
  "vec_pop v = v\<lparr>vec_items := heap_pop Tm_GetTaskPriority (vec_items v)\<rparr>"

datatype 't task_ptr = NullTask | HeapTask 't | VecSlot nat nat

definition vec_top :: "'t vec \<Rightarrow> 't task_ptr" where
  "vec_top v = VecSlot (vec_gen v) 0"

fun deref_task :: "'t vec \<Rightarrow> 't task_ptr \<Rightarrow> 't result" where
  "deref_task v NullTask = Inl NullDeref"
| "deref_task v (HeapTask t) = Inr t"
| "deref_task v (VecSlot g i) =
     (if g = vec_gen v \<and> i < length (vec_items v) then Inr (vec_items v ! i) else Inl UseAfterFree)"

text \<open>\<^verbatim>\<open>Invoke\<close> ends with an assignment to the task it was called on.\<close>

fun mark_complete :: "('f, 'o, 'a) TmTask task_ptr \<Rightarrow> ('f, 'o, 'a) TmTask vec \<Rightarrow> ('f, 'o, 'a) TmTask vec result" where
  "mark_complete NullTask v = Inl NullDeref"
| "mark_complete (HeapTask t) v = Inr v"
| "mark_complete (VecSlot g i) v =
     (if g = vec_gen v \<and> i < length (vec_items v)
      then Inr (v\<lparr>vec_items := (vec_items v)[i := (vec_items v ! i)\<lparr>isComplete := True\<rparr>]\<rparr>)
      else Inl UseAfterFree)"

section \<open>Runners\<close>

record ('f, 'o, 'a) Runner =
  inUse :: bool
  keepRunning :: bool
  pendingTask :: "('f, 'o, 'a) TmTask task_ptr"
  threadPoolTaskRunner :: bool
  runner_waiting :: bool
  runner_queue :: "('f, 'o, 'a) TmTask vec option"

definition Runner_new :: "bool \<Rightarrow> ('f, 'o, 'a) Runner" where
  "Runner_new forPoolThread =
     \<lparr>inUse = False, keepRunning = True, pendingTask = NullTask, threadPoolTaskRunner = forPoolThread,
      runner_waiting = False, runner_queue = (if forPoolThread then None else Some vec_new)\<rparr>"

definition Runner_Signal :: "('f, 'o, 'a) Runner \<Rightarrow> ('f, 'o, 'a) Runner" where
  "Runner_Signal r = r\<lparr>runner_waiting := False\<rparr>"

definition StopRunning :: "('f, 'o, 'a) Runner \<Rightarrow> ('f, 'o, 'a) Runner" where
  "StopRunning r = r\<lparr>keepRunning := False\<rparr>"

definition SetExecutionStatus :: "('f, 'o, 'a) Runner \<Rightarrow> ('f, 'o, 'a) Runner" where
  "SetExecutionStatus r = r\<lparr>inUse := True\<rparr>"

definition GetExecutionStatus :: "('f, 'o, 'a) Runner \<Rightarrow> bool" where
  "GetExecutionStatus r = inUse r"

text \<open>
  \<^verbatim>\<open>PostTask\<close> copies the task into the runner's own queue, or stores the pointer: \<^verbatim>\<open>reset\<close> deletes the
  task the \<^verbatim>\<open>unique_ptr\<close> held before, which must have come from \<^verbatim>\<open>new\<close>.
\<close>

fun delete_task :: "'t task_ptr \<Rightarrow> unit result" where
  "delete_task NullTask = Inr ()"
| "delete_task (HeapTask t) = Inr ()"
| "delete_task (VecSlot g i) = Inl InvalidFree"

definition Runner_PostTask ::
    "('f, 'o, 'a) TmTask vec \<Rightarrow> ('f, 'o, 'a) TmTask task_ptr \<Rightarrow> ('f, 'o, 'a) Runner \<Rightarrow> ('f, 'o, 'a) Runner result" where
  "Runner_PostTask v p r =
     (if \<not> threadPoolTaskRunner r then
        case runner_queue r of
          None \<Rightarrow> Inl NullDeref
        | Some q \<Rightarrow> bindr (deref_task v p) (\<lambda>t. Inr (r\<lparr>runner_queue := Some (vec_push t q)\<rparr>))
      else bindr (delete_task (pendingTask r)) (\<lambda>_. Inr (r\<lparr>pendingTask := p\<rparr>)))"

text \<open>
  A dedicated runner executes the task at the top of its queue in place and pops it afterwards. The
  function may post to the same runner, so \<open>exec\<close> works on the runner too.
\<close>

definition ExecuteRegularTask ::
    "(('f, 'o, 'a) call \<Rightarrow> ('f, 'o, 'a) Runner \<times> 's \<Rightarrow> (('f, 'o, 'a) Runner \<times> 's) result)
       \<Rightarrow> ('f, 'o, 'a) Runner \<times> 's \<Rightarrow> (('f, 'o, 'a) Runner \<times> 's) result" where
  "ExecuteRegularTask exec = (\<lambda>(r, s).
     case runner_queue r of
       None \<Rightarrow> Inl NullDeref
     | Some q \<Rightarrow>
         if length (vec_items q) > 0 then
           let t = vec_top q in
           bindr (deref_task q t) (\<lambda>task.
           bindr (if \<not> IsCompleted task
                  then bindr (Tm_call task) (\<lambda>c.
                       bindr (exec c (r, s)) (\<lambda>(r, s).
                       case runner_queue r of
                         None \<Rightarrow> Inl NullDeref
                       | Some q \<Rightarrow> bindr (mark_complete t q) (\<lambda>q. Inr (r\<lparr>runner_queue := Some q\<rparr>, s))))
                  else Inr (r, s)) (\<lambda>(r, s).
           case runner_queue r of
             None \<Rightarrow> Inl NullDeref
           | Some q \<Rightarrow> Inr (r\<lparr>runner_queue := Some (vec_pop q)\<rparr>, s)))
         else Inr (r, s))"

text \<open>
  The loop of a dedicated runner up to the point where it waits or stops. \<open>None\<close>: the fuel did not
  suffice; a queue of \<open>n\<close> tasks that post nothing needs \<open>Suc n\<close>.
\<close>

fun StartTaskRunner ::
    "nat \<Rightarrow> (('f, 'o, 'a) call \<Rightarrow> ('f, 'o, 'a) Runner \<times> 's \<Rightarrow> (('f, 'o, 'a) Runner \<times> 's) result)
       \<Rightarrow> ('f, 'o, 'a) Runner \<times> 's \<Rightarrow> (('f, 'o, 'a) Runner \<times> 's) result option" where
  "StartTaskRunner 0 exec rs = None"
| "StartTaskRunner (Suc n) exec rs =
     (if \<not> keepRunning (fst rs) then Some (Inr rs)
      else
        case ExecuteRegularTask exec rs of
          Inl e \<Rightarrow> Some (Inl e)
        | Inr (r, s) \<Rightarrow>
            (case runner_queue r of
               None \<Rightarrow> Some (Inl NullDeref)
             | Some q \<Rightarrow>
                 if vec_items q = [] then Some (Inr (r\<lparr>runner_waiting := True\<rparr>, s))
                 else StartTaskRunner n exec (r, s)))"

section \<open>The thread pool\<close>

record ('f, 'o, 'a) ThreadPool =
  pool_queue :: "('f, 'o, 'a) TmTask vec"
  pool_runners :: "('f, 'o, 'a) Runner list"

text \<open>\<^verbatim>\<open>inUseThreads\<close> is a \<^verbatim>\<open>bitset<255>\<close> that is written for every thread and never read.\<close>

definition ThreadPool_new :: "nat \<Rightarrow> ('f, 'o, 'a) ThreadPool result" where
  "ThreadPool_new poolSize =
     (if poolSize \<le> 255
      then Inr \<lparr>pool_queue = vec_new, pool_runners = replicate poolSize (Runner_new True)\<rparr>
      else Inl OutOfBounds)"

definition Pool_PostTask :: "('f, 'o, 'a) TmTask task_ptr \<Rightarrow> ('f, 'o, 'a) ThreadPool \<Rightarrow> ('f, 'o, 'a) ThreadPool result" where
  "Pool_PostTask p P =
     bindr (deref_task (pool_queue P) p) (\<lambda>t. Inr (P\<lparr>pool_queue := vec_push t (pool_queue P)\<rparr>))"

fun first_unused :: "nat \<Rightarrow> ('f, 'o, 'a) Runner list \<Rightarrow> nat" where
  "first_unused i [] = 255"
| "first_unused i (r # rs) = (if \<not> GetExecutionStatus r then i else first_unused (Suc i) rs)"

definition GetUnusedThread :: "('f, 'o, 'a) ThreadPool \<Rightarrow> nat" where
  "GetUnusedThread P = first_unused 0 (pool_runners P)"

definition QueuePop :: "('f, 'o, 'a) ThreadPool \<Rightarrow> ('f, 'o, 'a) ThreadPool" where
  "QueuePop P = P\<lparr>pool_queue := vec_pop (pool_queue P)\<rparr>"

text \<open>What the thread of runner \<open>i\<close> does when it is woken, before it waits again.\<close>

definition ExecuteThreadPoolTask ::
    "(('f, 'o, 'a) call \<Rightarrow> 's \<Rightarrow> 's result) \<Rightarrow> nat \<Rightarrow> ('f, 'o, 'a) ThreadPool \<times> 's
       \<Rightarrow> (('f, 'o, 'a) ThreadPool \<times> 's) result" where
  "ExecuteThreadPoolTask exec i = (\<lambda>(P, s).
     let r = pool_runners P ! i in
     if pendingTask r \<noteq> NullTask then
       bindr (deref_task (pool_queue P) (pendingTask r)) (\<lambda>t.
       bindr (Tm_call t) (\<lambda>c.
       bindr (exec c s) (\<lambda>s.
       bindr (mark_complete (pendingTask r) (pool_queue P)) (\<lambda>q.
       Inr (P\<lparr>pool_queue := q, pool_runners := (pool_runners P)[i := r\<lparr>inUse := False\<rparr>]\<rparr>, s)))))
     else Inr (P, s))"

text \<open>
  \<^verbatim>\<open>ExecuteTasks\<close> gives the task at the top to an unused runner, and pops it afterwards. In between the
  runner's thread may already have run it, or not. A schedule says what the other threads do at each
  turn, after the task was handed over or while no runner is unused: it is a list of actions on the
  pool and on the rest of the program, \<^verbatim>\<open>ExecuteThreadPoolTask\<close> of a runner for instance, or \<open>Inr\<close> when
  nothing happens. \<open>None\<close>: the schedule ends before the loop does.
\<close>

definition hand_over :: "nat \<Rightarrow> ('f, 'o, 'a) ThreadPool \<Rightarrow> ('f, 'o, 'a) ThreadPool result" where
  "hand_over threadID P =
     (let t = vec_top (pool_queue P) in
      bindr (deref_task (pool_queue P) t) (\<lambda>task.
      if \<not> IsCompleted task then
        let r = SetExecutionStatus (pool_runners P ! threadID) in
        bindr (Runner_PostTask (pool_queue P) t r) (\<lambda>r.
        Inr (P\<lparr>pool_runners := (pool_runners P)[threadID := Runner_Signal r]\<rparr>))
      else Inr P))"

definition ExecuteTasks_turn ::
    "(('f, 'o, 'a) ThreadPool \<times> 's \<Rightarrow> (('f, 'o, 'a) ThreadPool \<times> 's) result)
       \<Rightarrow> ('f, 'o, 'a) ThreadPool \<times> 's \<Rightarrow> (('f, 'o, 'a) ThreadPool \<times> 's) result" where
  "ExecuteTasks_turn others = (\<lambda>(P, s).
     let threadID = GetUnusedThread P in
     if threadID \<noteq> 255 then
       bindr (hand_over threadID P) (\<lambda>P.
       bindr (others (P, s)) (\<lambda>(P, s).
       Inr (QueuePop P, s)))
     else others (P, s))"

fun ExecuteTasks ::
    "(('f, 'o, 'a) ThreadPool \<times> 's \<Rightarrow> (('f, 'o, 'a) ThreadPool \<times> 's) result) list
       \<Rightarrow> ('f, 'o, 'a) ThreadPool \<times> 's \<Rightarrow> (('f, 'o, 'a) ThreadPool \<times> 's) result option" where
  "ExecuteTasks [] Ps = (if vec_items (pool_queue (fst Ps)) = [] then Some (Inr Ps) else None)"
| "ExecuteTasks (others # schedule) Ps =
     (if vec_items (pool_queue (fst Ps)) = [] then Some (Inr Ps)
      else case ExecuteTasks_turn others Ps of Inl e \<Rightarrow> Some (Inl e) | Inr Ps \<Rightarrow> ExecuteTasks schedule Ps)"

section \<open>The task manager\<close>

record ('f, 'o, 'a) TaskManager =
  threadPool :: "('f, 'o, 'a) ThreadPool option"
  tm_runners :: "string \<rightharpoonup> ('f, 'o, 'a) Runner"
  tm_threads :: "string list"

definition TaskManager_new :: "('f, 'o, 'a) TaskManager" where
  "TaskManager_new = \<lparr>threadPool = None, tm_runners = Map.empty, tm_threads = []\<rparr>"

text \<open>The comparison with the \<^verbatim>\<open>unsigned\<close> number of hardware threads converts the size to \<^verbatim>\<open>unsigned\<close>.\<close>

definition pool_size :: "32 word \<Rightarrow> 32 word \<Rightarrow> int" where
  "pool_size hardware_concurrency threadPoolSize =
     sint (if threadPoolSize > hardware_concurrency \<or> threadPoolSize = -1
           then hardware_concurrency else threadPoolSize)"

definition InitializeThreadPool :: "32 word \<Rightarrow> 32 word \<Rightarrow> ('f, 'o, 'a) TaskManager \<Rightarrow> ('f, 'o, 'a) TaskManager result" where
  "InitializeThreadPool hardware_concurrency threadPoolSize M =
     (let n = pool_size hardware_concurrency threadPoolSize in
      if n > 0 then bindr (ThreadPool_new (nat n)) (\<lambda>P. Inr (M\<lparr>threadPool := Some P\<rparr>)) else Inr M)"

definition try_emplace :: "string \<Rightarrow> ('f, 'o, 'a) TaskManager \<Rightarrow> ('f, 'o, 'a) TaskManager" where
  "try_emplace name M =
     (if tm_runners M name = None
      then M\<lparr>tm_runners := (tm_runners M)(name \<mapsto> Runner_new False)\<rparr> else M)"

definition post_to_runner ::
    "string \<Rightarrow> ('f, 'o, 'a) TmTask task_ptr \<Rightarrow> ('f, 'o, 'a) TaskManager \<Rightarrow> ('f, 'o, 'a) TaskManager result" where
  "post_to_runner name p M =
     (case tm_runners M name of
        None \<Rightarrow> Inl OutOfRange
      | Some r \<Rightarrow> bindr (Runner_PostTask vec_new p r) (\<lambda>r. Inr (M\<lparr>tm_runners := (tm_runners M)(name \<mapsto> r)\<rparr>)))"

text \<open>Up to the call of \<^verbatim>\<open>StartTaskRunner\<close>, which the calling thread does not leave.\<close>

definition InitializeOnCurrentThread ::
    "string \<Rightarrow> ('f, 'o, 'a) TmTask task_ptr \<Rightarrow> ('f, 'o, 'a) TaskManager \<Rightarrow> ('f, 'o, 'a) TaskManager result" where
  "InitializeOnCurrentThread queueName initTask M = post_to_runner queueName initTask (try_emplace queueName M)"

definition PostNonThreadPoolTask ::
    "('f, 'o, 'a) TmTask task_ptr \<Rightarrow> string \<Rightarrow> ('f, 'o, 'a) TaskManager \<Rightarrow> ('f, 'o, 'a) TaskManager result" where
  "PostNonThreadPoolTask task queueName M =
     bindr (post_to_runner queueName task M) (\<lambda>M.
     Inr (M\<lparr>tm_runners := (tm_runners M)(queueName := map_option Runner_Signal (tm_runners M queueName))\<rparr>))"

definition PostThreadPoolTask ::
    "(('f, 'o, 'a) ThreadPool \<times> 's \<Rightarrow> (('f, 'o, 'a) ThreadPool \<times> 's) result) list \<Rightarrow> ('f, 'o, 'a) TmTask task_ptr
       \<Rightarrow> ('f, 'o, 'a) TaskManager \<times> 's \<Rightarrow> (('f, 'o, 'a) TaskManager \<times> 's) result option" where
  "PostThreadPoolTask schedule task = (\<lambda>(M, s).
     case threadPool M of
       None \<Rightarrow> Some (Inl NullDeref)
     | Some P \<Rightarrow>
         (case Pool_PostTask task P of
            Inl e \<Rightarrow> Some (Inl e)
          | Inr P \<Rightarrow> map_option (\<lambda>r. bindr r (\<lambda>(P, s). Inr (M\<lparr>threadPool := Some P\<rparr>, s))) (ExecuteTasks schedule (P, s))))"

text \<open>\<open>initTask\<close> is not used.\<close>

definition CreateRunnerOnNewThread ::
    "string \<Rightarrow> ('f, 'o, 'a) TmTask task_ptr \<Rightarrow> ('f, 'o, 'a) TaskManager \<Rightarrow> ('f, 'o, 'a) TaskManager" where
  "CreateRunnerOnNewThread name initTask M =
     (if tm_runners M name = None
      then (try_emplace name M)\<lparr>tm_threads := tm_threads M @ [name]\<rparr> else M)"

section \<open>Serving a dedicated queue\<close>

text \<open>What lies in the first slot does not matter to \<open>heap_pop\<close>, so marking it before is harmless.\<close>

lemma push_heap_hole: "push_heap key (xs[h := y]) h v = push_heap key xs h v"
proof (cases "h < length xs")
  case True
  have p: "(h - 1) div 2 \<noteq> h" if "h > 0" using that by auto
  show ?thesis
    using p by (subst (1 2) push_heap.simps) (auto simp: nth_list_update list_update_overwrite)
qed (simp add: list_update_beyond)

lemma adjust_heap_hole: "adjust_heap key (xs[h := y]) h v = adjust_heap key xs h v"
proof -
  have "2 * (h + 1) \<noteq> h" "2 * (h + 1) - 1 \<noteq> h" by auto
  then show ?thesis
    by (subst (1 2) adjust_heap.simps)
       (simp add: Let_def nth_list_update list_update_overwrite push_heap_hole cong: if_cong)
qed

lemma heap_pop_first: "heap_pop key (xs[0 := y]) = heap_pop key xs"
proof (cases "length xs > 1")
  case True
  then have ne: "xs \<noteq> []" "length xs - 1 \<noteq> 0" by auto
  have "last (xs[0 := y]) = last xs"
    using True ne by (simp add: last_conv_nth nth_list_update)
  moreover have "butlast (xs[0 := y]) = (butlast xs)[0 := y]"
    using ne by (simp add: butlast_list_update)
  ultimately show ?thesis using True by (simp add: heap_pop_def adjust_heap_hole)
next
  case False
  then show ?thesis by (cases xs) (auto simp: heap_pop_def)
qed

text \<open>The reference: run the tasks of a list in order.\<close>

fun tm_run_list :: "(('f, 'o, 'a) call \<Rightarrow> 's \<Rightarrow> 's result) \<Rightarrow> ('f, 'o, 'a) TmTask list \<Rightarrow> 's \<Rightarrow> 's result" where
  "tm_run_list ex [] s = Inr s"
| "tm_run_list ex (t # ts) s =
     (if \<not> IsCompleted t then bindr (Tm_call t) (\<lambda>c. bindr (ex c s) (tm_run_list ex ts))
      else tm_run_list ex ts s)"

definition keeps_runner ::
    "(('f, 'o, 'a) call \<Rightarrow> 's \<Rightarrow> 's result)
       \<Rightarrow> ('f, 'o, 'a) call \<Rightarrow> ('f, 'o, 'a) Runner \<times> 's \<Rightarrow> (('f, 'o, 'a) Runner \<times> 's) result" where
  "keeps_runner ex c = (\<lambda>(r, s). bindr (ex c s) (\<lambda>s. Inr (r, s)))"

lemma ExecuteRegularTask_quiet:
  assumes "runner_queue r = Some q" and "vec_items q \<noteq> []"
  shows "ExecuteRegularTask (keeps_runner ex) (r, s) =
           bindr (tm_run_list ex [heap_top (vec_items q)] s) (\<lambda>s. Inr (r\<lparr>runner_queue := Some (vec_pop q)\<rparr>, s))"
proof -
  have pop: "vec_pop (q\<lparr>vec_items := (vec_items q)[0 := y]\<rparr>) = vec_pop q" for y
    by (simp add: vec_pop_def heap_pop_first)
  show ?thesis
    using assms
    by (auto simp: ExecuteRegularTask_def vec_top_def heap_top_def keeps_runner_def Let_def pop bindr_def split: sum.splits)
qed

lemma StartTaskRunner_served:
  assumes "runner_queue r = Some q" and "keepRunning r"
  shows "StartTaskRunner (Suc (length (vec_items q))) (keeps_runner ex) (r, s) =
           Some (bindr (tm_run_list ex (pops heap_top (heap_pop Tm_GetTaskPriority) (length (vec_items q)) (vec_items q)) s)
             (\<lambda>s. Inr (r\<lparr>runner_queue := Some (q\<lparr>vec_items := []\<rparr>), runner_waiting := True\<rparr>, s)))"
  using assms
proof (induction "length (vec_items q)" arbitrary: r q s)
  case 0
  then have "q\<lparr>vec_items := []\<rparr> = q" by simp
  with 0 show ?case by (simp add: ExecuteRegularTask_def)
next
  case (Suc n)
  then have ne: "vec_items q \<noteq> []" by auto
  let ?r = "r\<lparr>runner_queue := Some (vec_pop q)\<rparr>"
  have n: "n = length (vec_items (vec_pop q))" using Suc.hyps(2) by (simp add: vec_pop_def)
  have IH: "StartTaskRunner (Suc n) (keeps_runner ex) (?r, s') =
      Some (bindr (tm_run_list ex (pops heap_top (heap_pop Tm_GetTaskPriority) n (heap_pop Tm_GetTaskPriority (vec_items q))) s')
        (\<lambda>s. Inr (r\<lparr>runner_queue := Some (q\<lparr>vec_items := []\<rparr>), runner_waiting := True\<rparr>, s)))" for s'
    using Suc.hyps(1) [OF n, of ?r s'] Suc.prems(2) n by (simp add: vec_pop_def)
  have last: "vec_items (vec_pop q) = [] \<Longrightarrow> StartTaskRunner (Suc n) (keeps_runner ex) (?r, s') =
      Some (Inr (?r\<lparr>runner_waiting := True\<rparr>, s'))" for s'
    using n Suc.prems(2) by (simp add: ExecuteRegularTask_def)
  show ?case
    using Suc.prems Suc.hyps(2) [symmetric] ne IH last
    by (auto simp: ExecuteRegularTask_quiet [OF Suc.prems(1) ne] bindr_def split: sum.splits if_splits)
qed

section \<open>Properties\<close>

text \<open>
  C35. A dedicated runner whose tasks post nothing to it serves its queue completely: it runs every
  queued task that is not complete exactly once, most urgent first, and then waits with an empty
  queue. Executing the top in place and popping it afterwards is the same as taking it out.
\<close>

theorem runner_serves_by_priority:
  assumes "runner_queue r = Some q" and "is_heap Tm_GetTaskPriority (vec_items q)" and "keepRunning r"
  shows "\<exists>ts. mset ts = mset (vec_items q) \<and> sorted (map Tm_GetTaskPriority ts) \<and>
    StartTaskRunner (Suc (length (vec_items q))) (keeps_runner ex) (r, s) =
      Some (bindr (tm_run_list ex ts s)
        (\<lambda>s. Inr (r\<lparr>runner_queue := Some (q\<lparr>vec_items := []\<rparr>), runner_waiting := True\<rparr>, s)))"
proof (intro exI conjI)
  let ?ts = "pops heap_top (heap_pop Tm_GetTaskPriority) (length (vec_items q)) (vec_items q)"
  note all = vector_heap.pops_all [OF assms(2) size_mset [symmetric]]
  show "mset ?ts = mset (vec_items q)" using all by blast
  show "sorted (map Tm_GetTaskPriority ?ts)" using all by blast
qed (rule StartTaskRunner_served [OF assms(1,3)])

definition demo_runner :: "(nat, nat, nat) Runner" where
  "demo_runner = (Runner_new False)\<lparr>runner_queue := Some (vec_push (Tm_Create_void0 0 ''b'' 20 0 High)
     (vec_push (Tm_Create_void0 0 ''a'' 10 0 Low) vec_new))\<rparr>"

theorem runner_serves_by_priority_witness:
  "\<exists>ts. mset ts = mset (vec_items (the (runner_queue demo_runner))) \<and> sorted (map Tm_GetTaskPriority ts) \<and>
    StartTaskRunner (Suc (length (vec_items (the (runner_queue demo_runner))))) (keeps_runner (\<lambda>c l. Inr (callee c # l))) (demo_runner, []) =
      Some (bindr (tm_run_list (\<lambda>c l. Inr (callee c # l)) ts [])
        (\<lambda>s. Inr (demo_runner\<lparr>runner_queue := Some ((the (runner_queue demo_runner))\<lparr>vec_items := []\<rparr>), runner_waiting := True\<rparr>, s)))"
  by (rule runner_serves_by_priority)
     (simp_all add: demo_runner_def Runner_new_def vec_push_def vec_new_def vector_heap.invar_push vector_heap.invar_empty)

text \<open>
  A task that posts \<open>u\<close> to its own runner when it is the first to run; all calls are logged.
\<close>

definition first_posts ::
    "('f, 'o, 'a) TmTask \<Rightarrow> ('f, 'o, 'a) call \<Rightarrow> ('f, 'o, 'a) Runner \<times> ('f, 'o, 'a) call list
       \<Rightarrow> (('f, 'o, 'a) Runner \<times> ('f, 'o, 'a) call list) result" where
  "first_posts u c = (\<lambda>(r, l).
     bindr (if l = [] then Runner_PostTask vec_new (HeapTask u) r else Inr r) (\<lambda>r. Inr (r, l @ [c])))"

abbreviation logged :: "('f, 'o, 'a) call \<Rightarrow> ('f, 'o, 'a) call list \<Rightarrow> ('f, 'o, 'a) call list result" where
  "logged c l \<equiv> Inr (l @ [c])"

lemma first_posts_later: "l \<noteq> [] \<Longrightarrow> first_posts u c (r, l) = keeps_runner logged c (r, l)"
  by (simp add: first_posts_def keeps_runner_def)

lemma ExecuteRegularTask_later:
  assumes "l \<noteq> []"
  shows "ExecuteRegularTask (first_posts u) (r, l) = ExecuteRegularTask (keeps_runner logged) (r, l)"
    and "ExecuteRegularTask (keeps_runner logged) (r, l) = Inr (r', l') \<Longrightarrow> l' \<noteq> []"
proof -
  show "ExecuteRegularTask (first_posts u) (r, l) = ExecuteRegularTask (keeps_runner logged) (r, l)"
    unfolding ExecuteRegularTask_def prod.case first_posts_later [OF assms] by (rule refl)
  assume "ExecuteRegularTask (keeps_runner logged) (r, l) = Inr (r', l')"
  with assms show "l' \<noteq> []"
    by (auto simp: ExecuteRegularTask_def keeps_runner_def bindr_eq_Inr_iff Let_def split: option.splits if_splits)
qed

lemma StartTaskRunner_later:
  "l \<noteq> [] \<Longrightarrow> StartTaskRunner n (first_posts u) (r, l) = StartTaskRunner n (keeps_runner logged) (r, l)"
proof (induction n arbitrary: r l)
  case (Suc n)
  note later = ExecuteRegularTask_later [OF Suc.prems]
  show ?case
    using Suc.IH later(2) by (auto simp: later(1) split: sum.split option.split)
qed simp

lemma urgent_post_step:
  assumes "runner_queue r = Some q" and "is_heap Tm_GetTaskPriority (vec_items q)" and "vec_items q \<noteq> []"
    and "t = heap_top (vec_items q)" and "\<not> threadPoolTaskRunner r"
    and "\<not> IsCompleted t" and "Tm_call t = Inr c" and "Tm_GetTaskPriority u < Tm_GetTaskPriority t"
  shows "length (vec_items q) = vec_cap q \<Longrightarrow> ExecuteRegularTask (first_posts u) (r, []) = Inl UseAfterFree"
    and "length (vec_items q) \<noteq> vec_cap q \<Longrightarrow>
      \<exists>q'. ExecuteRegularTask (first_posts u) (r, []) = Inr (r\<lparr>runner_queue := Some q'\<rparr>, [c]) \<and>
        vec_gen q' = vec_gen q \<and> vec_cap q' = vec_cap q \<and>
        is_heap Tm_GetTaskPriority (vec_items q') \<and> mset (vec_items q') = mset (vec_items q)"
proof -
  have deref: "vec_items q ! 0 = t" using assms(3,4) by (simp add: heap_top_def hd_conv_nth)
  have call: "Tm_call t = Inr c" "\<not> IsCompleted t" by (rule assms)+
  show "length (vec_items q) = vec_cap q \<Longrightarrow> ExecuteRegularTask (first_posts u) (r, []) = Inl UseAfterFree"
    using assms(1,3,5) call deref length_greater_0_conv [of "vec_items q"]
    by (simp add: ExecuteRegularTask_def first_posts_def Runner_PostTask_def vec_push_def vec_top_def Let_def)
  assume room: "length (vec_items q) \<noteq> vec_cap q"
  have "Tm_GetTaskPriority u < Tm_GetTaskPriority y" if "y \<in># mset (vec_items q)" for y
    using vector_heap.top_first [OF assms(2) that] assms(4,8) by simp
  note popped = vector_heap.pop_more_urgent [OF assms(2) this]
  let ?xs = "heap_push Tm_GetTaskPriority u (vec_items q)"
  let ?q = "q\<lparr>vec_items := heap_pop Tm_GetTaskPriority ?xs\<rparr>"
  have "ExecuteRegularTask (first_posts u) (r, []) = Inr (r\<lparr>runner_queue := Some ?q\<rparr>, [c])"
    using assms(1,3,5) call deref room
    by (simp add: ExecuteRegularTask_def first_posts_def Runner_PostTask_def vec_push_def vec_top_def vec_pop_def
        heap_pop_first Let_def)
  with popped show "\<exists>q'. ExecuteRegularTask (first_posts u) (r, []) = Inr (r\<lparr>runner_queue := Some q'\<rparr>, [c]) \<and>
        vec_gen q' = vec_gen q \<and> vec_cap q' = vec_cap q \<and>
        is_heap Tm_GetTaskPriority (vec_items q') \<and> mset (vec_items q') = mset (vec_items q)"
    by (intro exI [of _ ?q]) simp
qed

text \<open>
  C36. A task that posts a more urgent one to its own runner is run twice and the urgent one never.
  A dedicated runner serves a queue whose top \<open>t\<close> posts \<open>u\<close>, more urgent than \<open>t\<close>, when it runs and
  nothing later does. As long as the queue's storage has room, \<open>u\<close> takes the first slot while the pointer of
  the running task still names that slot, so \<open>u\<close> is marked as complete and popped: the runner calls \<open>t\<close>, and
  then every task of the queue it started with, \<open>t\<close> among them, and waits. When the storage is full, which is so for a
  single task in the queue of a new runner, it moves and the pointer of the running task dangles.
\<close>

theorem urgent_post_is_lost:
  assumes "runner_queue r = Some q" and "is_heap Tm_GetTaskPriority (vec_items q)" and "vec_items q \<noteq> []"
    and "t = heap_top (vec_items q)" and "\<not> threadPoolTaskRunner r" and "keepRunning r"
    and "\<not> IsCompleted t" and "Tm_call t = Inr c" and "Tm_GetTaskPriority u < Tm_GetTaskPriority t"
  shows "if length (vec_items q) = vec_cap q
    then StartTaskRunner (Suc (Suc (length (vec_items q)))) (first_posts u) (r, []) = Some (Inl UseAfterFree)
    else \<exists>ts. mset ts = mset (vec_items q) \<and> sorted (map Tm_GetTaskPriority ts) \<and> t \<in> set ts \<and>
      StartTaskRunner (Suc (Suc (length (vec_items q)))) (first_posts u) (r, []) =
        Some (bindr (tm_run_list logged ts [c])
          (\<lambda>l. Inr (r\<lparr>runner_queue := Some (q\<lparr>vec_items := []\<rparr>), runner_waiting := True\<rparr>, l)))"
proof (cases "length (vec_items q) = vec_cap q")
  case True
  with urgent_post_step(1) [OF assms(1-5,7-9)] assms(6) show ?thesis by simp
next
  case False
  from urgent_post_step(2) [OF assms(1-5,7-9) this] obtain q' where
    q': "ExecuteRegularTask (first_posts u) (r, []) = Inr (r\<lparr>runner_queue := Some q'\<rparr>, [c])"
      "vec_gen q' = vec_gen q" "vec_cap q' = vec_cap q"
      "is_heap Tm_GetTaskPriority (vec_items q')" "mset (vec_items q') = mset (vec_items q)" by blast
  have len: "length (vec_items q') = length (vec_items q)" using q'(5) by (rule mset_eq_length)
  have ne: "vec_items q' \<noteq> []" using len assms(3) by auto
  have empty: "q'\<lparr>vec_items := []\<rparr> = q\<lparr>vec_items := []\<rparr>" using q'(2,3) by simp
  let ?ts = "pops heap_top (heap_pop Tm_GetTaskPriority) (length (vec_items q')) (vec_items q')"
  note all = vector_heap.pops_all [OF q'(4) size_mset [symmetric]]
  have "set ?ts = set (vec_items q)" using all q'(5) by (metis set_mset_mset)
  then have "t \<in> set ?ts" using assms(3,4) by (simp add: heap_top_def)
  moreover have "StartTaskRunner (Suc (Suc (length (vec_items q)))) (first_posts u) (r, []) =
      StartTaskRunner (Suc (length (vec_items q'))) (first_posts u) (r\<lparr>runner_queue := Some q'\<rparr>, [c])"
    using assms(6) q'(1) ne by (subst StartTaskRunner.simps(2)) (simp add: len del: StartTaskRunner.simps(2))
  moreover have "\<dots> = StartTaskRunner (Suc (length (vec_items q'))) (keeps_runner logged) (r\<lparr>runner_queue := Some q'\<rparr>, [c])"
    by (rule StartTaskRunner_later) simp
  ultimately show ?thesis
    using False all q'(5) StartTaskRunner_served [of "r\<lparr>runner_queue := Some q'\<rparr>" q' logged "[c]"] assms(6)
    by (auto simp: empty simp del: StartTaskRunner.simps)
qed

theorem urgent_post_is_lost_witness:
  "(let t = Tm_Create_void0 0 ''a'' 10 0 Normal; w = Tm_Create_void0 0 ''w'' 30 0 Low; u = Tm_Create_void0 0 ''b'' 20 0 High;
        q = \<lparr>vec_gen = 2, vec_cap = 4, vec_items = [t, w]\<rparr>;
        r = (Runner_new False)\<lparr>runner_queue := Some q\<rparr> :: (nat, nat, nat) Runner;
        c = \<lparr>callee = 10, object_ref = Some 0, argument = None\<rparr> in
    if length (vec_items q) = vec_cap q
    then StartTaskRunner (Suc (Suc (length (vec_items q)))) (first_posts u) (r, []) = Some (Inl UseAfterFree)
    else \<exists>ts. mset ts = mset (vec_items q) \<and> sorted (map Tm_GetTaskPriority ts) \<and> t \<in> set ts \<and>
      StartTaskRunner (Suc (Suc (length (vec_items q)))) (first_posts u) (r, []) =
        Some (bindr (tm_run_list logged ts [c])
          (\<lambda>l. Inr (r\<lparr>runner_queue := Some (q\<lparr>vec_items := []\<rparr>), runner_waiting := True\<rparr>, l))))"
  unfolding Let_def
  by (rule urgent_post_is_lost)
     (simp_all add: Runner_new_def is_heap_def heap_top_def less_Suc_eq numeral_2_eq_2 parent_def Tm_GetTaskPriority_def
        tm_create_defs tm_bind_defs IsCompleted_def Tm_call_def ClassMethod_def)

lemma pool_size_zero: "pool_size hw 0 = 0"
  by (simp add: pool_size_def)

lemma heap_pop_single [simp]: "heap_pop key [t] = []"
  by (simp add: heap_pop_def)

lemma heap_push_empty [simp]: "heap_push key t [] = [t]"
  by (simp add: heap_push_def push_heap.simps)

text \<open>
  C37. What is posted to a pool is not run as meant. Without a pool, which is what a size of 0 asks for,
  posting dereferences a null pointer. With an idle pool, posting hands the first runner a pointer to the
  slot the task is removed from next. When the runner's thread gets to it only after that, it reads a
  destroyed object. When it gets to it before, it runs the task, but keeps the pointer, and reads the
  destroyed object the next time it wakes up. And on both schedules, giving the runner a
  second task deletes that pointer, which was never allocated.
\<close>

theorem pool_tasks_dangle:
  assumes "InitializeThreadPool hw 0 TaskManager_new = Inr M0"
    and "threadPool M = Some P" and "pool_runners P = r # rs" and "vec_items (pool_queue P) = []"
    and "\<not> inUse r" and "threadPoolTaskRunner r" and "pendingTask r = NullTask" and "\<not> IsCompleted t"
    and "Tm_call t = Inr c" and "exec c s = Inr s1"
  shows "PostThreadPoolTask schedule (HeapTask t) (M0, s) = Some (Inl NullDeref) \<and>
    (\<exists>M' P' r'. PostThreadPoolTask [Inr] (HeapTask t) (M, s) = Some (Inr (M', s)) \<and> threadPool M' = Some P' \<and>
       vec_items (pool_queue P') = [] \<and> pool_runners P' = r' # rs \<and> inUse r' \<and>
       ExecuteThreadPoolTask exec 0 (P', s) = Inl UseAfterFree \<and>
       Runner_PostTask (pool_queue P') (vec_top (pool_queue P')) r' = Inl InvalidFree) \<and>
    (\<exists>M' P' r'. PostThreadPoolTask [ExecuteThreadPoolTask exec 0] (HeapTask t) (M, s) = Some (Inr (M', s1)) \<and>
       threadPool M' = Some P' \<and> vec_items (pool_queue P') = [] \<and> pool_runners P' = r' # rs \<and> \<not> inUse r' \<and>
       ExecuteThreadPoolTask exec 0 (P', s1) = Inl UseAfterFree \<and>
       Runner_PostTask (pool_queue P') (vec_top (pool_queue P')) r' = Inl InvalidFree)"
proof -
  have "threadPool M0 = None" using assms(1) by (auto simp: InitializeThreadPool_def pool_size_zero TaskManager_new_def)
  then have none: "PostThreadPoolTask schedule (HeapTask t) (M0, s) = Some (Inl NullDeref)" by (simp add: PostThreadPoolTask_def)
  note defs = PostThreadPoolTask_def Pool_PostTask_def ExecuteTasks_turn_def hand_over_def GetUnusedThread_def
    GetExecutionStatus_def Let_def vec_push_def vec_top_def Runner_PostTask_def SetExecutionStatus_def
    Runner_Signal_def QueuePop_def vec_pop_def ExecuteThreadPoolTask_def
  have "\<exists>M' P' r'. PostThreadPoolTask [Inr] (HeapTask t) (M, s) = Some (Inr (M', s)) \<and> threadPool M' = Some P' \<and>
       vec_items (pool_queue P') = [] \<and> pool_runners P' = r' # rs \<and> inUse r' \<and>
       ExecuteThreadPoolTask exec 0 (P', s) = Inl UseAfterFree \<and>
       Runner_PostTask (pool_queue P') (vec_top (pool_queue P')) r' = Inl InvalidFree"
    using assms(2-8) by (simp add: defs)
  moreover have "\<exists>M' P' r'. PostThreadPoolTask [ExecuteThreadPoolTask exec 0] (HeapTask t) (M, s) = Some (Inr (M', s1)) \<and>
       threadPool M' = Some P' \<and> vec_items (pool_queue P') = [] \<and> pool_runners P' = r' # rs \<and> \<not> inUse r' \<and>
       ExecuteThreadPoolTask exec 0 (P', s1) = Inl UseAfterFree \<and>
       Runner_PostTask (pool_queue P') (vec_top (pool_queue P')) r' = Inl InvalidFree"
    using assms(2-) by (simp add: defs)
  ultimately show ?thesis using none by blast
qed

definition demo_pool :: "(nat, nat, nat) TaskManager" where
  "demo_pool = TaskManager_new\<lparr>threadPool :=
     Some \<lparr>pool_queue = vec_new, pool_runners = [Runner_new True, Runner_new True]\<rparr>\<rparr>"

abbreviation run_first :: "(nat, nat, nat) ThreadPool \<times> (nat, nat, nat) call list
    \<Rightarrow> ((nat, nat, nat) ThreadPool \<times> (nat, nat, nat) call list) result" where
  "run_first \<equiv> ExecuteThreadPoolTask logged 0"

theorem pool_tasks_dangle_witness:
  "(let t = Tm_Create_void0 0 ''a'' 10 0 Low; M0 = projr (InitializeThreadPool 8 0 TaskManager_new);
        c = \<lparr>callee = 10, object_ref = Some 0, argument = None\<rparr>; s = [] :: (nat, nat, nat) call list in
    PostThreadPoolTask [run_first] (HeapTask t) (M0, s) = Some (Inl NullDeref) \<and>
    (\<exists>M' P' r'. PostThreadPoolTask [Inr] (HeapTask t) (demo_pool, s) = Some (Inr (M', s)) \<and> threadPool M' = Some P' \<and>
       vec_items (pool_queue P') = [] \<and> pool_runners P' = r' # [Runner_new True] \<and> inUse r' \<and>
       run_first (P', s) = Inl UseAfterFree \<and>
       Runner_PostTask (pool_queue P') (vec_top (pool_queue P')) r' = Inl InvalidFree) \<and>
    (\<exists>M' P' r'. PostThreadPoolTask [run_first] (HeapTask t) (demo_pool, s) = Some (Inr (M', [c])) \<and>
       threadPool M' = Some P' \<and> vec_items (pool_queue P') = [] \<and> pool_runners P' = r' # [Runner_new True] \<and> \<not> inUse r' \<and>
       run_first (P', [c]) = Inl UseAfterFree \<and>
       Runner_PostTask (pool_queue P') (vec_top (pool_queue P')) r' = Inl InvalidFree))"
  unfolding Let_def
  by (rule pool_tasks_dangle [where hw = 8 and r = "Runner_new True" and
        P = "\<lparr>pool_queue = vec_new, pool_runners = [Runner_new True, Runner_new True]\<rparr>" and
        c = "\<lparr>callee = 10, object_ref = Some 0, argument = None\<rparr> :: (nat, nat, nat) call"])
     (simp_all add: demo_pool_def TaskManager_new_def vec_new_def Runner_new_def InitializeThreadPool_def pool_size_zero)

end
