(* ===== verification/Platform_Threads.thy ===== *)
theory Platform_Threads
  imports Message_Pump
begin

text \<open>
  Threads of the operating system: \<^verbatim>\<open>PlatformThreadPosix.cpp\<close> of \<^verbatim>\<open>base/platform/linux/threading\<close> and of
  \<^verbatim>\<open>base/taskmanager\<close>, the worker thread for a single task (\<^verbatim>\<open>IOWorkerThread\<close>) and the condition
  variable. \<open>tid\<close> is the id \<^verbatim>\<open>pthread_create\<close> assigns, \<open>None\<close> if it fails. Both classes keep the id
  of the thread created last in a static variable.

  The main function of a delegate is the parameter \<open>run\<close>; objects are numbered.
\<close>

section \<open>Creating and naming threads\<close>

record Delegate =
  del_Id :: ThreadID
  del_sts :: ptr
  del_extra :: ptr

record ThreadStartInfo =
  ThreadDelegate :: nat
  threadName :: string

record platform_threads =
  threadHandle :: ThreadID
  thread_names :: "ThreadID \<rightharpoonup> string"
  created :: "(ThreadID \<times> ThreadStartInfo) list"

definition platform_init :: platform_threads where
  "platform_init = \<lparr>threadHandle = 0, thread_names = Map.empty, created = []\<rparr>"

text \<open>A name has at most 15 characters; \<^verbatim>\<open>pthread_setname_np\<close> fails for a longer one, which nobody checks.\<close>

definition setname :: "ThreadID \<Rightarrow> string \<Rightarrow> platform_threads \<Rightarrow> platform_threads" where
  "setname tid name T =
     (if length (c_str name) \<le> 15 then T\<lparr>thread_names := (thread_names T)(tid \<mapsto> c_str name)\<rparr> else T)"

definition SetThreadName :: "string \<Rightarrow> platform_threads \<Rightarrow> platform_threads" where
  "SetThreadName name T = setname (threadHandle T) name T"

definition CreateThreadInternal :: "ThreadID option \<Rightarrow> ThreadStartInfo \<Rightarrow> platform_threads \<Rightarrow> ThreadID \<times> platform_threads" where
  "CreateThreadInternal tid tsi T =
     (case tid of
        Some t \<Rightarrow> (t, T\<lparr>threadHandle := t, created := created T @ [(t, tsi)]\<rparr>)
      | None \<Rightarrow> (0, T))"

definition PlatformThread_Create :: "ThreadID option \<Rightarrow> nat \<Rightarrow> string \<Rightarrow> platform_threads \<Rightarrow> ThreadID \<times> platform_threads" where
  "PlatformThread_Create tid delegate name T =
     CreateThreadInternal tid \<lparr>ThreadDelegate = delegate, threadName = name\<rparr> T"

text \<open>What a new thread does first: it names, in fact, the thread that was created last.\<close>

definition ThreadStartFunction ::
    "(nat \<Rightarrow> 's \<Rightarrow> 's result) \<Rightarrow> ThreadStartInfo \<Rightarrow> platform_threads \<times> 's \<Rightarrow> (platform_threads \<times> 's) result" where
  "ThreadStartFunction run tsi = (\<lambda>(T, s).
     let T = SetThreadName (threadName tsi) T in
     bindr (run (ThreadDelegate tsi) s) (\<lambda>s. Inr (T, s)))"

text \<open>The task manager's version: the creator names the thread.\<close>

definition Tm_PlatformThread_Create :: "ThreadID option \<Rightarrow> nat \<Rightarrow> string \<Rightarrow> platform_threads \<Rightarrow> ThreadID \<times> platform_threads" where
  "Tm_PlatformThread_Create tid delegate name T =
     (case tid of
        Some t \<Rightarrow>
          let T = T\<lparr>threadHandle := t, created := created T @ [(t, \<lparr>ThreadDelegate = delegate, threadName = name\<rparr>)]\<rparr>
          in (threadHandle T, setname (threadHandle T) name T)
      | None \<Rightarrow> (0, T))"

definition Tm_ThreadStartFunction ::
    "(nat \<Rightarrow> 's \<Rightarrow> 's result) \<Rightarrow> ThreadStartInfo \<Rightarrow> platform_threads \<times> 's \<Rightarrow> (platform_threads \<times> 's) result" where
  "Tm_ThreadStartFunction run tsi = (\<lambda>(T, s). bindr (run (ThreadDelegate tsi) s) (\<lambda>s. Inr (T, s)))"

section \<open>The worker thread\<close>

text \<open>\<open>execute a\<close> is \<^verbatim>\<open>ExecuteTask\<close> of the task object at \<open>a\<close>.\<close>

definition IOWorkerThread_new :: "int \<Rightarrow> nat \<Rightarrow> ptr \<Rightarrow> Delegate" where
  "IOWorkerThread_new gettid st task = \<lparr>del_Id = word_of_int gettid, del_sts = Ptr st, del_extra = task\<rparr>"

definition IOWorkerThread_Start :: "ThreadID option \<Rightarrow> nat \<Rightarrow> string \<Rightarrow> platform_threads \<Rightarrow> platform_threads" where
  "IOWorkerThread_Start tid self name T = snd (PlatformThread_Create tid self name T)"

definition IOWorkerThread_ThreadMain :: "(nat \<Rightarrow> 's \<Rightarrow> 's result) \<Rightarrow> Delegate \<Rightarrow> 's \<Rightarrow> 's result" where
  "IOWorkerThread_ThreadMain execute w s = bindr (deref (del_extra w)) (\<lambda>a. execute a s)"

section \<open>The condition variable\<close>

text \<open>
  \<^verbatim>\<open>Wait\<close> waits without a condition and without holding the mutex; \<^verbatim>\<open>Signal\<close> wakes one of the threads
  that wait (\<open>k\<close> picks it), and is lost when there is none.
\<close>

record ConditionVariable = waiters :: "ThreadID list"

definition ConditionVariable_new :: ConditionVariable where
  "ConditionVariable_new = \<lparr>waiters = []\<rparr>"

definition CV_Wait :: "ThreadID \<Rightarrow> ConditionVariable \<Rightarrow> ConditionVariable" where
  "CV_Wait t c = c\<lparr>waiters := waiters c @ [t]\<rparr>"

definition CV_Signal :: "nat \<Rightarrow> ConditionVariable \<Rightarrow> ConditionVariable" where
  "CV_Signal k c = c\<lparr>waiters := take k (waiters c) @ drop (Suc k) (waiters c)\<rparr>"

lemma signal_before_wait_is_lost: "waiters (CV_Wait t (CV_Signal k ConditionVariable_new)) = [t]"
  by (simp add: CV_Wait_def CV_Signal_def ConditionVariable_new_def)

section \<open>Properties\<close>

text \<open>
  A thread can get another's name: when two threads are created before the first of them
  runs, its start function gives its name to the second. In the task manager's version, where the
  creator sets the name, each thread has its own, as long as the name has at most 15 characters.
\<close>

theorem thread_named_after_another:
  assumes "length (c_str n1) \<le> 15" and "length (c_str n2) \<le> 15" and "t1 \<noteq> t2" and "thread_names T t1 = None"
    and "\<And>a s. run a s = Inr s"
  shows "(let T1 = snd (PlatformThread_Create (Some t1) d1 n1 T);
              T2 = snd (PlatformThread_Create (Some t2) d2 n2 T1);
              names = (\<lambda>r. thread_names (fst (projr r))) in
      names (ThreadStartFunction run (snd (created T2 ! length (created T))) (T2, s)) t1 = None \<and>
      names (ThreadStartFunction run (snd (created T2 ! length (created T))) (T2, s)) t2 = Some (c_str n1)) \<and>
    (let T2 = snd (Tm_PlatformThread_Create (Some t2) d2 n2 (snd (Tm_PlatformThread_Create (Some t1) d1 n1 T))) in
      thread_names T2 t1 = Some (c_str n1) \<and> thread_names T2 t2 = Some (c_str n2))"
  using assms
  by (simp add: PlatformThread_Create_def CreateThreadInternal_def ThreadStartFunction_def SetThreadName_def setname_def
      Tm_PlatformThread_Create_def Let_def nth_append)

theorem thread_named_after_another_witness:
  "(let T1 = snd (PlatformThread_Create (Some 11) 0 ''IO'' platform_init);
        T2 = snd (PlatformThread_Create (Some 12) 1 ''MetricsSender'' T1);
        names = (\<lambda>r. thread_names (fst (projr r))) in
      names (ThreadStartFunction (\<lambda>_. Inr) (snd (created T2 ! length (created platform_init))) (T2, ())) 11 = None \<and>
      names (ThreadStartFunction (\<lambda>_. Inr) (snd (created T2 ! length (created platform_init))) (T2, ())) 12 = Some (c_str ''IO'')) \<and>
    (let T2 = snd (Tm_PlatformThread_Create (Some 12) 1 ''MetricsSender'' (snd (Tm_PlatformThread_Create (Some 11) 0 ''IO'' platform_init))) in
      thread_names T2 11 = Some (c_str ''IO'') \<and> thread_names T2 12 = Some (c_str ''MetricsSender''))"
  by (rule thread_named_after_another) (simp_all add: platform_init_def)

text \<open>A worker runs exactly the task it was made for.\<close>

lemma worker_executes_its_task:
  "IOWorkerThread_ThreadMain execute (IOWorkerThread_new g st (Ptr a)) s = execute a s"
  "IOWorkerThread_ThreadMain execute (IOWorkerThread_new g st Null) s = Inl NullDeref"
  by (simp_all add: IOWorkerThread_ThreadMain_def IOWorkerThread_new_def)

end
