(* ===== verification/Tm_Threads.thy ===== *)
theory Tm_Threads
  imports Task_Manager Platform_Threads
begin

text \<open>
  \<^verbatim>\<open>base/taskmanager/thread/Thread.cpp\<close>: the thread of a dedicated runner. A thread object is the
  delegate of an operating system's thread; its main function serves the runner it was made for.
  Thread objects and runners are numbered, \<open>R\<close> has the runners and \<open>D\<close> the thread objects. The loop
  of the runner is followed up to the point where it waits for the next signal.
\<close>

record Tm_Thread = taskRunner :: nat

definition Tm_Thread_new ::
    "ThreadID option \<Rightarrow> nat \<Rightarrow> nat \<Rightarrow> string \<Rightarrow> platform_threads \<Rightarrow> Tm_Thread \<times> platform_threads" where
  "Tm_Thread_new tid self runner name T =
     (let (tid', T) = Tm_PlatformThread_Create tid self (c_str name) T in (\<lparr>taskRunner = runner\<rparr>, T))"

definition StartDispatchLoop ::
    "nat \<Rightarrow> (('f, 'o, 'a) call \<Rightarrow> ('f, 'o, 'a) Runner \<times> 's \<Rightarrow> (('f, 'o, 'a) Runner \<times> 's) result)
       \<Rightarrow> Tm_Thread \<Rightarrow> (nat \<Rightarrow> ('f, 'o, 'a) Runner) \<times> 's \<Rightarrow> ((nat \<Rightarrow> ('f, 'o, 'a) Runner) \<times> 's) result option" where
  "StartDispatchLoop fuel exec th = (\<lambda>(R, s).
     map_option (\<lambda>res. bindr res (\<lambda>(r, s). Inr (R(taskRunner th := r), s)))
       (StartTaskRunner fuel exec (R (taskRunner th), s)))"

definition Tm_ThreadMain ::
    "nat \<Rightarrow> (('f, 'o, 'a) call \<Rightarrow> ('f, 'o, 'a) Runner \<times> 's \<Rightarrow> (('f, 'o, 'a) Runner \<times> 's) result)
       \<Rightarrow> Tm_Thread \<Rightarrow> (nat \<Rightarrow> ('f, 'o, 'a) Runner) \<times> 's \<Rightarrow> ((nat \<Rightarrow> ('f, 'o, 'a) Runner) \<times> 's) result option" where
  "Tm_ThreadMain fuel exec th Rs = StartDispatchLoop fuel exec th Rs"

text \<open>
  A dedicated thread serves its own runner and no other: whatever was queued before the thread got
  to run is executed, most urgent first.
\<close>

lemma dedicated_thread_serves:
  assumes "Tm_Thread_new (Some t) self i name T = (th, T')" and "runner_queue (R i) = Some q" and "keepRunning (R i)"
    and "is_heap Tm_GetTaskPriority (vec_items q)"
  shows "\<exists>ts. mset ts = mset (vec_items q) \<and> sorted (map Tm_GetTaskPriority ts) \<and>
    Tm_ThreadMain (Suc (length (vec_items q))) (keeps_runner ex) th (R, s) =
      Some (bindr (tm_run_list ex ts s)
        (\<lambda>s. Inr (R(i := (R i)\<lparr>runner_queue := Some (q\<lparr>vec_items := []\<rparr>), runner_waiting := True\<rparr>), s)))"
    and "created T' = created T @ [(t, \<lparr>ThreadDelegate = self, threadName = c_str name\<rparr>)]"
proof -
  let ?ts = "pops heap_top (heap_pop Tm_GetTaskPriority) (length (vec_items q)) (vec_items q)"
  have th: "taskRunner th = i" using assms(1) by (auto simp: Tm_Thread_new_def split: prod.splits)
  note all = vector_heap.pops_all [OF assms(4) size_mset [symmetric]]
  have "Tm_ThreadMain (Suc (length (vec_items q))) (keeps_runner ex) th (R, s) =
      Some (bindr (tm_run_list ex ?ts s)
        (\<lambda>s. Inr (R(i := (R i)\<lparr>runner_queue := Some (q\<lparr>vec_items := []\<rparr>), runner_waiting := True\<rparr>), s)))"
    unfolding Tm_ThreadMain_def StartDispatchLoop_def
    using StartTaskRunner_served [OF assms(2,3), of ex s] th by (simp add: bindr_def split: sum.split)
  with all show "\<exists>ts. mset ts = mset (vec_items q) \<and> sorted (map Tm_GetTaskPriority ts) \<and>
    Tm_ThreadMain (Suc (length (vec_items q))) (keeps_runner ex) th (R, s) =
      Some (bindr (tm_run_list ex ts s)
        (\<lambda>s. Inr (R(i := (R i)\<lparr>runner_queue := Some (q\<lparr>vec_items := []\<rparr>), runner_waiting := True\<rparr>), s)))"
    by blast
  show "created T' = created T @ [(t, \<lparr>ThreadDelegate = self, threadName = c_str name\<rparr>)]"
    using assms(1) by (auto simp: Tm_Thread_new_def Tm_PlatformThread_Create_def setname_def Let_def)
qed

end
