(* ===== verification/Logging.thy ===== *)
theory Logging
  imports Prelude
begin

text \<open>
  \<^verbatim>\<open>base/logging.cpp\<close>: the log file. Every entry opens the file, appends a line and closes it again.
  The file system is a map from names to contents; \<open>can_open\<close> says whether \<^verbatim>\<open>fopen\<close> succeeds, \<open>tid\<close>
  is the id of the calling thread and \<open>prog\<close> the short name of the program. A formatted message is
  the result of the formatting, before \<^verbatim>\<open>vsnprintf\<close> cuts it off. An Android build has no file; its entries go
  to the log of the system, a list.
\<close>

section \<open>Numbers as text\<close>

definition digit :: "nat \<Rightarrow> char" where
  "digit d = char_of (48 + d)"

fun nat_to_string :: "nat \<Rightarrow> string" where
  "nat_to_string n = (if n < 10 then [digit n] else nat_to_string (n div 10) @ [digit (n mod 10)])"

declare nat_to_string.simps [simp del]

definition to_string :: "int \<Rightarrow> string" where
  "to_string i = (if i < 0 then CHR ''-'' # nat_to_string (nat (- i)) else nat_to_string (nat i))"

section \<open>State\<close>

type_synonym files = "string \<rightharpoonup> string"

record Logging =
  filename :: "string option"
  tagToShow :: string
  fs :: files

definition Logging_new :: "files \<Rightarrow> Logging" where
  "Logging_new F = \<lparr>filename = None, tagToShow = ''All'', fs = F\<rparr>"

definition newline :: char where
  "newline = CHR 0x0A"

definition put_line :: "bool \<Rightarrow> string \<Rightarrow> string \<Rightarrow> files \<Rightarrow> files" where
  "put_line trunc name entry F =
     (let old = (if trunc then [] else case F name of None \<Rightarrow> [] | Some c \<Rightarrow> c)
      in F(name \<mapsto> old @ c_str entry @ [newline]))"

section \<open>Operations\<close>

text \<open>\<^verbatim>\<open>fclose\<close> is called on the result of \<^verbatim>\<open>fopen\<close> whatever it is.\<close>

definition InitLog :: "(string \<Rightarrow> bool) \<Rightarrow> string \<Rightarrow> Logging \<Rightarrow> Logging result" where
  "InitLog can_open name L =
     (let L = L\<lparr>filename := Some name\<rparr> in
      if can_open name then Inr (L\<lparr>fs := (fs L)(name \<mapsto> [])\<rparr>) else Inl NullDeref)"

definition writeToLog ::
    "(string \<Rightarrow> bool) \<Rightarrow> int \<Rightarrow> string \<Rightarrow> string \<Rightarrow> bool \<Rightarrow> bool \<Rightarrow> Logging \<Rightarrow> Logging result" where
  "writeToLog can_open tid prog entry deleteFile autoAppendTag L =
     (let logEntry = ''['' @ to_string tid @ '';'' @ prog @ '';'' @
            (if autoAppendTag then ''All] '' else []) @ c_str entry in
      case filename L of
        None \<Rightarrow> Inl NullDeref
      | Some name \<Rightarrow>
          Inr (if can_open name then L\<lparr>fs := put_line deleteFile name logEntry (fs L)\<rparr> else L))"

definition writeToLog_entry :: "(string \<Rightarrow> bool) \<Rightarrow> int \<Rightarrow> string \<Rightarrow> string \<Rightarrow> Logging \<Rightarrow> Logging result" where
  "writeToLog_entry can_open tid prog entry L = writeToLog can_open tid prog entry False True L"

definition writeToLog_delete :: "(string \<Rightarrow> bool) \<Rightarrow> int \<Rightarrow> string \<Rightarrow> string \<Rightarrow> bool \<Rightarrow> Logging \<Rightarrow> Logging result" where
  "writeToLog_delete can_open tid prog entry deleteFile L = writeToLog can_open tid prog entry deleteFile True L"

text \<open>\<^verbatim>\<open>strrchr(tag, '/')\<close>: the name of the file without its directories.\<close>

definition after_slash :: "string \<Rightarrow> string" where
  "after_slash tag = rev (takeWhile (\<lambda>c. c \<noteq> CHR ''/'') (rev tag))"

definition kBufferSize :: nat where
  "kBufferSize = 2048"

definition log_text :: "string \<Rightarrow> int \<Rightarrow> string \<Rightarrow> string" where
  "log_text tag line formatted =
     (let buffer = take (kBufferSize - 1) (c_str formatted) in
      after_slash (c_str tag) @ '':'' @ to_string line @ ''] '' @ buffer)"

definition Log :: "(string \<Rightarrow> bool) \<Rightarrow> int \<Rightarrow> string \<Rightarrow> string \<Rightarrow> int \<Rightarrow> string \<Rightarrow> Logging \<Rightarrow> Logging result" where
  "Log can_open tid prog tag line formatted L =
     writeToLog can_open tid prog (log_text tag line formatted) False False L"

definition ShowOnlyTag :: "string \<Rightarrow> Logging \<Rightarrow> Logging" where
  "ShowOnlyTag tag L = L\<lparr>tagToShow := tag\<rparr>"

definition MonoLog :: "(string \<Rightarrow> bool) \<Rightarrow> bool \<Rightarrow> string \<Rightarrow> bool \<Rightarrow> Logging \<Rightarrow> Logging" where
  "MonoLog can_open debug entry deleteFirst L =
     (if debug \<and> can_open ''monologue.txt''
      then L\<lparr>fs := put_line deleteFirst ''monologue.txt'' entry (fs L)\<rparr> else L)"

text \<open>\<^verbatim>\<open>Logging::Log\<close> has an empty body.\<close>

definition Logging_Log :: "string \<Rightarrow> string \<Rightarrow> Logging \<Rightarrow> Logging" where
  "Logging_Log tag formatted L = L"

text \<open>The functions outside of the class, and the macros, which are empty in a release build.\<close>

definition InitLog_global :: "(string \<Rightarrow> bool) \<Rightarrow> string \<Rightarrow> Logging \<Rightarrow> Logging result" where
  "InitLog_global can_open name L = InitLog can_open name L"

definition writeToLog_member :: "(string \<Rightarrow> bool) \<Rightarrow> int \<Rightarrow> string \<Rightarrow> string \<Rightarrow> Logging \<Rightarrow> Logging result" where
  "writeToLog_member can_open tid prog entry L = writeToLog can_open tid prog entry False True L"

definition LogShowOnlyTag :: "string \<Rightarrow> Logging \<Rightarrow> Logging" where
  "LogShowOnlyTag tag L = ShowOnlyTag tag L"

definition MonoLog_global :: "(string \<Rightarrow> bool) \<Rightarrow> bool \<Rightarrow> string \<Rightarrow> bool \<Rightarrow> Logging \<Rightarrow> Logging" where
  "MonoLog_global can_open debug entry deleteFile L = MonoLog can_open debug entry deleteFile L"

definition LOG_ARGS ::
    "bool \<Rightarrow> (string \<Rightarrow> bool) \<Rightarrow> int \<Rightarrow> string \<Rightarrow> string \<Rightarrow> int \<Rightarrow> string \<Rightarrow> Logging \<Rightarrow> Logging result" where
  "LOG_ARGS debug can_open tid prog file line formatted L =
     (if debug then Log can_open tid prog file line formatted L else Inr L)"

definition LOG_REL :: "(string \<Rightarrow> bool) \<Rightarrow> int \<Rightarrow> string \<Rightarrow> string \<Rightarrow> int \<Rightarrow> string \<Rightarrow> Logging \<Rightarrow> Logging result" where
  "LOG_REL can_open tid prog file line message L = Log can_open tid prog file line message L"

section \<open>Android\<close>

text \<open>
  Entries of the system's log: priority, tag and text. \<^verbatim>\<open>writeToLog\<close> passes its entry as the format
  of \<^verbatim>\<open>__android_log_print\<close>, with no arguments: \<open>%%\<close> stands for one character, every other conversion
  reads an argument that was not passed.
\<close>

type_synonym android_log = "(string \<times> string \<times> string) list"

definition TAG :: string where
  "TAG = ''XPAppFX-Native''"

fun format_without_args :: "string \<Rightarrow> string result" where
  "format_without_args [] = Inr []"
| "format_without_args (c # cs) =
     (if c = CHR ''%'' then
        (case cs of
           [] \<Rightarrow> Inl OutOfBounds
         | d # ds \<Rightarrow>
             if d = CHR ''%'' then bindr (format_without_args ds) (\<lambda>t. Inr (CHR ''%'' # t)) else Inl OutOfBounds)
      else bindr (format_without_args cs) (\<lambda>t. Inr (c # t)))"

definition Log_android :: "string \<Rightarrow> int \<Rightarrow> string \<Rightarrow> android_log \<Rightarrow> android_log" where
  "Log_android tag line formatted l = l @ [(''DEBUG'', c_str tag, formatted)]"

definition writeToLog_android :: "string \<Rightarrow> bool \<Rightarrow> bool \<Rightarrow> android_log \<Rightarrow> android_log result" where
  "writeToLog_android entry deleteFile autoAppendTag l =
     bindr (format_without_args (c_str entry)) (\<lambda>t. Inr (l @ [(''INFO'', TAG, t)]))"

lemma format_plain: "CHR ''%'' \<notin> set s \<Longrightarrow> format_without_args s = Inr s"
  by (induction s) auto

lemma format_directive: "CHR ''%'' \<notin> set s \<Longrightarrow> c \<noteq> CHR ''%'' \<Longrightarrow> format_without_args (s @ CHR ''%'' # c # t) = Inl OutOfBounds"
  by (induction s) auto

text \<open>An entry reaches the Android log as it is, unless it has a percent sign in it: then the call is undefined.\<close>

lemma android_entry_is_a_format:
  "CHR ''%'' \<notin> set (c_str e) \<Longrightarrow> writeToLog_android e b b' l = Inr (l @ [(''INFO'', TAG, c_str e)])"
  "CHR ''%'' \<notin> set s \<Longrightarrow> c \<noteq> CHR ''%'' \<Longrightarrow> CHR 0x00 \<notin> set s \<Longrightarrow> c \<noteq> CHR 0x00 \<Longrightarrow>
     writeToLog_android (s @ CHR ''%'' # c # t) b b' l = Inl OutOfBounds"
proof -
  assume *: "CHR ''%'' \<notin> set s" "c \<noteq> CHR ''%''" "CHR 0x00 \<notin> set s" "c \<noteq> CHR 0x00"
  have "c_str (s @ CHR ''%'' # c # t) = s @ CHR ''%'' # c # c_str t"
    using * by (simp add: c_str_append) (simp add: c_str_def)
  with * show "writeToLog_android (s @ CHR ''%'' # c # t) b b' l = Inl OutOfBounds"
    by (simp add: writeToLog_android_def format_directive)
qed (simp add: writeToLog_android_def format_plain)

section \<open>Lemmas\<close>

lemma digit_not_special: "d < 10 \<Longrightarrow> digit d \<noteq> CHR 0x00 \<and> digit d \<noteq> CHR 0x0A"
proof -
  have "list_all (\<lambda>d. digit d \<noteq> CHR 0x00 \<and> digit d \<noteq> CHR 0x0A) [0..<10]" by code_simp
  then show "d < 10 \<Longrightarrow> ?thesis" by (simp only: list_all_iff set_upt atLeastLessThan_iff) simp
qed

lemma nat_to_string_plain: "c \<in> set (nat_to_string n) \<Longrightarrow> c \<noteq> CHR 0x00 \<and> c \<noteq> CHR 0x0A"
proof (induction n rule: nat_to_string.induct)
  case (1 n)
  then show ?case by (auto simp: nat_to_string.simps [of n] digit_not_special split: if_splits)
qed

lemma to_string_plain: "c \<in> set (to_string i) \<Longrightarrow> c \<noteq> CHR 0x00 \<and> c \<noteq> CHR 0x0A"
  by (auto simp: to_string_def dest: nat_to_string_plain split: if_splits)

lemma log_text_no_nul: "CHR 0x00 \<notin> set (log_text tag line formatted)"
proof -
  have "CHR 0x00 \<notin> set (after_slash (c_str tag))"
    using c_str_no_nul [of tag] by (auto simp: after_slash_def dest: set_takeWhileD)
  moreover have "CHR 0x00 \<notin> set (take n (c_str formatted))" for n
    using c_str_no_nul [of formatted] by (auto dest: in_set_takeD)
  ultimately show ?thesis by (auto simp: log_text_def Let_def dest: to_string_plain)
qed

definition log_line :: "int \<Rightarrow> string \<Rightarrow> string \<times> int \<times> string \<Rightarrow> string" where
  "log_line tid prog = (\<lambda>(tag, line, formatted).
     ''['' @ to_string tid @ '';'' @ prog @ '';'' @ log_text tag line formatted @ [newline])"

lemma Log_appends:
  assumes "filename L = Some name" and "can_open name" and "CHR 0x00 \<notin> set prog"
    and "fs L name = Some content"
  shows "Log can_open tid prog tag line formatted L =
           Inr (L\<lparr>fs := (fs L)(name \<mapsto> content @ log_line tid prog (tag, line, formatted))\<rparr>)"
proof -
  have "c_str (''['' @ to_string tid @ '';'' @ prog @ '';'' @ log_text tag line formatted) =
        ''['' @ to_string tid @ '';'' @ prog @ '';'' @ log_text tag line formatted"
    using assms(3) log_text_no_nul by (intro c_str_id) (auto dest: to_string_plain)
  with assms show ?thesis
    by (simp add: Log_def writeToLog_def put_line_def log_line_def log_text_no_nul)
qed

lemma Logs_append:
  assumes "filename L = Some name" and "fs L name = Some content" and "can_open name" and "CHR 0x00 \<notin> set prog"
  shows "\<exists>L'. fold (\<lambda>(tag, line, formatted) r. bindr r (Log can_open tid prog tag line formatted)) es (Inr L) = Inr L' \<and>
         filename L' = Some name \<and> fs L' name = Some (content @ concat (map (log_line tid prog) es))"
  using assms(1,2)
proof (induction es arbitrary: L content)
  case (Cons e es)
  obtain tag line formatted where e: "e = (tag, line, formatted)" by (cases e)
  have step: "Log can_open tid prog tag line formatted L =
         Inr (L\<lparr>fs := (fs L)(name \<mapsto> content @ log_line tid prog (tag, line, formatted))\<rparr>)"
    using Cons.prems assms(3,4) by (intro Log_appends)
  have "\<exists>L'. fold (\<lambda>(tag, line, formatted) r. bindr r (Log can_open tid prog tag line formatted)) es
          (Inr (L\<lparr>fs := (fs L)(name \<mapsto> content @ log_line tid prog e)\<rparr>)) = Inr L' \<and>
       filename L' = Some name \<and> fs L' name = Some ((content @ log_line tid prog e) @ concat (map (log_line tid prog) es))"
    using Cons.prems(1) by (intro Cons.IH) simp_all
  then show ?case using step e by simp
qed simp

section \<open>Properties\<close>

text \<open>
  C33. Once the log is initialised, the file holds exactly what was logged: one entry after the other in
  the order of the calls, each with the thread, the program, the name of the source file without
  its directories, the line and the message, of which at most 2047 characters are kept.
\<close>

theorem log_keeps_entries_in_order:
  assumes "can_open name" and "CHR 0x00 \<notin> set prog"
  shows "\<exists>L'. bindr (InitLog can_open name L) (\<lambda>L.
           fold (\<lambda>(tag, line, formatted) r. bindr r (Log can_open tid prog tag line formatted)) es (Inr L)) = Inr L' \<and>
         fs L' name = Some (concat (map (log_line tid prog) es)) \<and>
         list_all (\<lambda>(tag, line, formatted).
           length (log_text tag line formatted) \<le> length (after_slash (c_str tag) @ '':'' @ to_string line @ ''] '') + 2047) es"
proof -
  have "list_all (\<lambda>(tag, line, formatted).
           length (log_text tag line formatted) \<le> length (after_slash (c_str tag) @ '':'' @ to_string line @ ''] '') + 2047) es"
    by (auto simp: list_all_iff log_text_def Let_def kBufferSize_def)
  with Logs_append [of "L\<lparr>filename := Some name, fs := (fs L)(name \<mapsto> [])\<rparr>" name "[]" can_open prog tid es] assms show ?thesis
    by (auto simp: InitLog_def)
qed

theorem log_keeps_entries_in_order_witness:
  "\<exists>L'. bindr (InitLog (\<lambda>_. True) ''gitrpc.log'' (Logging_new Map.empty)) (\<lambda>L.
           fold (\<lambda>(tag, line, formatted) r. bindr r (Log (\<lambda>_. True) 7 ''gitrpc'' tag line formatted))
             [(''src/main.cpp'', 9, ''GitRPC Version''), (''a/App.h'', 23, ''ready'')] (Inr L)) = Inr L' \<and>
         fs L' ''gitrpc.log'' = Some (concat (map (log_line 7 ''gitrpc'')
             [(''src/main.cpp'', 9, ''GitRPC Version''), (''a/App.h'', 23, ''ready'')])) \<and>
         list_all (\<lambda>(tag, line, formatted).
           length (log_text tag line formatted) \<le> length (after_slash (c_str tag) @ '':'' @ to_string line @ ''] '') + 2047)
             [(''src/main.cpp'', 9, ''GitRPC Version''), (''a/App.h'', 23, ''ready'')]"
  by (rule log_keeps_entries_in_order) simp_all

end
