(* ===== verification/Metrics.thy ===== *)
theory Metrics
  imports Dispatcher Logging
begin

text \<open>
  \<^verbatim>\<open>base/metrics\<close>: a client that formats a measurement as a line of the InfluxDB protocol and posts a
  task to a thread of its own that is to send it. Sending is commented out in the source. \<open>digits\<close>
  is the decimal text of a \<^verbatim>\<open>double\<close>; \<open>platform\<close> is the build's platform name.
\<close>

section \<open>State\<close>

record MetricUpdateDetails =
  metric_url :: string
  metric_value :: string

record InfluxDBClient =
  app_name :: string
  database :: string
  dbServer :: string
  senderThread :: "Thread option"

definition InfluxDBClient_new :: InfluxDBClient where
  "InfluxDBClient_new = \<lparr>app_name = [], database = [], dbServer = [], senderThread = None\<rparr>"

section \<open>Operations\<close>

definition underscores :: "string \<Rightarrow> string" where
  "underscores name = map (\<lambda>c. if c = CHR '' '' then CHR ''_'' else c) name"

definition metric_line :: "string \<Rightarrow> string \<Rightarrow> string \<Rightarrow> string" where
  "metric_line platform name val = underscores name @ '',platform='' @ platform @ '' '' @ ''value='' @ val"

text \<open>The details of the update and what the dispatcher does with the task; \<open>None\<close>: it is dropped.\<close>

definition UpdateMetricInternal ::
    "string \<Rightarrow> string \<Rightarrow> string \<Rightarrow> Dispatcher \<Rightarrow> InfluxDBClient \<Rightarrow> (MetricUpdateDetails \<times> delivery option) result" where
  "UpdateMetricInternal platform name val D C =
     (let details = \<lparr>metric_url = dbServer C @ ''/write?db='' @ database C, metric_value = metric_line platform name val\<rparr> in
      bindr (PostTask ''MetricsSender'' D) (\<lambda>d. Inr (details, d)))"

definition UpdateIntMetric ::
    "string \<Rightarrow> string \<Rightarrow> int \<Rightarrow> Dispatcher \<Rightarrow> InfluxDBClient \<Rightarrow> (MetricUpdateDetails \<times> delivery option) result" where
  "UpdateIntMetric platform name val D C = UpdateMetricInternal platform name (to_string val) D C"

definition UpdateDoubleMetric ::
    "string \<Rightarrow> string \<Rightarrow> string \<Rightarrow> Dispatcher \<Rightarrow> InfluxDBClient \<Rightarrow> (MetricUpdateDetails \<times> delivery option) result" where
  "UpdateDoubleMetric platform name digits D C = UpdateMetricInternal platform name digits D C"

text \<open>The body is commented out.\<close>

definition UpdateMetricTask :: "MetricUpdateDetails \<Rightarrow> InfluxDBClient \<Rightarrow> InfluxDBClient" where
  "UpdateMetricTask details C = C"

definition new_thread :: Thread where
  "new_thread = \<lparr>thread_Id = 0, thread_dmp = Uninit, dispatchWinName = [], thread_sts = Uninit\<rparr>"

definition InitIFDBConnection ::
    "ThreadID \<Rightarrow> nat \<Rightarrow> nat \<Rightarrow> string \<Rightarrow> string \<Rightarrow> string \<Rightarrow> InfluxDBClient \<times> Dispatcher \<Rightarrow> InfluxDBClient \<times> Dispatcher" where
  "InitIFDBConnection tid p st serverAddress dbName appName = (\<lambda>(C, D).
     let C = C\<lparr>dbServer := serverAddress, database := dbName, app_name := appName\<rparr>;
         (t, D) = Thread_Start tid p st ''MetricsSender'' new_thread D
     in (C\<lparr>senderThread := Some t\<rparr>, D))"

section \<open>Properties\<close>

text \<open>The text of a number in the line is read back as the number.\<close>

definition undigit :: "char \<Rightarrow> nat" where
  "undigit c = of_char c - 48"

definition parse_nat :: "string \<Rightarrow> nat" where
  "parse_nat s = foldl (\<lambda>n c. 10 * n + undigit c) 0 s"

lemma undigit_digit: "d < 10 \<Longrightarrow> undigit (digit d) = d"
  by (simp add: undigit_def digit_def)

lemma parse_nat_to_string: "parse_nat (nat_to_string n) = n"
proof (induction n rule: nat_to_string.induct)
  case (1 n)
  then show ?case
    by (cases "n < 10") (simp_all add: nat_to_string.simps [of n] parse_nat_def undigit_digit)
qed

definition parse_int :: "string \<Rightarrow> int" where
  "parse_int s = (if s \<noteq> [] \<and> hd s = CHR ''-'' then - int (parse_nat (tl s)) else int (parse_nat s))"

lemma nat_to_string_head: "nat_to_string n \<noteq> [] \<and> hd (nat_to_string n) \<noteq> CHR ''-''"
proof (induction n rule: nat_to_string.induct)
  case (1 n)
  have "list_all (\<lambda>d. digit d \<noteq> CHR ''-'') [0..<10]" by code_simp
  then have "d < 10 \<Longrightarrow> digit d \<noteq> CHR ''-''" for d by (simp only: list_all_iff set_upt atLeastLessThan_iff) simp
  with 1 show ?case by (cases "n < 10") (simp_all add: nat_to_string.simps [of n])
qed

lemma parse_to_string: "parse_int (to_string i) = i"
  using nat_to_string_head [of "nat i"] by (simp add: parse_int_def to_string_def parse_nat_to_string)

text \<open>
  No measurement is ever sent: the thread that is to send them is started but never registered, so
  every update after the initialisation formats its line and drops it. The line itself is as meant:
  a name without blanks, and a value that reads back as the number that was given.
\<close>

theorem metrics_are_dropped:
  assumes "GetTaskRunner ''MetricsSender'' D = None" and "GetThread ''MetricsSender'' D = None"
    and "GetMessagePump ''MetricsSender'' D = None"
  shows "(let (C', D') = InitIFDBConnection tid p st server db app (C, D) in
    UpdateIntMetric platform name i D' C' =
      Inr (\<lparr>metric_url = server @ ''/write?db='' @ db,
            metric_value = underscores name @ '',platform='' @ platform @ '' value='' @ to_string i\<rparr>, None)) \<and>
    CHR '' '' \<notin> set (underscores name) \<and> parse_int (to_string i) = i"
  using assms
  by (auto simp: InitIFDBConnection_def Thread_Start_def Let_def UpdateIntMetric_def UpdateMetricInternal_def
      PostTask_def metric_line_def underscores_def parse_to_string)

theorem metrics_are_dropped_witness:
  "(let (C', D') = InitIFDBConnection 9 0 0 ''http://db'' ''git'' ''gitrpc'' (InfluxDBClient_new, Dispatcher_new) in
    UpdateIntMetric ''Linux'' ''open repos'' (-3) D' C' =
      Inr (\<lparr>metric_url = ''http://db'' @ ''/write?db='' @ ''git'',
            metric_value = underscores ''open repos'' @ '',platform='' @ ''Linux'' @ '' value='' @ to_string (-3)\<rparr>, None)) \<and>
    CHR '' '' \<notin> set (underscores ''open repos'') \<and> parse_int (to_string (-3)) = -3"
  by (rule metrics_are_dropped) (simp_all add: Dispatcher_new_def GetTaskRunner_def GetThread_def GetMessagePump_def)

end
