(* ===== verification/Server_App.thy ===== *)
theory Server_App
  imports Recv_Pack_Stream Base_Utils Logging
begin

text \<open>
  The start of the server: \<^verbatim>\<open>main.cpp\<close>, \<^verbatim>\<open>app/\<close>, \<^verbatim>\<open>base/app/\<close>, \<^verbatim>\<open>common/GRPC\<close> and
  \<^verbatim>\<open>services/git/GitServiceAsyncImpl\<close>. Constructing the application initialises the task runner
  \<^verbatim>\<open>Main\<close> and enters its loop with a first task, which runs the application's main function on
  that loop: it initialises the repository manager and starts the gRPC server on a detached
  thread, which creates the completion queues and starts the request handlers.

  gRPC and the socket calls are arguments: \<open>made\<close> and \<open>bound\<close> are the outcomes of creating the socket,
  \<open>built\<close> says whether the server could be built. The completion queues are numbered in the order
  they are added.
\<close>

section \<open>State\<close>

datatype handler_class = WriteReference_class | RecvPackStream_class | RepoStateChange_class | ListRefRequests_class

record GRPCServer =
  currentAddress :: string
  listening :: "string option"
  completion_queues :: nat
  writeRefQueue :: "nat option"
  receivePackQueue :: "nat option"
  recvPackStreamQueue :: "nat option"
  repoStateStreamQueue :: "nat option"
  handler_threads :: "(handler_class \<times> nat option) list"
  server_thread :: "string option"

definition GRPCServer_new :: GRPCServer where
  "GRPCServer_new = \<lparr>currentAddress = [], listening = None, completion_queues = 0, writeRefQueue = None,
     receivePackQueue = None, recvPackStreamQueue = None, repoStateStreamQueue = None,
     handler_threads = [], server_thread = None\<rparr>"

datatype app_fn = fn_TaskRunnerInitComplete

record 'w server_app =
  app_grpc :: GRPCServer
  app_manager :: "'w RepositoryManager"
  app_exited :: bool

section \<open>The gRPC server\<close>

text \<open>The \<^verbatim>\<open>HANDLER\<close> macro: a new handler object whose thread is started.\<close>

definition Handle :: "handler_class \<Rightarrow> nat option \<Rightarrow> GRPCServer \<Rightarrow> GRPCServer" where
  "Handle c queue G = G\<lparr>handler_threads := handler_threads G @ [(c, queue)]\<rparr>"

definition SetupAsyncHandler :: "GRPCServer \<Rightarrow> GRPCServer" where
  "SetupAsyncHandler G =
     (let G = Handle WriteReference_class (writeRefQueue G) G;
          G = Handle RecvPackStream_class (recvPackStreamQueue G) G;
          G = Handle RepoStateChange_class (repoStateStreamQueue G) G
      in G)"

definition AddCompletionQueue :: "GRPCServer \<Rightarrow> nat \<times> GRPCServer" where
  "AddCompletionQueue G = (completion_queues G, G\<lparr>completion_queues := Suc (completion_queues G)\<rparr>)"

text \<open>
  The function of the detached thread. It captured the parameter \<^verbatim>\<open>addr\<close> of the function that
  started it by reference, and reads it in debug builds to log it; \<open>addr_alive\<close> says whether that
  function has not returned yet.
\<close>

definition server_main :: "bool \<Rightarrow> bool \<Rightarrow> bool \<Rightarrow> GRPCServer \<Rightarrow> GRPCServer result" where
  "server_main debug addr_alive built G =
     (if debug \<and> \<not> addr_alive then Inl UseAfterFree
      else
        let port = currentAddress G;
            (q, G) = AddCompletionQueue G; G = G\<lparr>writeRefQueue := Some q\<rparr>;
            (q, G) = AddCompletionQueue G; G = G\<lparr>receivePackQueue := Some q\<rparr>;
            (q, G) = AddCompletionQueue G; G = G\<lparr>recvPackStreamQueue := Some q\<rparr>;
            (q, G) = AddCompletionQueue G; G = G\<lparr>repoStateStreamQueue := Some q\<rparr>;
            G = (if built then G\<lparr>listening := Some port\<rparr> else G);
            G = SetupAsyncHandler G
        in if built then Inr G else Inl NullDeref)"

definition CreateGRPCServerInternal :: "string \<Rightarrow> GRPCServer \<Rightarrow> GRPCServer" where
  "CreateGRPCServerInternal addr G = G\<lparr>server_thread := Some addr\<rparr>"

text \<open>\<open>None\<close>: the process has exited.\<close>

definition CreateGRPCServer :: "bool \<Rightarrow> (string \<Rightarrow> bool) \<Rightarrow> GRPCServer \<Rightarrow> GRPCServer option" where
  "CreateGRPCServer made bound G =
     (let G = G\<lparr>currentAddress := currentAddress G @ ''unix:'' @ SERVER_SOCKET\<rparr> in
      if fst (CreateUnixSocket made bound SERVER_SOCKET)
      then Some (CreateGRPCServerInternal (currentAddress G) G) else None)"

definition CreateHTTPGRPCServer :: "GRPCServer \<Rightarrow> GRPCServer" where
  "CreateHTTPGRPCServer G =
     (let G = G\<lparr>currentAddress := currentAddress G @ ''0.0.0.0:9001''\<rparr>
      in CreateGRPCServerInternal (currentAddress G) G)"

section \<open>The application\<close>

definition AppImpl_Main :: "bool \<Rightarrow> (string \<Rightarrow> bool) \<Rightarrow> 'w server_app \<Rightarrow> 'w server_app" where
  "AppImpl_Main made bound A =
     (let A = A\<lparr>app_manager := Init (app_manager A)\<rparr> in
      case CreateGRPCServer made bound (app_grpc A) of
        None \<Rightarrow> A\<lparr>app_exited := True\<rparr>
      | Some G \<Rightarrow> A\<lparr>app_grpc := G\<rparr>)"

definition TaskRunnerInitComplete :: "bool \<Rightarrow> (string \<Rightarrow> bool) \<Rightarrow> 'w server_app \<Rightarrow> 'w server_app" where
  "TaskRunnerInitComplete made bound A = AppImpl_Main made bound A"

definition run_app :: "bool \<Rightarrow> (string \<Rightarrow> bool) \<Rightarrow> (app_fn, unit, nat) call \<Rightarrow> 'w server_app \<Rightarrow> 'w server_app result" where
  "run_app made bound c A =
     (case callee c of fn_TaskRunnerInitComplete \<Rightarrow> Inr (TaskRunnerInitComplete made bound A))"

text \<open>
  \<^verbatim>\<open>AppBase::InitAppBase\<close>, which the constructor of the application calls: up to the loop, and the
  loop's first turn. \<open>self\<close> is the main thread, \<open>p\<close> and \<open>st\<close> the new pump and thread state, \<open>a\<close>
  the address of the first task. Control never leaves the loop, so what \<^verbatim>\<open>main\<close> does after the
  constructor is never reached.
\<close>

definition InitAppBase ::
    "nat \<Rightarrow> int \<Rightarrow> ThreadID \<Rightarrow> nat \<Rightarrow> nat \<Rightarrow> nat \<Rightarrow> bool \<Rightarrow> bool \<Rightarrow> Dispatcher
       \<Rightarrow> (Dispatcher \<times> (app_fn, unit, nat) MessagePumpEPoll \<times> SharedThreadState) result" where
  "InitAppBase cap junk self p st a pipe_ok epoll_ok D =
     (let initTask = NEW_TASK0 junk () fn_TaskRunnerInitComplete;
          (taskRunner, D) = TaskRunner_Init self p st ''Main'' (Ptr a) D in
      bindr (TaskRunner_Start ((\<lambda>_. initTask)(a := initTask)) D pipe_ok epoll_ok taskRunner
               (MessagePumpEPoll_new ''Main'', SharedThreadState_new)) (\<lambda>PS.
      bindr (StartMessageLoop_begin cap D True PS) (\<lambda>(P, S). Inr (D, P, S))))"

definition AppImpl_new ::
    "bool \<Rightarrow> (string \<Rightarrow> bool) \<Rightarrow> nat \<Rightarrow> int \<Rightarrow> ThreadID \<Rightarrow> nat \<Rightarrow> nat \<Rightarrow> nat \<Rightarrow> bool \<Rightarrow> bool \<Rightarrow> 'w server_app
       \<Rightarrow> (Dispatcher \<times> (app_fn, unit, nat) MessagePumpEPoll \<times> SharedThreadState \<times> 'w server_app) result" where
  "AppImpl_new made bound cap junk self p st a pipe_ok epoll_ok A =
     bindr (InitAppBase cap junk self p st a pipe_ok epoll_ok Dispatcher_new) (\<lambda>(D, P, S).
     bindr (loop_turn (run_app made bound) (P, S, A)) (\<lambda>(P, S, A). Inr (D, P, S, A)))"

text \<open>The whole program; \<open>build\<close> and \<open>branch\<close> come from the header the build generates.\<close>

definition main ::
    "bool \<Rightarrow> (string \<Rightarrow> bool) \<Rightarrow> int \<Rightarrow> string \<Rightarrow> string \<Rightarrow> string \<Rightarrow> Logging
       \<Rightarrow> bool \<Rightarrow> (string \<Rightarrow> bool) \<Rightarrow> nat \<Rightarrow> int \<Rightarrow> ThreadID \<Rightarrow> nat \<Rightarrow> nat \<Rightarrow> nat \<Rightarrow> bool \<Rightarrow> bool \<Rightarrow> 'w server_app
       \<Rightarrow> (Logging \<times> Dispatcher \<times> (app_fn, unit, nat) MessagePumpEPoll \<times> SharedThreadState \<times> 'w server_app) result" where
  "main debug can_open tid prog build branch L made bound cap junk self p st a pipe_ok epoll_ok A =
     bindr (InitLog_global can_open ''gitrpc.log'' L) (\<lambda>L.
     bindr (LOG_ARGS debug can_open tid prog ''main.cpp'' 9 (''GitRPC Version: '' @ build @ ''.'' @ branch) L) (\<lambda>L.
     bindr (AppImpl_new made bound cap junk self p st a pipe_ok epoll_ok A) (\<lambda>(D, P, S, A). Inr (L, D, P, S, A))))"

section \<open>Properties\<close>

lemmas server_defs = server_main_def SetupAsyncHandler_def Handle_def AddCompletionQueue_def Let_def

lemma server_main_handlers:
  assumes "GRPCServer.completion_queues G = 0" and "handler_threads G = []" and "\<not> debug \<or> addr_alive"
  shows "\<exists>G'. server_main debug addr_alive True G = Inr G' \<and> listening G' = Some (currentAddress G) \<and>
     handler_threads G' = [(WriteReference_class, Some 0), (RecvPackStream_class, Some 2), (RepoStateChange_class, Some 3)] \<and>
     receivePackQueue G' = Some 1"
  using assms by (auto simp: server_defs)

text \<open>
  C38. The server comes up: constructing the application registers the task runner \<open>Main\<close>, and the
  first turn of its loop runs the application's main function exactly once, with the manager
  initialised and the queue empty afterwards; the server thread then listens on the unix socket and
  starts a handler for each of the three calls it serves, each with a queue of its own. The queue
  that was made for \<open>ReceivePack\<close> has no handler, and no handler for \<open>ListRefs\<close> is started.
\<close>

theorem server_comes_up:
  assumes "cap > 0" and "bound SERVER_SOCKET" and "app_grpc A = GRPCServer_new" and "\<not> debug \<or> addr_alive"
  shows "\<exists>D P S A' G r. AppImpl_new True bound cap junk self p st a True True A = Inr (D, P, S, A') \<and>
     GetTaskRunner ''Main'' D = Some r \<and> runner_dmp r = Ptr p \<and> taskQueue P = [] \<and> startComplete P \<and>
     app_manager A' = Init (app_manager A) \<and> server_thread (app_grpc A') = Some ''unix:nexus_git_service'' \<and>
     server_main debug addr_alive True (app_grpc A') = Inr G \<and> listening G = Some ''unix:nexus_git_service'' \<and>
     handler_threads G = [(WriteReference_class, Some 0), (RecvPackStream_class, Some 2), (RepoStateChange_class, Some 3)] \<and>
     receivePackQueue G = Some 1"
proof -
  let ?t = "NEW_TASK0 junk () fn_TaskRunnerInitComplete :: (app_fn, unit, nat) Task"
  obtain r D where rD: "TaskRunner_Init self p st ''Main'' (Ptr a) Dispatcher_new = (r, D)" by fastforce
  have new: "GetTaskRunner ''Main'' Dispatcher_new = None" by (simp add: GetTaskRunner_def Dispatcher_new_def)
  have r: "GetTaskRunner ''Main'' D = Some r" "runner_dmp r = Ptr p"
    using rD runners.get_add_same [OF new] by (auto simp: TaskRunner_Init_def Let_def)
  obtain P S where PS: "bindr (TaskRunner_Start (\<lambda>_. ?t) D True True r (MessagePumpEPoll_new ''Main'', SharedThreadState_new))
      (StartMessageLoop_begin cap D True) = Inr (P, S)" "startComplete P" "taskQueue P = [?t]"
    using task_runner_starting [OF new rD assms(1), of "\<lambda>_. ?t"] by auto
  have boot: "InitAppBase cap junk self p st a True True Dispatcher_new = Inr (D, P, S)"
    using PS(1) rD by (auto simp: InitAppBase_def Let_def fun_upd_idem bindr_def split: sum.splits prod.splits)
  let ?A = "A\<lparr>app_manager := Init (app_manager A), app_grpc := GRPCServer_new\<lparr>currentAddress := ''unix:nexus_git_service'',
      server_thread := Some ''unix:nexus_git_service''\<rparr>\<rparr>"
  have path: "take (sun_path_size - 1) (c_str SERVER_SOCKET) = SERVER_SOCKET"
    by (simp add: sun_path_size_def SERVER_SOCKET_def)
  have main: "AppImpl_Main True bound A = ?A"
    using assms(2,3) path
    by (simp add: AppImpl_Main_def CreateGRPCServer_def CreateUnixSocket_def Let_def CreateGRPCServerInternal_def
        GRPCServer_new_def SERVER_SOCKET_def)
  have turn: "loop_turn (run_app True bound) (P, S, A) =
      Inr (P\<lparr>taskQueue := []\<rparr>, S\<lparr>pipe_bytes := pipe_bytes S - 1\<rparr>, ?A)"
    using PS(3) main by (simp add: loop_turn_def run_tasks_single run_app_def TaskRunnerInitComplete_def)
  have "AppImpl_new True bound cap junk self p st a True True A =
      Inr (D, P\<lparr>taskQueue := []\<rparr>, S\<lparr>pipe_bytes := pipe_bytes S - 1\<rparr>, ?A)"
    by (simp add: AppImpl_new_def boot turn)
  moreover obtain G where "server_main debug addr_alive True (app_grpc ?A) = Inr G" "listening G = Some ''unix:nexus_git_service''"
    "handler_threads G = [(WriteReference_class, Some 0), (RecvPackStream_class, Some 2), (RepoStateChange_class, Some 3)]"
    "receivePackQueue G = Some 1"
    using server_main_handlers [of "app_grpc ?A", OF _ _ assms(4)] by (auto simp: GRPCServer_new_def)
  ultimately show ?thesis using r PS(2) by simp
qed

definition demo_app :: "unit server_app" where
  "demo_app = \<lparr>app_grpc = GRPCServer_new, app_manager = RepositoryManager_new (), app_exited = False\<rparr>"

theorem server_comes_up_witness:
  "\<exists>D P S A' G r. AppImpl_new True (\<lambda>_. True) 16 5 7 0 1 3 True True demo_app = Inr (D, P, S, A') \<and>
     GetTaskRunner ''Main'' D = Some r \<and> runner_dmp r = Ptr 0 \<and> taskQueue P = [] \<and> startComplete P \<and>
     app_manager A' = Init (app_manager demo_app) \<and> server_thread (app_grpc A') = Some ''unix:nexus_git_service'' \<and>
     server_main False False True (app_grpc A') = Inr G \<and> listening G = Some ''unix:nexus_git_service'' \<and>
     handler_threads G = [(WriteReference_class, Some 0), (RecvPackStream_class, Some 2), (RepoStateChange_class, Some 3)] \<and>
     receivePackQueue G = Some 1"
  by (rule server_comes_up) (simp_all add: demo_app_def)

text \<open>The program needs its log file: it closes a null stream when the file cannot be opened.\<close>

lemma main_needs_log_file:
  "\<not> can_open ''gitrpc.log'' \<Longrightarrow>
     main debug can_open tid prog build branch L made bound cap junk self p st a pipe_ok epoll_ok A = Inl NullDeref"
  "can_open ''gitrpc.log'' \<Longrightarrow> AppImpl_new made bound cap junk self p st a pipe_ok epoll_ok A = Inr (D, P, S, A') \<Longrightarrow>
     \<exists>L'. main debug can_open tid prog build branch L made bound cap junk self p st a pipe_ok epoll_ok A = Inr (L', D, P, S, A')"
  by (auto simp: main_def InitLog_global_def InitLog_def LOG_ARGS_def Log_def writeToLog_def Let_def)

text \<open>In a debug build the server thread reads its starter's parameter, which is gone when the starter has returned.\<close>

lemma debug_server_reads_dead_argument: "server_main True False built G = Inl UseAfterFree"
  by (simp add: server_main_def)

end
