(* ===== verification/Proxy_Types.thy ===== *)
theory Proxy_Types
  imports Repo_Proxy
begin

text \<open>
  The tasks of the proxy carry their arguments as \<^verbatim>\<open>void*\<close>, and the manager casts them back without
  a check. This theory shows that the casts are right: a step relation has every way the handlers
  and the main loop change the system, and in every state it reaches each queued task is bound to an
  argument object of the class that its operation casts to.
\<close>

section \<open>Typing of calls\<close>

fun expects :: "manager_fn \<Rightarrow> args \<Rightarrow> bool" where
  "expects fn_OpenRepo (OpenRepoArgs p) = True"
| "expects fn_AppendDataToPack (WritePackDataArgs p n) = True"
| "expects fn_CommitPackChanges GenericArgs = True"
| "expects fn_NewReference (NewReferenceArgs n v) = True"
| "expects fn_GetRepoRefs GetReferenceListArgs = True"
| "expects f d = False"

definition well_typed :: "args list \<Rightarrow> repo_call \<Rightarrow> bool" where
  "well_typed objs c \<longleftrightarrow>
     (case argument c of
        None \<Rightarrow> callee c = fn_CloseRepo
      | Some a \<Rightarrow> a < length objs \<and> expects (callee c) (objs ! a))"

definition typed_task :: "args list \<Rightarrow> repo_task \<Rightarrow> bool" where
  "typed_task objs t \<longleftrightarrow> (case Invoke t of Inl e \<Rightarrow> False | Inr (c, t') \<Rightarrow> well_typed objs c)"

section \<open>The steps of the system\<close>

inductive proxy_step ::
    "'w libgit2 \<Rightarrow> build_cfg \<Rightarrow> git_oid \<Rightarrow> nat \<Rightarrow> nat \<Rightarrow> 'w system \<Rightarrow> 'w system \<Rightarrow> bool"
  for L :: "'w libgit2" and B :: build_cfg and oid :: git_oid and cap :: nat and p :: nat where
  open_request: "Proxy_OpenRepo cap junk b S = Inr (a, S') \<Longrightarrow> proxy_step L B oid cap p S S'"
| close_request: "Proxy_CloseRepo cap junk S = Inr S' \<Longrightarrow> proxy_step L B oid cap p S S'"
| append_request: "Proxy_PackAppend cap junk b n S = Inr (a, S') \<Longrightarrow> proxy_step L B oid cap p S S'"
| commit_request: "Proxy_PackCommit cap junk S = Inr (a, S') \<Longrightarrow> proxy_step L B oid cap p S S'"
| create_request: "Proxy_CreateReference cap junk n v S = Inr (a, S') \<Longrightarrow> proxy_step L B oid cap p S S'"
| list_request: "Proxy_GetReferences cap junk S = Inr (a, S') \<Longrightarrow> proxy_step L B oid cap p S S'"
| loop_step: "pump_turn L B oid p S = Inr S' \<Longrightarrow> proxy_step L B oid cap p S S'"
| buffers_change: "proxy_step L B oid cap p S (S\<lparr>svc := (svc S)\<lparr>char_buffers := cb, byte_buffers := bb\<rparr>\<rparr>)"

inductive_cases proxy_stepE: "proxy_step L B oid cap p S S'"

definition proxy_start :: "nat \<Rightarrow> 'w system \<Rightarrow> bool" where
  "proxy_start p S \<longleftrightarrow> main_ready p S \<and> taskQueue (fst (pumps S p)) = [] \<and> promises_fresh (svc S)"

abbreviation proxy_reachable :: "'w libgit2 \<Rightarrow> build_cfg \<Rightarrow> git_oid \<Rightarrow> nat \<Rightarrow> nat \<Rightarrow> 'w system \<Rightarrow> bool" where
  "proxy_reachable L B oid cap p \<equiv> reachable (proxy_start p) (proxy_step L B oid cap p)"

lemmas proxy_next = reachable_step [of "proxy_start p" "proxy_step L B oid cap p" for L B oid cap p]

lemma main_system_reachable: "proxy_reachable L B oid cap 0 (main_system w n bs)"
  by (rule reachable_start) (simp add: proxy_start_def main_system_ready)

section \<open>Every step keeps the queue well typed\<close>

definition typed_inv :: "nat \<Rightarrow> 'w system \<Rightarrow> bool" where
  "typed_inv p S \<longleftrightarrow> main_ready p S \<and>
     (\<forall>t \<in> set (taskQueue (fst (pumps S p))). typed_task (arg_objects (svc S)) t)"

lemma well_typed_more: "well_typed objs c \<Longrightarrow> well_typed (objs @ ds) c"
  by (auto simp: well_typed_def nth_append split: option.splits)

lemma typed_task_more: "typed_task objs t \<Longrightarrow> typed_task (objs @ ds) t"
  by (auto simp: typed_task_def well_typed_more split: sum.splits)

lemma set_heap_push:
  assumes "is_heap GetTaskPriority q"
  shows "set (heap_push GetTaskPriority t q) = insert t (set q)"
proof -
  have "set_mset (mset (heap_push GetTaskPriority t q)) = insert t (set q)"
    using heap_push_correct [OF assms, of t] by simp
  then show ?thesis by simp
qed

lemma typed_inv_post:
  assumes "typed_inv p S" and "typed_task (arg_objects (svc S) @ ds) t"
  shows "typed_inv p (with_task cap p t (S\<lparr>svc := (svc S)\<lparr>arg_objects := arg_objects (svc S) @ ds\<rparr>\<rparr>))"
proof -
  let ?S = "S\<lparr>svc := (svc S)\<lparr>arg_objects := arg_objects (svc S) @ ds\<rparr>\<rparr>"
  have ready: "main_ready p ?S" using assms(1) by (simp add: typed_inv_def)
  then have "is_heap GetTaskPriority (taskQueue (fst (pumps S p)))" by (simp add: main_ready_def)
  from set_heap_push [OF this] have "set (taskQueue (fst (pumps (with_task cap p t ?S) p))) =
      insert t (set (taskQueue (fst (pumps S p))))" by simp
  with assms main_ready_with_task [OF ready] show ?thesis
    by (auto simp: typed_inv_def typed_task_more)
qed

lemma typed_tasks:
  "expects f d \<Longrightarrow> typed_task (objs @ [d]) (NEW_TASK1 junk () f (Some (length objs)))"
  "expects f d \<Longrightarrow> typed_task (objs @ [d]) (RANKED_TASK1 junk () f r (Some (length objs)))"
  "typed_task objs (NEW_TASK0 junk () fn_CloseRepo)"
  by (simp_all add: typed_task_def well_typed_def)

lemma requests_keep_types:
  assumes "typed_inv p S"
  shows "Proxy_OpenRepo cap junk b S = Inr (a, S') \<Longrightarrow> typed_inv p S'"
    and "Proxy_CloseRepo cap junk S = Inr S' \<Longrightarrow> typed_inv p S'"
    and "Proxy_PackAppend cap junk b n S = Inr (a, S') \<Longrightarrow> typed_inv p S'"
    and "Proxy_PackCommit cap junk S = Inr (a, S') \<Longrightarrow> typed_inv p S'"
    and "Proxy_CreateReference cap junk rn rv S = Inr (a, S') \<Longrightarrow> typed_inv p S'"
    and "Proxy_GetReferences cap junk S = Inr (a, S') \<Longrightarrow> typed_inv p S'"
proof -
  have ready: "main_ready p (S\<lparr>svc := s\<rparr>)" "main_ready p S" for s using assms by (simp_all add: typed_inv_def)
  note post = POST_TASK_ready [OF ready(1)] POST_TASK_ready [OF ready(2)]
  show "Proxy_OpenRepo cap junk b S = Inr (a, S') \<Longrightarrow> typed_inv p S'"
    "Proxy_PackAppend cap junk b n S = Inr (a, S') \<Longrightarrow> typed_inv p S'"
    "Proxy_PackCommit cap junk S = Inr (a, S') \<Longrightarrow> typed_inv p S'"
    "Proxy_CreateReference cap junk rn rv S = Inr (a, S') \<Longrightarrow> typed_inv p S'"
    "Proxy_GetReferences cap junk S = Inr (a, S') \<Longrightarrow> typed_inv p S'"
    by (auto simp: proxy_defs post intro!: typed_inv_post [OF assms] typed_tasks)
  show "Proxy_CloseRepo cap junk S = Inr S' \<Longrightarrow> typed_inv p S'"
    using typed_inv_post [OF assms, of "[]"] typed_tasks(3) by (auto simp: proxy_defs post)
qed

lemma turn_keeps_types:
  assumes "typed_inv p S" and "pump_turn L B oid p S = Inr S'"
  shows "typed_inv p S'"
  using assms
  by (auto simp: typed_inv_def pump_turn_def loop_turn_def bindr_eq_Inr_iff main_ready_def is_heap_def)

lemma buffers_keep_types:
  "typed_inv p S \<Longrightarrow> typed_inv p (S\<lparr>svc := (svc S)\<lparr>char_buffers := cb, byte_buffers := bb\<rparr>\<rparr>)"
  by (simp add: typed_inv_def)

lemma proxy_step_typed: "proxy_step L B oid cap p S S' \<Longrightarrow> typed_inv p S \<Longrightarrow> typed_inv p S'"
  by (cases rule: proxy_stepE) (auto intro: requests_keep_types turn_keeps_types buffers_keep_types)

interpretation types: step_invariant "proxy_start p" "proxy_step L B oid cap p" "typed_inv p" for L B oid cap p
  by unfold_locales (simp add: proxy_start_def typed_inv_def, rule proxy_step_typed)

section \<open>Properties\<close>

text \<open>
  C20. The unchecked casts of the manager are right: in every state that requests, turns of the main
  loop and changes of the callers' buffers can reach, invoking any queued task calls an operation
  of the manager with the address of an existing argument object of exactly the class the
  operation casts it to, or, for closing, with no argument.
\<close>

theorem casts_are_well_typed:
  assumes "proxy_reachable L B oid cap p S" and "t \<in> set (taskQueue (fst (pumps S p)))"
  shows "\<exists>c t'. Invoke t = Inr (c, t') \<and>
    (case argument c of
       None \<Rightarrow> callee c = fn_CloseRepo
     | Some a \<Rightarrow> a < length (arg_objects (svc S)) \<and> expects (callee c) (arg_objects (svc S) ! a))"
proof -
  from types.holds [OF assms(1)] assms(2) have "typed_task (arg_objects (svc S)) t"
    by (auto simp: typed_inv_def)
  then show ?thesis unfolding typed_task_def well_typed_def by (cases "Invoke t") auto
qed

theorem casts_are_well_typed_witness:
  "(let S = main_system (mem_with_repo ''r'') ''r'' [1, 2, 3]; S' = snd (projr (Proxy_PackAppend 2 9 0 2 S)) in
    \<exists>c t'. Invoke (RANKED_TASK1 9 () fn_AppendDataToPack HIGH (Some 0) :: repo_task) = Inr (c, t') \<and>
      (case argument c of
         None \<Rightarrow> callee c = fn_CloseRepo
       | Some a \<Rightarrow> a < length (arg_objects (svc S')) \<and> expects (callee c) (arg_objects (svc S') ! a)))"
proof -
  let ?S = "main_system (mem_with_repo ''r'') ''r'' [1, 2, 3]"
  let ?S' = "snd (projr (Proxy_PackAppend 2 9 0 2 ?S))"
  note post = POST_TASK_ready [OF main_ready_new_args [THEN iffD2, OF main_system_ready(1)]]
  have step: "Proxy_PackAppend 2 9 0 2 ?S = Inr (fst (projr (Proxy_PackAppend 2 9 0 2 ?S)), ?S')"
    by (simp add: proxy_defs post)
  have "proxy_reachable mem_git debug_build [] 2 0 ?S'"
    by (rule proxy_next [OF main_system_reachable append_request [OF step]])
  moreover have "RANKED_TASK1 9 () fn_AppendDataToPack HIGH (Some 0) \<in> set (taskQueue (fst (pumps ?S' 0)))"
    using main_system_ready(2) [of "mem_with_repo ''r''" "''r''" "[1, 2, 3]"]
    by (simp add: proxy_defs post) (simp add: main_system_def)
  ultimately show ?thesis unfolding Let_def by (rule casts_are_well_typed)
qed

end
