(* ===== verification/Linearization.thy ===== *)
theory Linearization
  imports Proxy_Types
begin

text \<open>
  Requests of different handlers meet in the queue of the main loop. The specification of what they are
  promised is sequential: \<open>repo_op\<close> are the operations of the manager with their arguments as values, \<open>perform\<close> is
  one of them, \<open>perform_all\<close> a sequence of them with the promises they fulfil. The implementation (argument
  objects behind \<^verbatim>\<open>void*\<close>, tasks with function slots, a heap as the queue, promises that must not be set
  twice) refines it: in every state that posting and serving can reach, a turn of the loop performs the queued
  requests one after the other in an order that respects their priorities.
\<close>

section \<open>The specification\<close>

datatype repo_op =
    OpOpen string
  | OpAppend "byte list"
  | OpCommit
  | OpReference string string
  | OpList
  | OpClose

definition text_result :: "(string \<times> 'w RepositoryManager) result \<Rightarrow> (answer option \<times> 'w RepositoryManager) result" where
  "text_result r = bindr r (\<lambda>(t, M). Inr (Some (Text t), M))"

fun perform :: "'w libgit2 \<Rightarrow> build_cfg \<Rightarrow> git_oid \<Rightarrow> repo_op \<Rightarrow> 'w RepositoryManager \<Rightarrow> (answer option \<times> 'w RepositoryManager) result" where
  "perform L B oid (OpOpen n) M = text_result (OpenRepo L B n M)"
| "perform L B oid (OpAppend bs) M = text_result (AppendDataToPack L bs M)"
| "perform L B oid OpCommit M = text_result (CommitPackChanges L M)"
| "perform L B oid (OpReference n v) M = text_result (NewReference L oid n v M)"
| "perform L B oid OpList M =
     (case GetRepoRefs L M of
        None \<Rightarrow> Inl NoReturn
      | Some r \<Rightarrow> bindr r (\<lambda>(resp, M). Inr (Some (RefList resp), M)))"
| "perform L B oid OpClose M = bindr (CloseRepo L M) (\<lambda>M. Inr (None, M))"

text \<open>A request has the address of its promise, if anybody waits for it.\<close>

type_synonym request = "nat option \<times> repo_op"

fun fulfil :: "nat option \<Rightarrow> answer option \<Rightarrow> (nat \<rightharpoonup> answer) \<Rightarrow> (nat \<rightharpoonup> answer)" where
  "fulfil (Some a) (Some v) ps = ps(a \<mapsto> v)"
| "fulfil a v ps = ps"

fun perform_all ::
    "'w libgit2 \<Rightarrow> build_cfg \<Rightarrow> git_oid \<Rightarrow> request list \<Rightarrow> 'w RepositoryManager \<times> (nat \<rightharpoonup> answer)
       \<Rightarrow> ('w RepositoryManager \<times> (nat \<rightharpoonup> answer)) result" where
  "perform_all L B oid [] Mp = Inr Mp"
| "perform_all L B oid ((a, r) # rs) (M, ps) =
     bindr (perform L B oid r M) (\<lambda>(v, M). perform_all L B oid rs (M, fulfil a v ps))"

section \<open>What a queued task asks for\<close>

text \<open>\<open>None\<close> when the storage the arguments point to is gone or too short.\<close>

fun decode :: "'w service \<Rightarrow> args \<Rightarrow> repo_op option" where
  "decode s (OpenRepoArgs p) = map_option (\<lambda>n. OpOpen (c_str n)) (char_buffers s p)"
| "decode s (WritePackDataArgs p n) =
     (case byte_buffers s p of
        None \<Rightarrow> None
      | Some bs \<Rightarrow> if unat n \<le> length bs then Some (OpAppend (take (unat n) bs)) else None)"
| "decode s GenericArgs = Some OpCommit"
| "decode s (NewReferenceArgs n v) = Some (OpReference n v)"
| "decode s GetReferenceListArgs = Some OpList"

definition request_of :: "'w service \<Rightarrow> repo_task \<Rightarrow> request option" where
  "request_of s t =
     (case functionArguments t of
        None \<Rightarrow> Some (None, OpClose)
      | Some a \<Rightarrow> map_option (Pair (Some a)) (decode s (arg_objects s ! a)))"

definition with_result :: "'w service \<Rightarrow> 'w RepositoryManager \<times> (nat \<rightharpoonup> answer) \<Rightarrow> 'w service" where
  "with_result s = (\<lambda>(M, ps). s\<lparr>manager := M, promises := ps\<rparr>)"

lemma with_result_simps [simp]:
  "arg_objects (with_result s Mp) = arg_objects s" "manager (with_result s Mp) = fst Mp" "promises (with_result s Mp) = snd Mp"
  "with_result (with_result s Mp') Mp = with_result s Mp" "request_of (with_result s Mp) = request_of s"
proof -
  have "decode (with_result s Mp) d = decode s d" for d by (cases d) (simp_all add: with_result_def split_def)
  then show "request_of (with_result s Mp) = request_of s"
    by (intro ext) (simp add: request_of_def with_result_def split_def cong: option.case_cong)
qed (simp_all add: with_result_def split_def)

lemma answered_with_result:
  "promises s x = None \<Longrightarrow> answered x s r =
     map_sum id (with_result s) (bindr (text_result r) (\<lambda>(v, M). Inr (M, fulfil (Some x) v (promises s))))"
  by (cases r) (auto simp: answered_def set_value_def text_result_def with_result_def)

lemma run_manager_typed:
  assumes "expects f (arg_objects s ! x)" and "x < length (arg_objects s)" and "decode s (arg_objects s ! x) = Some r"
    and "promises s x = None"
  shows "run_manager L B oid \<lparr>callee = f, object_ref = ob, argument = Some x\<rparr> s =
    map_sum id (with_result s) (bindr (perform L B oid r (manager s)) (\<lambda>(v, M). Inr (M, fulfil (Some x) v (promises s))))"
proof (cases "f = fn_GetRepoRefs")
  case True
  then have "arg_objects s ! x = GetReferenceListArgs" using assms(1) by (cases "arg_objects s ! x") simp_all
  with True assms(2-) show ?thesis
    by (auto simp: run_manager_def args_at_def set_value_def with_result_def bindr_def split: option.split sum.split)
next
  case False
  with assms show ?thesis
    by (cases f; cases "arg_objects s ! x")
       (auto simp: run_manager_def args_at_def answered_with_result split: option.splits if_splits)
qed

lemma invoked_task:
  assumes "proxy_task t" and "typed_task (arg_objects s) t" and "request_of s t = Some (a, r)"
    and "\<And>x. a = Some x \<Longrightarrow> promises s x = None"
  shows "bindr (Invoke t) (\<lambda>(c, _). run_manager L B oid c s) =
    map_sum id (with_result s) (bindr (perform L B oid r (manager s)) (\<lambda>(v, M). Inr (M, fulfil a v (promises s))))"
proof -
  from assms(1) consider
      (request) f x t' where "functionArguments t = Some x" "Invoke t = Inr (\<lparr>callee = f, object_ref = Some (), argument = Some x\<rparr>, t')"
    | (close) t' where "functionArguments t = None"
        "Invoke t = Inr (\<lparr>callee = fn_CloseRepo, object_ref = Some (), argument = None\<rparr>, t')"
    by (auto simp: proxy_task_def)
  then show ?thesis
  proof cases
    case request
    with assms(3) have "a = Some x" "decode s (arg_objects s ! x) = Some r" by (auto simp: request_of_def)
    moreover have "x < length (arg_objects s)" "expects f (arg_objects s ! x)"
      using assms(2) request(2) by (simp_all add: typed_task_def well_typed_def)
    ultimately show ?thesis using run_manager_typed assms(4) request(2) by simp
  next
    case close
    with assms(3) have "a = None" "r = OpClose" by (simp_all add: request_of_def)
    with close(2) show ?thesis
      by (cases "CloseRepo L (manager s)") (simp_all add: run_manager_def with_result_def)
  qed
qed

section \<open>A queue\<close>

text \<open>
  What posting and serving keep true of the queue: its tasks come from the proxy and are well typed, no
  two wait for the same promise, and none waits for one that has a value.
\<close>

definition good_queue :: "'w service \<Rightarrow> repo_task list \<Rightarrow> bool" where
  "good_queue s q \<longleftrightarrow>
     (\<forall>t \<in> set q. proxy_task t \<and> typed_task (arg_objects s) t) \<and>
     distinct (List.map_filter functionArguments q) \<and> requests q \<subseteq> {..<length (arg_objects s)} - dom (promises s)"

lemma set_map_filter_requests: "set (List.map_filter functionArguments q) = requests q"
  by (force simp: requests_def map_filter_def)

lemma good_queue_mset: "mset q = mset q' \<Longrightarrow> good_queue s q = good_queue s q'"
proof -
  assume eq: "mset q = mset q'"
  then have "mset (List.map_filter functionArguments q) = mset (List.map_filter functionArguments q')"
    by (simp add: map_filter_def mset_map mset_filter)
  with eq show ?thesis
    unfolding good_queue_def by (metis mset_eq_imp_distinct_iff mset_eq_setD requests_mset)
qed

lemma good_queue_Cons:
  assumes "good_queue s (t # q)" and "request_of s t = Some (a, r)"
  shows "proxy_task t" and "typed_task (arg_objects s) t" and "\<And>x. a = Some x \<Longrightarrow> promises s x = None"
    and "good_queue (with_result s (M, fulfil a v (promises s))) q"
proof -
  have a: "functionArguments t = a" using assms(2) by (auto simp: request_of_def split: option.splits)
  show "proxy_task t" "typed_task (arg_objects s) t" using assms(1) by (simp_all add: good_queue_def)
  show "promises s x = None" if "a = Some x" for x using assms(1) a that by (auto simp: good_queue_def)
  have "requests q \<inter> dom (fulfil a v (promises s)) = {}"
    using assms(1) a set_map_filter_requests [of q]
    by (cases a; cases v) (auto simp: good_queue_def map_filter_simps)
  with assms(1) show "good_queue (with_result s (M, fulfil a v (promises s))) q"
    by (auto simp: good_queue_def map_filter_simps split: option.splits)
qed

lemma run_list_performs:
  assumes "good_queue s ts" and "list_all (\<lambda>t. request_of s t \<noteq> None) ts"
  shows "run_list (run_manager L B oid) ts s =
    map_sum id (with_result s) (perform_all L B oid (map (\<lambda>t. the (request_of s t)) ts) (manager s, promises s))"
  using assms
proof (induction ts arbitrary: s)
  case Nil
  then show ?case by (simp add: with_result_def)
next
  case (Cons t ts)
  from Cons.prems(2) obtain a r where r: "request_of s t = Some (a, r)" by auto
  note t = good_queue_Cons [OF Cons.prems(1) r]
  have open_task: "\<not> IsComplete t" using t(1) by (simp add: proxy_task_def)
  show ?case
  proof (cases "perform L B oid r (manager s)")
    case (Inl e)
    with invoked_task [OF t(1,2) r t(3), of L B oid] have "bindr (Invoke t) (\<lambda>(c, _). run_manager L B oid c s) = Inl e" by simp
    then show ?thesis using open_task r Inl by (auto simp: bindr_def split: sum.splits)
  next
    case (Inr vM)
    obtain v M where vM: "vM = (v, M)" by fastforce
    let ?s = "with_result s (M, fulfil a v (promises s))"
    from invoked_task [OF t(1,2) r t(3), of L B oid] have "bindr (Invoke t) (\<lambda>(c, _). run_manager L B oid c s) = Inr ?s"
      using Inr vM by simp
    then have "run_list (run_manager L B oid) (t # ts) s = run_list (run_manager L B oid) ts ?s"
      using open_task by (auto simp: bindr_def split: sum.splits)
    also have "\<dots> = map_sum id (with_result ?s) (perform_all L B oid (map (\<lambda>t. the (request_of ?s t)) ts) (manager ?s, promises ?s))"
      using Cons.prems(2) by (intro Cons.IH [OF t(4)]) simp
    also have "with_result ?s = with_result s" by (intro ext) simp
    finally show ?thesis using r Inr vM by simp
  qed
qed

section \<open>Every step keeps the queue good\<close>

definition linear_inv :: "nat \<Rightarrow> 'w system \<Rightarrow> bool" where
  "linear_inv p S \<longleftrightarrow> main_ready p S \<and> promises_fresh (svc S) \<and> good_queue (svc S) (taskQueue (fst (pumps S p)))"

lemma linear_inv_post:
  assumes "linear_inv p S" and "proxy_task t" and "typed_task (arg_objects (svc S) @ ds) t"
    and "functionArguments t \<in> {None, Some (length (arg_objects (svc S)))}" and "functionArguments t \<noteq> None \<Longrightarrow> ds \<noteq> []"
  shows "linear_inv p (with_task cap p t (S\<lparr>svc := (svc S)\<lparr>arg_objects := arg_objects (svc S) @ ds\<rparr>\<rparr>))"
proof -
  let ?q = "taskQueue (fst (pumps S p))" and ?s = "(svc S)\<lparr>arg_objects := arg_objects (svc S) @ ds\<rparr>"
  let ?S = "S\<lparr>svc := ?s\<rparr>"
  from assms(1) have q: "good_queue (svc S) ?q" "promises_fresh (svc S)" and ready: "main_ready p ?S"
    by (simp_all add: linear_inv_def)
  then have "is_heap GetTaskPriority ?q" by (simp add: main_ready_def)
  then have "mset (heap_push GetTaskPriority t ?q) = mset (t # ?q)" by (simp add: heap_push_correct)
  moreover have "good_queue ?s (t # ?q)"
  proof -
    have "length (arg_objects (svc S)) \<notin> requests ?q" "promises (svc S) (length (arg_objects (svc S))) = None"
      using q by (auto simp: good_queue_def)
    with q(1) assms(2-) show ?thesis
      unfolding good_queue_def set_map_filter_requests [symmetric]
      by (auto simp: map_filter_simps typed_task_more split: option.splits)
  qed
  ultimately have "good_queue ?s (heap_push GetTaskPriority t ?q)" using good_queue_mset by blast
  moreover have "promises_fresh ?s" using q(2) by (auto simp: promises_fresh_def)
  ultimately show ?thesis using main_ready_with_task [OF ready] by (simp add: linear_inv_def)
qed

lemma requests_keep_linear:
  assumes "linear_inv p S"
  shows "Proxy_OpenRepo cap junk b S = Inr (a, S') \<Longrightarrow> linear_inv p S'"
    and "Proxy_CloseRepo cap junk S = Inr S' \<Longrightarrow> linear_inv p S'"
    and "Proxy_PackAppend cap junk b n S = Inr (a, S') \<Longrightarrow> linear_inv p S'"
    and "Proxy_PackCommit cap junk S = Inr (a, S') \<Longrightarrow> linear_inv p S'"
    and "Proxy_CreateReference cap junk rn rv S = Inr (a, S') \<Longrightarrow> linear_inv p S'"
    and "Proxy_GetReferences cap junk S = Inr (a, S') \<Longrightarrow> linear_inv p S'"
proof -
  have ready: "main_ready p (S\<lparr>svc := s\<rparr>)" "main_ready p S" for s using assms by (simp_all add: linear_inv_def)
  note post = POST_TASK_ready [OF ready(1)] POST_TASK_ready [OF ready(2)]
  show "Proxy_OpenRepo cap junk b S = Inr (a, S') \<Longrightarrow> linear_inv p S'"
    "Proxy_PackAppend cap junk b n S = Inr (a, S') \<Longrightarrow> linear_inv p S'"
    "Proxy_PackCommit cap junk S = Inr (a, S') \<Longrightarrow> linear_inv p S'"
    "Proxy_CreateReference cap junk rn rv S = Inr (a, S') \<Longrightarrow> linear_inv p S'"
    "Proxy_GetReferences cap junk S = Inr (a, S') \<Longrightarrow> linear_inv p S'"
    by (auto simp: proxy_defs post intro!: linear_inv_post [OF assms] typed_tasks proxy_task_posted)
  show "Proxy_CloseRepo cap junk S = Inr S' \<Longrightarrow> linear_inv p S'"
    using linear_inv_post [OF assms proxy_task_posted(3), of "[]"] typed_tasks(3) by (auto simp: proxy_defs post)
qed

lemma run_list_fresh:
  assumes "run_list (run_manager L B oid) ts s = Inr s'" and "promises_fresh s"
  shows "promises_fresh s'"
  using assms
  by (induction ts arbitrary: s) (auto simp: bindr_eq_Inr_iff split: if_splits dest: run_manager_fresh)

lemma turn_keeps_linear:
  assumes "linear_inv p S" and "pump_turn L B oid p S = Inr S'"
  shows "linear_inv p S'"
proof -
  from assms(2) obtain s where s: "run_list (run_manager L B oid) (served (taskQueue (fst (pumps S p)))) (svc S) = Inr s"
    "S' = S\<lparr>pumps := (pumps S)(p := ((fst (pumps S p))\<lparr>taskQueue := []\<rparr>,
       (snd (pumps S p))\<lparr>pipe_bytes := pipe_bytes (snd (pumps S p)) - 1\<rparr>)), svc := s\<rparr>"
    by (auto simp: pump_turn_def loop_turn_def run_tasks_served bindr_eq_Inr_iff)
  moreover have "promises_fresh s" using run_list_fresh [OF s(1)] assms(1) by (simp add: linear_inv_def)
  ultimately show ?thesis
    using assms(1) by (auto simp: linear_inv_def main_ready_def is_heap_def good_queue_def map_filter_simps)
qed

lemma buffers_keep_linear:
  "linear_inv p S \<Longrightarrow> linear_inv p (S\<lparr>svc := (svc S)\<lparr>char_buffers := cb, byte_buffers := bb\<rparr>\<rparr>)"
  by (simp add: linear_inv_def promises_fresh_def good_queue_def)

lemma proxy_step_linear: "proxy_step L B oid cap p S S' \<Longrightarrow> linear_inv p S \<Longrightarrow> linear_inv p S'"
  by (cases rule: proxy_stepE) (auto intro: requests_keep_linear turn_keeps_linear buffers_keep_linear)

interpretation linear: step_invariant "proxy_start p" "proxy_step L B oid cap p" "linear_inv p" for L B oid cap p
  by unfold_locales (simp add: proxy_start_def linear_inv_def good_queue_def map_filter_simps, rule proxy_step_linear)

section \<open>A turn of the loop\<close>

definition after_turn :: "nat \<Rightarrow> 'w system \<Rightarrow> 'w RepositoryManager \<times> (nat \<rightharpoonup> answer) \<Rightarrow> 'w system" where
  "after_turn p S Mp = S\<lparr>pumps := (pumps S)(p := ((fst (pumps S p))\<lparr>taskQueue := []\<rparr>,
     (snd (pumps S p))\<lparr>pipe_bytes := pipe_bytes (snd (pumps S p)) - 1\<rparr>)), svc := with_result (svc S) Mp\<rparr>"

lemma turn_performs:
  assumes inv: "linear_inv p S"
    and "list_all (\<lambda>t. request_of (svc S) t \<noteq> None) (taskQueue (fst (pumps S p)))"
  shows "pump_turn L B oid p S = map_sum id (after_turn p S)
    (perform_all L B oid (map (\<lambda>t. the (request_of (svc S) t)) (served (taskQueue (fst (pumps S p)))))
       (manager (svc S), promises (svc S)))"
proof -
  let ?q = "taskQueue (fst (pumps S p))"
  have heap: "is_heap GetTaskPriority ?q" using inv by (simp add: linear_inv_def main_ready_def)
  note perm = vector_heap.pops_all [OF heap size_mset [symmetric]]
  have "good_queue (svc S) (served ?q)"
    using inv good_queue_mset [OF conjunct1 [OF perm], of "svc S"] by (simp add: linear_inv_def)
  moreover have "list_all (\<lambda>t. request_of (svc S) t \<noteq> None) (served ?q)"
    using assms(2) mset_eq_setD [OF conjunct1 [OF perm]] by (simp add: list_all_iff)
  ultimately have run: "run_list (run_manager L B oid) (served ?q) (svc S) =
      map_sum id (with_result (svc S)) (perform_all L B oid (map (\<lambda>t. the (request_of (svc S) t)) (served ?q)) (manager (svc S), promises (svc S)))"
    by (rule run_list_performs)
  then show ?thesis
    by (cases "perform_all L B oid (map (\<lambda>t. the (request_of (svc S) t)) (served ?q)) (manager (svc S), promises (svc S))")
       (simp_all add: pump_turn_def loop_turn_def run_tasks_served after_turn_def)
qed

section \<open>Properties\<close>

text \<open>
  C3. Concurrent requests are linearizable. Whatever the handlers have posted and the loop has served
  before, a turn of the main loop does what the repository manager would do if the queued requests were
  made one after the other: there is an order of them, by priority, such that the manager's new state, the
  value of every promise, and the fault if there is one, are those of performing the operations in that order on
  the arguments the callers passed. The storage the arguments point to must still be there.
\<close>

theorem turn_linearizes_requests:
  assumes "proxy_reachable L B oid cap p S"
    and "list_all (\<lambda>t. request_of (svc S) t \<noteq> None) (taskQueue (fst (pumps S p)))"
  shows "\<exists>ts. mset ts = mset (taskQueue (fst (pumps S p))) \<and> sorted (map GetTaskPriority ts) \<and>
    map_sum id (\<lambda>S'. (manager (svc S'), promises (svc S'))) (pump_turn L B oid p S) =
      perform_all L B oid (map (\<lambda>t. the (request_of (svc S) t)) ts) (manager (svc S), promises (svc S))"
proof -
  have inv: "linear_inv p S" by (rule linear.holds [OF assms(1)])
  then have "is_heap GetTaskPriority (taskQueue (fst (pumps S p)))" by (simp add: linear_inv_def main_ready_def)
  from vector_heap.pops_all [OF this size_mset [symmetric]] turn_performs [OF inv assms(2), of L B oid] show ?thesis
    by (intro exI [of _ "served (taskQueue (fst (pumps S p)))"])
       (simp add: sum.map_comp comp_def after_turn_def sum.map_ident_strong)
qed

text \<open>Two clients: one opens a repository, the other closes whatever is open.\<close>

definition open_posted :: "mem system" where
  "open_posted = snd (projr (Proxy_OpenRepo 3 1 0 (main_system (mem_with_repo ''r'') ''r'' [])))"

definition both_posted :: "mem system" where
  "both_posted = projr (Proxy_CloseRepo 3 9 open_posted)"

lemma both_posted_queue:
  "proxy_reachable mem_git debug_build [] 3 0 both_posted"
  "taskQueue (fst (pumps both_posted 0)) =
     heap_push GetTaskPriority (NEW_TASK0 9 () fn_CloseRepo) [NEW_TASK1 1 () fn_OpenRepo (Some 0)]"
  "svc both_posted = with_args (OpenRepoArgs 0) (svc (main_system (mem_with_repo ''r'') ''r'' []))"
proof -
  let ?S = "main_system (mem_with_repo ''r'') ''r'' []"
  have 0: "arg_objects (svc ?S) = []" by (simp add: main_system_def)
  note o = Proxy_OpenRepo_ready [OF main_system_ready(1) refl, of 3 1 0 "mem_with_repo ''r''" "''r''" "[]"]
  then have S1: "open_posted = with_task 3 0 (NEW_TASK1 1 () fn_OpenRepo (Some 0)) (?S\<lparr>svc := with_args (OpenRepoArgs 0) (svc ?S)\<rparr>)"
    by (simp add: open_posted_def 0)
  have "main_ready 0 open_posted" unfolding S1 by (intro main_ready_with_task) (simp add: main_system_ready)
  then have c: "Proxy_CloseRepo 3 9 open_posted = Inr (with_task 3 0 (NEW_TASK0 9 () fn_CloseRepo) open_posted)"
    by (simp add: Proxy_CloseRepo_def POST_TASK_ready)
  then have S2: "both_posted = with_task 3 0 (NEW_TASK0 9 () fn_CloseRepo) open_posted" by (simp add: both_posted_def)
  show "taskQueue (fst (pumps both_posted 0)) =
     heap_push GetTaskPriority (NEW_TASK0 9 () fn_CloseRepo) [NEW_TASK1 1 () fn_OpenRepo (Some 0)]"
    "svc both_posted = with_args (OpenRepoArgs 0) (svc ?S)"
    using main_system_ready(2) [of "mem_with_repo ''r''" "''r''" "[]"] by (simp_all add: S1 S2)
  have step: "Proxy_OpenRepo 3 1 0 ?S = Inr (0, open_posted)" by (simp add: o S1 0)
  have "proxy_reachable mem_git debug_build [] 3 0 open_posted"
    by (rule proxy_next [OF main_system_reachable open_request [OF step]])
  moreover have "Proxy_CloseRepo 3 9 open_posted = Inr both_posted" by (simp add: c S2)
  ultimately show "proxy_reachable mem_git debug_build [] 3 0 both_posted"
    by (rule proxy_next [OF _ close_request])
qed

theorem turn_linearizes_requests_witness:
  "\<exists>ts. mset ts = mset (taskQueue (fst (pumps both_posted 0))) \<and> sorted (map GetTaskPriority ts) \<and>
    map_sum id (\<lambda>S'. (manager (svc S'), promises (svc S'))) (pump_turn mem_git debug_build [] 0 both_posted) =
      perform_all mem_git debug_build [] (map (\<lambda>t. the (request_of (svc both_posted) t)) ts) (manager (svc both_posted), promises (svc both_posted))"
proof (rule turn_linearizes_requests [OF both_posted_queue(1)])
  have "is_heap GetTaskPriority [NEW_TASK1 1 () fn_OpenRepo (Some 0) :: repo_task]" by (simp add: is_heap_def)
  from set_heap_push [OF this] show "list_all (\<lambda>t. request_of (svc both_posted) t \<noteq> None) (taskQueue (fst (pumps both_posted 0)))"
    unfolding both_posted_queue(2,3) list_all_iff
    by (simp add: request_of_def with_args_def main_system_def create_defs bind_defs)
qed

end
