(* ===== verification/Histories.thy ===== *)
theory Histories
  imports Linearization "HOL-Library.Sublist"
begin

text \<open>
  From one turn of the loop to whole runs. A history records, beside the system, the operations the handlers have
  asked for, with the values their arguments had then, and those the manager has performed, in its order.
  Any number of handlers ask, the loop serves in between, and callers reuse their buffers, but not while a
  queued request points to them. The invariant relates the three.
\<close>

section \<open>Requests as the handlers make them\<close>

datatype client_request =
    AskOpen nat
  | AskAppend nat size_t
  | AskCommit
  | AskReference string string
  | AskList
  | AskClose

fun make_request :: "nat \<Rightarrow> int \<Rightarrow> client_request \<Rightarrow> 'w system \<Rightarrow> (nat option \<times> 'w system) result" where
  "make_request cap junk (AskOpen b) S = bindr (Proxy_OpenRepo cap junk b S) (\<lambda>(a, S). Inr (Some a, S))"
| "make_request cap junk (AskAppend b n) S = bindr (Proxy_PackAppend cap junk b n S) (\<lambda>(a, S). Inr (Some a, S))"
| "make_request cap junk AskCommit S = bindr (Proxy_PackCommit cap junk S) (\<lambda>(a, S). Inr (Some a, S))"
| "make_request cap junk (AskReference n v) S = bindr (Proxy_CreateReference cap junk n v S) (\<lambda>(a, S). Inr (Some a, S))"
| "make_request cap junk AskList S = bindr (Proxy_GetReferences cap junk S) (\<lambda>(a, S). Inr (Some a, S))"
| "make_request cap junk AskClose S = bindr (Proxy_CloseRepo cap junk S) (\<lambda>S. Inr (None, S))"

text \<open>What a request means at the moment it is made; \<open>None\<close> when its storage does not hold what it says.\<close>

fun args_of :: "client_request \<Rightarrow> args option" where
  "args_of (AskOpen b) = Some (OpenRepoArgs b)"
| "args_of (AskAppend b n) = Some (WritePackDataArgs b n)"
| "args_of AskCommit = Some GenericArgs"
| "args_of (AskReference n v) = Some (NewReferenceArgs n v)"
| "args_of AskList = Some GetReferenceListArgs"
| "args_of AskClose = None"

definition meaning :: "'w service \<Rightarrow> client_request \<Rightarrow> repo_op option" where
  "meaning s r = (case args_of r of None \<Rightarrow> Some OpClose | Some d \<Rightarrow> decode s d)"

section \<open>Histories\<close>

record 'w history =
  now :: "'w system"
  issued :: "request list"
  performed :: "request list"

definition queue :: "nat \<Rightarrow> 'w system \<Rightarrow> repo_task list" where
  "queue p S = taskQueue (fst (pumps S p))"

definition request_at :: "'w system \<Rightarrow> repo_task \<Rightarrow> request" where
  "request_at S t = the (request_of (svc S) t)"

definition outcome_of :: "'w system \<Rightarrow> 'w RepositoryManager \<times> (nat \<rightharpoonup> answer)" where
  "outcome_of S = (manager (svc S), promises (svc S))"

inductive history_step ::
    "'w libgit2 \<Rightarrow> build_cfg \<Rightarrow> git_oid \<Rightarrow> nat \<Rightarrow> nat \<Rightarrow> 'w history \<Rightarrow> 'w history \<Rightarrow> bool"
  for L :: "'w libgit2" and B :: build_cfg and oid :: git_oid and cap :: nat and p :: nat where
  ask_step: "make_request cap junk r (now H) = Inr (a, S) \<Longrightarrow> meaning (svc (now H)) r = Some x \<Longrightarrow>
     history_step L B oid cap p H (H\<lparr>now := S, issued := issued H @ [(a, x)]\<rparr>)"
| turn_step: "pump_turn L B oid p (now H) = Inr S \<Longrightarrow>
     history_step L B oid cap p H
       (H\<lparr>now := S, performed := performed H @ map (request_at (now H)) (served (queue p (now H)))\<rparr>)"
| reuse_step: "s = (svc (now H))\<lparr>char_buffers := cb, byte_buffers := bb\<rparr> \<Longrightarrow>
     list_all (\<lambda>t. request_of s t = request_of (svc (now H)) t) (queue p (now H)) \<Longrightarrow>
     history_step L B oid cap p H (H\<lparr>now := (now H)\<lparr>svc := s\<rparr>\<rparr>)"

inductive_cases history_stepE [consumes 1, case_names ask_step turn_step reuse_step]: "history_step L B oid cap p H H'"

definition history_start :: "nat \<Rightarrow> 'w RepositoryManager \<times> (nat \<rightharpoonup> answer) \<Rightarrow> 'w history \<Rightarrow> bool" where
  "history_start p Mp H \<longleftrightarrow> proxy_start p (now H) \<and> outcome_of (now H) = Mp \<and> issued H = [] \<and> performed H = []"

section \<open>The invariant\<close>

text \<open>
  The performed operations lead to the present state; they and the queued ones are those that were asked for; a
  queued one still means what it meant; no promise is asked for twice.
\<close>

definition good_tickets :: "nat \<Rightarrow> request list \<Rightarrow> bool" where
  "good_tickets n = list_all (\<lambda>(a, x). case a of None \<Rightarrow> x = OpClose | Some a \<Rightarrow> a < n \<and> x \<noteq> OpClose)"

definition history_inv ::
    "'w libgit2 \<Rightarrow> build_cfg \<Rightarrow> git_oid \<Rightarrow> nat \<Rightarrow> 'w RepositoryManager \<times> (nat \<rightharpoonup> answer) \<Rightarrow> 'w history \<Rightarrow> bool" where
  "history_inv L B oid p Mp H \<longleftrightarrow>
     linear_inv p (now H) \<and>
     list_all (\<lambda>t. request_of (svc (now H)) t \<noteq> None) (queue p (now H)) \<and>
     perform_all L B oid (performed H) Mp = Inr (outcome_of (now H)) \<and>
     mset (performed H) + mset (map (request_at (now H)) (queue p (now H))) = mset (issued H) \<and>
     good_tickets (length (arg_objects (svc (now H)))) (issued H) \<and>
     distinct (List.map_filter fst (issued H))"

lemma good_tickets_snoc: "good_tickets n rs \<Longrightarrow> n \<le> m \<Longrightarrow> good_tickets m (rs @ [(a, x)]) = good_tickets m [(a, x)]"
  by (force simp: good_tickets_def list_all_iff split: option.splits)

lemma good_tickets_fresh: "good_tickets n rs \<Longrightarrow> (Some n, x) \<notin> set rs"
  by (force simp: good_tickets_def list_all_iff)

lemma perform_all_append:
  "perform_all L B oid (rs @ rs') Mp = bindr (perform_all L B oid rs Mp) (perform_all L B oid rs')"
  by (induction rs arbitrary: Mp) (auto simp: bindr_assoc split_def intro!: arg_cong [where f = "bindr _"])

lemma meaning_close: "meaning s r = Some x \<Longrightarrow> x = OpClose \<longleftrightarrow> args_of r = None"
  by (cases r) (auto simp: meaning_def split: option.splits if_splits)

text \<open>What making a request does to the system.\<close>

fun task_for :: "int \<Rightarrow> nat \<Rightarrow> client_request \<Rightarrow> repo_task" where
  "task_for junk a (AskOpen b) = NEW_TASK1 junk () fn_OpenRepo (Some a)"
| "task_for junk a (AskAppend b n) = RANKED_TASK1 junk () fn_AppendDataToPack HIGH (Some a)"
| "task_for junk a AskCommit = RANKED_TASK1 junk () fn_CommitPackChanges HIGH (Some a)"
| "task_for junk a (AskReference n v) = NEW_TASK1 junk () fn_NewReference (Some a)"
| "task_for junk a AskList = NEW_TASK1 junk () fn_GetRepoRefs (Some a)"
| "task_for junk a AskClose = NEW_TASK0 junk () fn_CloseRepo"

definition new_objects :: "client_request \<Rightarrow> args list" where
  "new_objects r = (case args_of r of None \<Rightarrow> [] | Some d \<Rightarrow> [d])"

definition more_objects :: "args list \<Rightarrow> 'w system \<Rightarrow> 'w system" where
  "more_objects ds S = S\<lparr>svc := (svc S)\<lparr>arg_objects := arg_objects (svc S) @ ds\<rparr>\<rparr>"

lemma task_for_args: "functionArguments (task_for junk a r) = (if args_of r = None then None else Some a)"
  by (cases r) simp_all

lemma make_request_ready:
  assumes "main_ready p S" and "t = task_for junk (length (arg_objects (svc S))) r"
  shows "make_request cap junk r S = Inr (functionArguments t, with_task cap p t (more_objects (new_objects r) S))"
proof -
  have ready: "main_ready p (S\<lparr>svc := s\<rparr>)" for s using assms(1) by simp
  note post = POST_TASK_ready [OF assms(1)] POST_TASK_ready [OF ready]
  show ?thesis
    unfolding assms(2)
    by (cases r) (simp_all add: proxy_defs post more_objects_def new_objects_def)
qed

lemma task_for_typed:
  "proxy_task (task_for junk a r)"
  "typed_task (objs @ new_objects r) (task_for junk (length objs) r)"
  by (cases r; simp add: proxy_task_posted typed_tasks new_objects_def)+

lemma request_of_posted:
  "meaning s r = Some x \<Longrightarrow>
   request_of (s\<lparr>arg_objects := arg_objects s @ new_objects r\<rparr>) (task_for junk (length (arg_objects s)) r) =
     Some (functionArguments (task_for junk (length (arg_objects s)) r), x)"
  by (cases r) (simp_all add: request_of_def meaning_def new_objects_def split: option.splits)

lemma request_of_more:
  assumes "typed_task (arg_objects s) t" and "proxy_task t"
  shows "request_of (s\<lparr>arg_objects := arg_objects s @ ds\<rparr>) t = request_of s t"
proof (cases "functionArguments t")
  case (Some a)
  with assms have "a < length (arg_objects s)" by (auto simp: proxy_task_def typed_task_def well_typed_def)
  moreover have "decode (s\<lparr>arg_objects := arg_objects s @ ds\<rparr>) d = decode s d" for d by (cases d) simp_all
  ultimately show ?thesis using Some by (simp add: request_of_def nth_append)
qed (simp add: request_of_def)

section \<open>Every step keeps the invariant\<close>

lemma queue_good: "linear_inv p S \<Longrightarrow> t \<in> set (queue p S) \<Longrightarrow> proxy_task t \<and> typed_task (arg_objects (svc S)) t"
  by (simp add: linear_inv_def good_queue_def queue_def)

lemma queue_posted: "linear_inv p S \<Longrightarrow> mset (queue p (with_task cap p t (more_objects ds S))) = add_mset t (mset (queue p S))"
  by (simp add: queue_def linear_inv_def main_ready_def more_objects_def heap_push_correct)

lemma mset_served:
  assumes "linear_inv p S"
  shows "mset (served (queue p S)) = mset (queue p S)"
proof -
  have "is_heap GetTaskPriority (queue p S)" using assms by (simp add: linear_inv_def main_ready_def queue_def)
  from vector_heap.pops_all [OF this size_mset [symmetric]] show ?thesis by simp
qed

lemma ask_keeps_history:
  assumes inv: "history_inv L B oid p Mp H" and ask: "make_request cap junk r (now H) = Inr (a, S)" and x: "meaning (svc (now H)) r = Some x"
  shows "history_inv L B oid p Mp (H\<lparr>now := S, issued := issued H @ [(a, x)]\<rparr>)"
proof -
  let ?n = "length (arg_objects (svc (now H)))" and ?q = "queue p (now H)"
  let ?t = "task_for junk ?n r"
  have lin: "linear_inv p (now H)" using inv by (simp add: history_inv_def)
  then have ready: "main_ready p (now H)" by (simp add: linear_inv_def)
  from make_request_ready [OF ready refl] ask have a: "a = functionArguments ?t"
    and S: "S = with_task cap p ?t (more_objects (new_objects r) (now H))" by simp_all
  have linS: "linear_inv p S"
    unfolding S more_objects_def
    by (rule linear_inv_post [OF lin task_for_typed]) (auto simp: task_for_args new_objects_def split: option.splits if_splits)
  have old: "request_of (svc S) t = request_of (svc (now H)) t" if "t \<in> set ?q" for t
    using request_of_more [OF conjunct2 conjunct1, OF queue_good [OF lin that] queue_good [OF lin that]] by (simp add: S more_objects_def)
  have new: "request_of (svc S) ?t = Some (a, x)"
    using request_of_posted [OF x] by (simp add: S a more_objects_def)
  have q: "mset (queue p S) = add_mset ?t (mset ?q)" using queue_posted [OF lin] by (simp add: S)
  then have "set (queue p S) = insert ?t (set ?q)" by (metis set_mset_add_mset_insert set_mset_mset)
  then have known: "list_all (\<lambda>t. request_of (svc S) t \<noteq> None) (queue p S)"
    using inv old new by (simp add: history_inv_def list_all_iff)
  have "image_mset (request_at S) (mset ?q) = image_mset (request_at (now H)) (mset ?q)"
    using old by (intro image_mset_cong) (simp add: request_at_def)
  then have asked: "mset (map (request_at S) (queue p S)) = add_mset (a, x) (mset (map (request_at (now H)) ?q))"
    unfolding mset_map q by (simp add: request_at_def new)
  have svcS: "outcome_of S = outcome_of (now H)" "length (arg_objects (svc S)) = ?n + length (new_objects r)"
    by (simp_all add: S outcome_of_def more_objects_def)
  have "good_tickets (?n + length (new_objects r)) [(a, x)]"
    using meaning_close [OF x] by (auto simp: a task_for_args good_tickets_def new_objects_def)
  then have tickets: "good_tickets (length (arg_objects (svc S))) (issued H @ [(a, x)])"
    unfolding svcS(2) using inv by (intro iffD2 [OF good_tickets_snoc [OF _ le_add1]]) (simp_all add: history_inv_def)
  have "(Some ?n, y) \<notin> set (issued H)" for y using inv by (simp add: history_inv_def good_tickets_fresh)
  then have "distinct (List.map_filter fst (issued H @ [(a, x)]))"
    using inv by (auto simp: history_inv_def map_filter_def a task_for_args)
  with linS known asked svcS(1) tickets inv show ?thesis by (simp add: history_inv_def)
qed

lemma turn_keeps_history:
  assumes inv: "history_inv L B oid p Mp H" and turn: "pump_turn L B oid p (now H) = Inr S"
  shows "history_inv L B oid p Mp (H\<lparr>now := S, performed := performed H @ map (request_at (now H)) (served (queue p (now H)))\<rparr>)"
proof -
  let ?q = "queue p (now H)"
  have lin: "linear_inv p (now H)" and some: "list_all (\<lambda>t. request_of (svc (now H)) t \<noteq> None) ?q"
    using inv by (simp_all add: history_inv_def)
  have perm: "mset (served ?q) = mset ?q" by (rule mset_served [OF lin])
  from turn_performs [OF lin some [unfolded queue_def], of L B oid] turn obtain Mp' where
    Mp': "perform_all L B oid (map (request_at (now H)) (served ?q)) (outcome_of (now H)) = Inr Mp'" "S = after_turn p (now H) Mp'"
    unfolding request_at_def [abs_def] queue_def outcome_of_def by (auto simp: map_sum_def split: sum.splits)
  have "linear_inv p S" by (rule turn_keeps_linear [OF lin turn])
  moreover have "queue p S = []" "outcome_of S = Mp'" "arg_objects (svc S) = arg_objects (svc (now H))"
    by (simp_all add: Mp'(2) after_turn_def queue_def outcome_of_def)
  ultimately show ?thesis
    using inv Mp'(1) perm by (simp add: history_inv_def perform_all_append)
qed

lemma reuse_keeps_history:
  assumes inv: "history_inv L B oid p Mp H"
    and same: "list_all (\<lambda>t. request_of s t = request_of (svc (now H)) t) (queue p (now H))"
    and s: "s = (svc (now H))\<lparr>char_buffers := cb, byte_buffers := bb\<rparr>"
  shows "history_inv L B oid p Mp (H\<lparr>now := (now H)\<lparr>svc := s\<rparr>\<rparr>)"
proof -
  have "linear_inv p ((now H)\<lparr>svc := s\<rparr>)" using inv unfolding s history_inv_def by (blast intro: buffers_keep_linear)
  moreover have "image_mset (request_at ((now H)\<lparr>svc := s\<rparr>)) (mset (queue p (now H))) =
      image_mset (request_at (now H)) (mset (queue p (now H)))"
    using same by (intro image_mset_cong) (simp add: request_at_def list_all_iff)
  moreover have "queue p ((now H)\<lparr>svc := s\<rparr>) = queue p (now H)" by (simp add: queue_def)
  ultimately show ?thesis
    using inv same by (simp add: history_inv_def list_all_iff outcome_of_def) (simp add: s)
qed

lemma history_step_inv: "history_step L B oid cap p H H' \<Longrightarrow> history_inv L B oid p Mp H \<Longrightarrow> history_inv L B oid p Mp H'"
  by (cases rule: history_stepE) (auto intro: ask_keeps_history turn_keeps_history reuse_keeps_history)

lemma history_start_inv: "history_start p Mp H \<Longrightarrow> history_inv L B oid p Mp H"
  by (auto simp: history_start_def history_inv_def queue_def outcome_of_def proxy_start_def linear_inv_def good_queue_def map_filter_simps good_tickets_def)

interpretation histories: step_invariant "history_start p Mp" "history_step L B oid cap p" "history_inv L B oid p Mp" for p Mp L B oid cap
  by unfold_locales (rule history_start_inv, assumption, rule history_step_inv)

section \<open>What the callers learn\<close>

lemma perform_text:
  assumes "perform L B oid x M = Inr (v, M')" and "x \<noteq> OpClose"
  shows "v \<noteq> None"
  using assms by (cases x) (auto simp: text_result_def bindr_eq_Inr_iff split: option.splits)

lemma fulfil_other: "Some b \<noteq> a \<Longrightarrow> fulfil a v ps b = ps b"
  by (cases a; cases v) auto

lemma perform_all_keeps_answers:
  assumes "perform_all L B oid rs (M, ps) = Inr (M', ps')" and "Some b \<notin> fst ` set rs"
  shows "ps' b = ps b"
  using assms by (induction rs arbitrary: M ps) (auto simp: bindr_eq_Inr_iff fulfil_other)

lemma tickets_distinct:
  assumes "distinct (List.map_filter fst (rs @ (Some a, x) # rs'))"
  shows "Some a \<notin> fst ` set rs'"
  using assms by (force simp: map_filter_def image_iff)

lemma history_tickets:
  assumes "history_inv L B oid p Mp H"
  shows "distinct (List.map_filter fst (performed H))" and "set (performed H) \<subseteq> set (issued H)"
proof -
  let ?qs = "map (request_at (now H)) (queue p (now H))"
  have m: "mset (performed H @ ?qs) = mset (issued H)" using assms by (simp add: history_inv_def)
  then have "mset (List.map_filter fst (performed H @ ?qs)) = mset (List.map_filter fst (issued H))"
    unfolding map_filter_def mset_map mset_filter by simp
  then have "distinct (List.map_filter fst (performed H @ ?qs))"
    using assms unfolding history_inv_def by (metis mset_eq_imp_distinct_iff)
  then show "distinct (List.map_filter fst (performed H))" by (simp add: map_filter_def)
  from mset_eq_setD [OF m] show "set (performed H) \<subseteq> set (issued H)" by auto
qed

lemma performed_answer:
  assumes inv: "history_inv L B oid p Mp H" and req: "performed H = xs @ (Some a, x) # ys"
  shows "\<exists>M ps v M'. perform_all L B oid xs Mp = Inr (M, ps) \<and> perform L B oid x M = Inr (Some v, M') \<and>
    promises (svc (now H)) a = Some v"
proof -
  note tickets = history_tickets [OF inv, unfolded req]
  have "perform_all L B oid (xs @ (Some a, x) # ys) Mp = Inr (outcome_of (now H))"
    using inv req by (simp add: history_inv_def)
  then obtain M ps v M' where 1: "perform_all L B oid xs Mp = Inr (M, ps)" "perform L B oid x M = Inr (v, M')"
    "perform_all L B oid ys (M', fulfil (Some a) v ps) = Inr (outcome_of (now H))"
    by (auto simp: perform_all_append bindr_eq_Inr_iff)
  have "x \<noteq> OpClose" using inv tickets(2) by (auto simp: history_inv_def good_tickets_def list_all_iff)
  from perform_text [OF 1(2) this] obtain u where u: "v = Some u" by blast
  have "promises (svc (now H)) a = Some u"
    using perform_all_keeps_answers [OF 1(3) [unfolded outcome_of_def] tickets_distinct [OF tickets(1)]] u by simp
  with 1 u show ?thesis by blast
qed

lemma prefix_before: "prefix p (xs @ z # ys) \<Longrightarrow> z \<notin> set p \<Longrightarrow> prefix p xs"
  by (auto simp: prefix_append prefix_Cons)

lemma ticket_unique:
  assumes "history_inv L B oid p Mp H" and "(Some a, x) \<in> set (issued H)" and "(Some a, y) \<in> set (issued H)"
  shows "x = y"
proof -
  have "inj_on (the \<circ> fst) (set (filter (\<lambda>r. fst r \<noteq> None) (issued H)))"
    using assms(1) by (simp add: history_inv_def map_filter_def distinct_map)
  from inj_onD [OF this, of "(Some a, x)" "(Some a, y)"] assms(2,3) show ?thesis by simp
qed

lemma performed_keeps_answers:
  assumes "history_inv L B oid p Mp H" and "Some a \<notin> fst ` set (performed H)"
  shows "promises (svc (now H)) a = snd Mp a"
  using assms perform_all_keeps_answers [of L B oid "performed H" "fst Mp" "snd Mp"]
  by (simp add: history_inv_def outcome_of_def)

lemma asked_ticket_fresh:
  assumes inv: "history_inv L B oid p Mp H" and "make_request cap junk r (now H) = Inr (Some a, S)"
  shows "Some a \<notin> fst ` set (performed H)" and "snd Mp a = None"
proof -
  have ready: "main_ready p (now H)" and fresh: "promises_fresh (svc (now H))"
    using inv by (simp_all add: history_inv_def linear_inv_def)
  from make_request_ready [OF ready refl] assms(2) have a: "a = length (arg_objects (svc (now H)))"
    by (auto simp: task_for_args split: if_splits)
  have "(Some a, x) \<notin> set (issued H)" for x using inv by (simp add: a history_inv_def good_tickets_fresh)
  then show 1: "Some a \<notin> fst ` set (performed H)" using history_tickets(2) [OF inv] by force
  show "snd Mp a = None" using performed_keeps_answers [OF inv 1] fresh by (simp add: a)
qed

section \<open>Properties\<close>

abbreviation history_of ::
    "'w libgit2 \<Rightarrow> build_cfg \<Rightarrow> git_oid \<Rightarrow> nat \<Rightarrow> nat \<Rightarrow> 'w RepositoryManager \<times> (nat \<rightharpoonup> answer) \<Rightarrow> 'w history \<Rightarrow> bool" where
  "history_of L B oid cap p Mp \<equiv> reachable (history_start p Mp) (history_step L B oid cap p)"

lemmas history_next = reachable_step [of "history_start p Mp" "history_step L B oid cap p" for L B oid cap p Mp]

lemma history_performed: "history_step L B oid cap p H H' \<Longrightarrow> prefix (performed H) (performed H')"
  by (cases rule: history_stepE) auto

lemma history_steps_performed: "(history_step L B oid cap p)\<^sup>*\<^sup>* H H' \<Longrightarrow> prefix (performed H) (performed H')"
  by (induction rule: rtranclp_induct) (auto dest: history_performed intro: prefix_order.trans)

lemma history_issued: "history_step L B oid cap p H H' \<Longrightarrow> prefix (issued H) (issued H')"
  by (cases rule: history_stepE) auto

lemma history_steps_issued: "(history_step L B oid cap p)\<^sup>*\<^sup>* H H' \<Longrightarrow> prefix (issued H) (issued H')"
  by (induction rule: rtranclp_induct) (auto dest: history_issued intro: prefix_order.trans)

text \<open>An example: two clients append to the pack of the open repository, then the loop turns.\<close>

definition ask_now :: "nat \<Rightarrow> int \<Rightarrow> client_request \<Rightarrow> 'w history \<Rightarrow> 'w history" where
  "ask_now cap junk r H =
     (let (a, S) = projr (make_request cap junk r (now H)) in
      H\<lparr>now := S, issued := issued H @ [(a, the (meaning (svc (now H)) r))]\<rparr>)"

definition turn_now :: "'w libgit2 \<Rightarrow> build_cfg \<Rightarrow> git_oid \<Rightarrow> nat \<Rightarrow> 'w history \<Rightarrow> 'w history" where
  "turn_now L B oid p H =
     H\<lparr>now := projr (pump_turn L B oid p (now H)),
       performed := performed H @ map (request_at (now H)) (served (queue p (now H)))\<rparr>"

lemma ask_now_step:
  assumes "history_of L B oid cap p Mp H" and "meaning (svc (now H)) r = Some x"
  shows "history_of L B oid cap p Mp (ask_now cap junk r H)"
proof -
  have "main_ready p (now H)" using histories.holds [OF assms(1)] by (simp add: history_inv_def linear_inv_def)
  from make_request_ready [OF this refl] obtain a S where 1: "make_request cap junk r (now H) = Inr (a, S)" by blast
  show ?thesis
    using history_next [OF assms(1) ask_step [OF 1 assms(2)]] 1 assms(2) by (simp add: ask_now_def)
qed

definition opened_history :: "mem history" where
  "opened_history =
     (let S = main_system (mem_with_repo ''r'') [] [] in
      \<lparr>now = S\<lparr>svc := (svc S)\<lparr>manager := demo_open, byte_buffers := [0 \<mapsto> [1, 2], 1 \<mapsto> [7]]\<rparr>\<rparr>, issued = [], performed = []\<rparr>)"

definition first_asked :: "mem history" where
  "first_asked = ask_now 3 9 (AskAppend 0 2) opened_history"

definition both_asked :: "mem history" where
  "both_asked = ask_now 3 9 (AskAppend 1 1) first_asked"

definition both_served :: "mem history" where
  "both_served = turn_now mem_git debug_build [] 0 both_asked"

lemma opened_history_of: "history_of L B oid cap 0 (outcome_of (now opened_history)) opened_history"
  using main_system_ready [of "mem_with_repo ''r''" "''r''" "[]"] main_system_reachable
  by (intro reachable_start) (simp add: history_start_def proxy_start_def opened_history_def main_ready_def promises_fresh_def main_system_def)

lemma first_asked_of: "history_of mem_git debug_build [] 3 0 (outcome_of (now opened_history)) first_asked"
proof -
  have "meaning (svc (now opened_history)) (AskAppend 0 2) = Some (OpAppend [1, 2])" by code_simp
  then show ?thesis unfolding first_asked_def by (intro ask_now_step opened_history_of)
qed

lemma second_meaning: "meaning (svc (now first_asked)) (AskAppend 1 1) = Some (OpAppend [7])"
  by code_simp

lemma both_asked_of: "history_of mem_git debug_build [] 3 0 (outcome_of (now opened_history)) both_asked"
  unfolding both_asked_def by (rule ask_now_step [OF first_asked_of second_meaning])

lemma both_served_step: "history_step mem_git debug_build [] 3 0 both_asked both_served"
proof -
  have "\<not> isl (pump_turn mem_git debug_build [] 0 (now both_asked))" by code_simp
  then obtain S where "pump_turn mem_git debug_build [] 0 (now both_asked) = Inr S"
    by (cases "pump_turn mem_git debug_build [] 0 (now both_asked)") auto
  then show ?thesis using turn_step by (simp add: both_served_def turn_now_def)
qed

lemma both_served_eval: "performed both_served = [(Some 0, OpAppend [1, 2]), (Some 1, OpAppend [7])]"
  by code_simp

text \<open>
  C4. The server as its clients see it is linearizable. However the requests of the handlers and the turns of the loop
  are interleaved, the manager's state and all answers are those of performing the requested operations one
  after the other, on the values their arguments had when they were asked for; every request is performed once or still
  queued; and the order never changes afterwards, so that a request made when another had been performed comes after it.
\<close>

theorem histories_are_linearizable:
  assumes "history_of L B oid cap p Mp H" and "(history_step L B oid cap p)\<^sup>*\<^sup>* H H'"
  shows "perform_all L B oid (performed H') Mp = Inr (outcome_of (now H')) \<and>
    mset (performed H') + mset (map (request_at (now H')) (queue p (now H'))) = mset (issued H') \<and>
    prefix (performed H) (performed H')"
  using histories.holds [OF reachable_steps [OF assms(2,1)]] history_steps_performed [OF assms(2)]
  by (simp add: history_inv_def)

theorem histories_are_linearizable_witness:
  "perform_all mem_git debug_build [] (performed both_served) (outcome_of (now opened_history)) = Inr (outcome_of (now both_served)) \<and>
    mset (performed both_served) + mset (map (request_at (now both_served)) (queue 0 (now both_served))) = mset (issued both_served) \<and>
    prefix (performed both_asked) (performed both_served)"
  by (rule histories_are_linearizable [OF both_asked_of]) (rule r_into_rtranclp, rule both_served_step)

text \<open>
  C5. A call is atomic. A handler asks for an operation and waits for its promise, while other handlers ask, buffers are
  reused and the loop turns. When the promise has a value, the operation was performed exactly at one place of
  the order, after everything that had been performed when the handler asked, and the value is what the operation answers
  there on the arguments the handler passed.
\<close>

theorem awaited_calls_are_atomic:
  assumes "history_of L B oid cap p Mp H"
    and "make_request cap junk r (now H) = Inr (Some a, S)" and "meaning (svc (now H)) r = Some x"
    and "(history_step L B oid cap p)\<^sup>*\<^sup>* (H\<lparr>now := S, issued := issued H @ [(Some a, x)]\<rparr>) H'"
    and "promises (svc (now H')) a = Some v"
  shows "\<exists>xs ys M ps M'. performed H' = xs @ (Some a, x) # ys \<and> prefix (performed H) xs \<and>
    Some a \<notin> fst ` set (xs @ ys) \<and> perform_all L B oid xs Mp = Inr (M, ps) \<and> perform L B oid x M = Inr (Some v, M')"
proof -
  let ?H = "H\<lparr>now := S, issued := issued H @ [(Some a, x)]\<rparr>"
  have inv: "history_inv L B oid p Mp H" by (rule histories.holds [OF assms(1)])
  have inv1: "history_inv L B oid p Mp ?H" by (rule ask_keeps_history [OF inv assms(2,3)])
  have inv': "history_inv L B oid p Mp H'" by (rule histories.kept_by_steps [OF assms(4) inv1])
  note unasked = asked_ticket_fresh [OF inv assms(2)]
  have order: "prefix (performed H) (performed H')" using history_steps_performed [OF assms(4)] by simp
  have "Some a \<in> fst ` set (performed H')"
    using performed_keeps_answers [OF inv', of a] unasked(2) assms(5) by fastforce
  then obtain y where y: "(Some a, y) \<in> set (performed H')" by force
  have "(Some a, x) \<in> set (issued H')" using set_mono_prefix [OF history_steps_issued [OF assms(4)]] by simp
  with y history_tickets(2) [OF inv'] have "x = y" by (intro ticket_unique [OF inv']) auto
  with y obtain xs ys where split: "performed H' = xs @ (Some a, x) # ys" by (auto dest: split_list)
  have "(Some a, x) \<notin> set (performed H)" using unasked(1) by force
  with order have "prefix (performed H) xs" unfolding split by (rule prefix_before)
  moreover have "Some a \<notin> fst ` set (xs @ ys)"
    using history_tickets(1) [OF inv'] unfolding split by (force simp: map_filter_def)
  ultimately show ?thesis using performed_answer [OF inv' split] assms(5) split by fastforce
qed

theorem awaited_calls_are_atomic_witness:
  "\<exists>xs ys M ps M'. performed both_served = xs @ (Some 1, OpAppend [7]) # ys \<and> prefix (performed first_asked) xs \<and>
    Some 1 \<notin> fst ` set (xs @ ys) \<and> perform_all mem_git debug_build [] xs (outcome_of (now opened_history)) = Inr (M, ps) \<and>
    perform mem_git debug_build [] (OpAppend [7]) M = Inr (Some (Text ''success''), M')"
proof (rule awaited_calls_are_atomic [OF first_asked_of _ second_meaning])
  let ?r = "make_request 3 9 (AskAppend 1 1) (now first_asked)"
  have ok: "\<not> isl ?r \<and> fst (projr ?r) = Some 1" by code_simp
  then show 1: "?r = Inr (Some 1, snd (projr ?r))" by (cases ?r) (auto simp: prod_eq_iff)
  have "both_asked = first_asked\<lparr>now := snd (projr ?r), issued := issued first_asked @ [(Some 1, OpAppend [7])]\<rparr>"
    using ok by (simp add: both_asked_def ask_now_def second_meaning [simplified] split_def)
  with both_served_step show "(history_step mem_git debug_build [] 3 0)\<^sup>*\<^sup>*
      (first_asked\<lparr>now := snd (projr ?r), issued := issued first_asked @ [(Some 1, OpAppend [7])]\<rparr>) both_served"
    by (metis r_into_rtranclp)
  show "promises (svc (now both_served)) 1 = Some (Text ''success'')" by code_simp
qed

end
