(* ===== verification/Shared_Pack.thy ===== *)
theory Shared_Pack
  imports Histories
begin

text \<open>
  All clients share the manager's current repository, and with it one pack writer. What the library is asked to do in
  a history is determined by the order in which the manager performed the requests: the calls of all clients,
  one after the other, on the same writer. Nothing is assumed here of what libgit2 does with them.
\<close>

section \<open>What a request does to the library\<close>

text \<open>
  The effect on the library of a request that is performed while \<open>r\<close> with pack writer \<open>k\<close> is the current repository: one
  call of the writer for a piece and for a commit, \<open>GitRepo\<close>'s function for the others. \<open>writer_call\<close> is the call of
  the writer with its error code, \<open>writer_text\<close> what the caller is told of it.
\<close>

definition library_step :: "'w libgit2 \<Rightarrow> git_oid \<Rightarrow> GitRepo \<Rightarrow> nat \<Rightarrow> repo_op \<Rightarrow> 'w \<Rightarrow> 'w" where
  "library_step L oid r k x w =
     (case x of
        OpAppend bs \<Rightarrow> snd (writepack_append L k bs w)
      | OpCommit \<Rightarrow> snd (writepack_commit L k w)
      | OpReference n v \<Rightarrow> (case CreateReference L oid r (c_str v) (c_str n) w of Inl _ \<Rightarrow> w | Inr (_, w') \<Rightarrow> w')
      | OpList \<Rightarrow> (case GetRepoReferences L r w of Some (Inr (_, w')) \<Rightarrow> w' | _ \<Rightarrow> w)
      | _ \<Rightarrow> w)"

definition library_after :: "'w libgit2 \<Rightarrow> git_oid \<Rightarrow> GitRepo \<Rightarrow> nat \<Rightarrow> request list \<Rightarrow> 'w \<Rightarrow> 'w" where
  "library_after L oid r k rs w = fold (\<lambda>(_, x). library_step L oid r k x) rs w"

fun writer_call :: "'w libgit2 \<Rightarrow> nat \<Rightarrow> repo_op \<Rightarrow> 'w \<Rightarrow> (int \<times> 'w) option" where
  "writer_call L k (OpAppend bs) w = Some (writepack_append L k bs w)"
| "writer_call L k OpCommit w = Some (writepack_commit L k w)"
| "writer_call L k x w = None"

definition writer_text :: "'w libgit2 \<Rightarrow> repo_op \<Rightarrow> int \<times> 'w \<Rightarrow> string" where
  "writer_text L x = (\<lambda>(e, w).
     if e = 0 then ''success''
     else chars (CheckForError L e (if x = OpCommit then ''pack commit'' else ''pack append'') w))"

definition keeps_repository :: "repo_op \<Rightarrow> bool" where
  "keeps_repository x \<longleftrightarrow> (case x of OpOpen n \<Rightarrow> False | OpClose \<Rightarrow> False | _ \<Rightarrow> True)"

lemma PackAppend_calls:
  assumes "wp r = Ptr k" and "PackAppend L r bs w = Inr (m, w')"
  shows "w' = library_step L oid r k (OpAppend bs) w"
    and "chars m = writer_text L (OpAppend bs) (writepack_append L k bs w)"
  using assms
  by (cases "writepack_append L k bs w"; auto simp: PackAppend_def library_step_def writer_text_def split: if_splits)+

lemma PackCommit_calls:
  assumes "wp r = Ptr k" and "PackCommit L r w = Inr (m, w')"
  shows "w' = library_step L oid r k OpCommit w" and "chars m = writer_text L OpCommit (writepack_commit L k w)"
  using assms
  by (cases "writepack_commit L k w"; auto simp: PackCommit_def library_step_def writer_text_def split: if_splits)+

lemma perform_calls:
  assumes "current_object M = Inr r" and "wp r = Ptr k" and "keeps_repository x" and "perform L B oid x M = Inr (v, M')"
  shows "M' = M\<lparr>world := library_step L oid r k x (world M)\<rparr> \<and>
    (\<forall>c. writer_call L k x (world M) = Some c \<longrightarrow> v = Some (Text (writer_text L x c)))"
proof -
  obtain a where a: "currentRepo M = Some a" using current_object_open [OF assms(1)] by blast
  show ?thesis
  proof (cases x)
    case (OpAppend bs)
    with assms(1,4) obtain m w where "PackAppend L r bs (world M) = Inr (m, w)" "v = Some (Text (chars m))" "M' = M\<lparr>world := w\<rparr>"
      by (auto simp: text_result_def AppendDataToPack_def bindr_eq_Inr_iff simp del: current_object_Inr_iff)
    with PackAppend_calls(1) [OF assms(2), of L bs "world M" m w oid] PackAppend_calls(2) [OF assms(2), of L bs "world M" m w] OpAppend show ?thesis by simp
  next
    case OpCommit
    with assms(1,4) a obtain m w where "PackCommit L r (world M) = Inr (m, w)" "v = Some (Text (chars m))" "M' = M\<lparr>world := w\<rparr>"
      by (auto simp: text_result_def CommitPackChanges_def bindr_eq_Inr_iff simp del: current_object_Inr_iff)
    with PackCommit_calls(1) [OF assms(2), of L "world M" m w oid] PackCommit_calls(2) [OF assms(2), of L "world M" m w] OpCommit show ?thesis by simp
  next
    case (OpReference n rv)
    with assms(1,4) a obtain m w where "CreateReference L oid r (c_str rv) (c_str n) (world M) = Inr (m, w)" "M' = M\<lparr>world := w\<rparr>"
      by (auto simp: text_result_def NewReference_def bindr_eq_Inr_iff simp del: current_object_Inr_iff)
    with OpReference show ?thesis by (simp add: library_step_def)
  next
    case OpList
    with assms(1,4) a obtain resp w where "GetRepoReferences L r (world M) = Some (Inr (resp, w))" "M' = M\<lparr>world := w\<rparr>"
      by (auto simp: GetRepoRefs_def bindr_eq_Inr_iff simp del: current_object_Inr_iff split: option.splits)
    with OpList show ?thesis by (simp add: library_step_def)
  qed (use assms(3) in \<open>simp_all add: keeps_repository_def\<close>)
qed

section \<open>A sequence of requests\<close>

lemma perform_all_calls:
  assumes "current_object M = Inr r" and "wp r = Ptr k" and "list_all (keeps_repository \<circ> snd) rs"
    and "perform_all L B oid rs (M, ps) = Inr (M', ps')"
  shows "M' = M\<lparr>world := library_after L oid r k rs (world M)\<rparr>"
  using assms(1,3-)
proof (induction rs arbitrary: M ps)
  case Nil
  then show ?case by (simp add: library_after_def)
next
  case (Cons r0 rs)
  obtain a x where r0: "r0 = (a, x)" by fastforce
  with Cons.prems(3) obtain v M1 where 1: "perform L B oid x M = Inr (v, M1)"
    "perform_all L B oid rs (M1, fulfil a v ps) = Inr (M', ps')"
    by (auto simp: bindr_eq_Inr_iff)
  have x: "keeps_repository x" using Cons.prems(2) r0 by simp
  have M1: "M1 = M\<lparr>world := library_step L oid r k x (world M)\<rparr>"
    using perform_calls [OF Cons.prems(1) assms(2) x 1(1)] by simp
  have "M' = M1\<lparr>world := library_after L oid r k rs (world M1)\<rparr>"
    by (rule Cons.IH [OF _ _ 1(2)]) (use Cons.prems(1,2) M1 in \<open>simp_all del: current_object_Inr_iff\<close>)
  with M1 r0 show ?case by (simp add: library_after_def)
qed

section \<open>Requests that always get an answer\<close>

definition uses_repository :: "repo_op \<Rightarrow> bool" where
  "uses_repository x \<longleftrightarrow> (case x of OpAppend bs \<Rightarrow> True | OpCommit \<Rightarrow> True | OpReference n v \<Rightarrow> True | _ \<Rightarrow> False)"

lemma perform_defined:
  assumes "healthy M" and "currentRepo M = Some a" and "stores_handles L" and "uses_repository x"
  shows "\<exists>v M'. perform L B oid x M = Inr (v, M') \<and> healthy M' \<and> currentRepo M' = Some a"
proof (cases x)
  case (OpAppend bs)
  with healthy_ops_defined(1) [OF assms(1-3), of bs] assms(2) show ?thesis
    by (fastforce simp: text_result_def dest: AppendDataToPack_frame)
next
  case OpCommit
  with healthy_ops_defined(2) [OF assms(1-3)] assms(2) show ?thesis
    by (fastforce simp: text_result_def dest: CommitPackChanges_frame)
next
  case (OpReference n v)
  with healthy_ops_defined(3) [OF assms(1-3), of oid n v] assms(2) show ?thesis
    by (fastforce simp: text_result_def dest: NewReference_frame)
qed (use assms(4) in \<open>simp_all add: uses_repository_def\<close>)

lemma perform_all_defined:
  assumes "healthy M" and "currentRepo M = Some a" and "stores_handles L" and "list_all (uses_repository \<circ> snd) rs"
  shows "\<exists>Mp. perform_all L B oid rs (M, ps) = Inr Mp"
  using assms(1,2,4)
proof (induction rs arbitrary: M ps)
  case (Cons r0 rs)
  obtain b x where r0: "r0 = (b, x)" by fastforce
  with perform_defined [OF Cons.prems(1,2) assms(3), of x B oid] Cons.prems(3) obtain v M1 where
    "perform L B oid x M = Inr (v, M1)" "healthy M1" "currentRepo M1 = Some a" by auto
  with Cons.IH [of M1 "fulfil b v ps"] Cons.prems(3) r0 show ?case by auto
qed simp

section \<open>Properties\<close>

text \<open>
  C6. Concurrent pushes share one pack writer. While no client opens or closes a repository, the library is given after any
  history exactly one call for each piece and each commit, whoever asked for it, all on the one writer of the open
  repository and in the order in which the manager performed the requests, and the calls of the references between
  them; nothing else in the manager changes. Each sender of a piece or a commit is told what his own call returned at its place.
  So the pieces of clients that push at the same time are mixed in the one pack there is, and a commit of any of them
  commits the pieces of all that came before it.
\<close>

theorem concurrent_pushes_share_a_pack:
  assumes "history_of L B oid cap p (M, ps) H" and "current_object M = Inr r" and "wp r = Ptr k"
    and "list_all (keeps_repository \<circ> snd) (issued H)"
  shows "manager (svc (now H)) = M\<lparr>world := library_after L oid r k (performed H) (world M)\<rparr> \<and>
    (\<forall>xs a x ys c. performed H = xs @ (Some a, x) # ys \<longrightarrow>
       writer_call L k x (library_after L oid r k xs (world M)) = Some c \<longrightarrow>
       promises (svc (now H)) a = Some (Text (writer_text L x c)))"
proof (intro conjI allI impI)
  have inv: "history_inv L B oid p (M, ps) H" by (rule histories.holds [OF assms(1)])
  have keeps: "list_all (keeps_repository \<circ> snd) (performed H)"
    using assms(4) history_tickets(2) [OF inv] by (auto simp: list_all_iff)
  show "manager (svc (now H)) = M\<lparr>world := library_after L oid r k (performed H) (world M)\<rparr>"
    by (rule perform_all_calls [OF assms(2,3) keeps, where ps = ps])
       (use inv in \<open>auto simp: history_inv_def outcome_of_def\<close>)
  fix xs a x ys c
  assume split: "performed H = xs @ (Some a, x) # ys" and c: "writer_call L k x (library_after L oid r k xs (world M)) = Some c"
  from performed_answer [OF inv split] obtain M1 ps1 v M2 where 1: "perform_all L B oid xs (M, ps) = Inr (M1, ps1)"
    "perform L B oid x M1 = Inr (Some v, M2)" "promises (svc (now H)) a = Some v" by blast
  have "list_all (keeps_repository \<circ> snd) xs" and x: "keeps_repository x" using keeps split by simp_all
  from perform_all_calls [OF assms(2,3) this(1) 1(1)] have M1: "M1 = M\<lparr>world := library_after L oid r k xs (world M)\<rparr>" .
  then have "current_object M1 = Inr r" using assms(2) by (simp del: current_object_Inr_iff)
  from perform_calls [OF this assms(3) x 1(2)] c M1 1(3)
  show "promises (svc (now H)) a = Some (Text (writer_text L x c))" by simp
qed

theorem concurrent_pushes_share_a_pack_witness:
  "manager (svc (now both_served)) =
     demo_open\<lparr>world := library_after mem_git [] demo_repo 3 (performed both_served) (world demo_open)\<rparr> \<and>
   promises (svc (now both_served)) 1 =
     Some (Text (writer_text mem_git (OpAppend [7])
       (writepack_append mem_git 3 [7] (library_after mem_git [] demo_repo 3 [(Some 0, OpAppend [1, 2])] (world demo_open))))) \<and>
   mem_packed 3 (world (manager (svc (now both_served)))) = [1, 2, 7]"
proof -
  have of: "history_of mem_git debug_build [] 3 0 (demo_open, Map.empty) both_served"
    using history_next [OF both_asked_of both_served_step]
    by (simp add: outcome_of_def opened_history_def main_system_def)
  have repo: "current_object demo_open = Inr demo_repo" "wp demo_repo = Ptr 3"
    by (simp_all add: demo_open_def demo_repo_def current_object_def)
  have keeps: "list_all (keeps_repository \<circ> snd) (issued both_served)" by code_simp
  have "performed both_served = [(Some 0, OpAppend [1, 2])] @ (Some 1, OpAppend [7]) # []" by (simp add: both_served_eval)
  moreover have "mem_packed 3 (world (manager (svc (now both_served)))) = [1, 2, 7]" by code_simp
  ultimately show ?thesis
    using concurrent_pushes_share_a_pack [OF of repo keeps] by (metis writer_call.simps(1))
qed

text \<open>
  C7. Pending requests are answered. While a repository is properly open, whatever mixture of appending, committing and
  writing references the clients have queued, a turn of the loop can be made, no operation faults, and afterwards
  nothing is queued, every request ever made has been performed, and every caller's promise has a value.
\<close>

theorem pending_requests_are_answered:
  assumes "history_of L B oid cap p Mp H" and "stores_handles L"
    and "healthy (manager (svc (now H)))" and "currentRepo (manager (svc (now H))) \<noteq> None"
    and "list_all (uses_repository \<circ> snd) (map (request_at (now H)) (queue p (now H)))"
  shows "\<exists>H'. history_step L B oid cap p H H' \<and> queue p (now H') = [] \<and> issued H' = issued H \<and>
    mset (performed H') = mset (issued H') \<and> {a. \<exists>x. (Some a, x) \<in> set (issued H')} \<subseteq> dom (promises (svc (now H')))"
proof -
  let ?q = "queue p (now H)"
  have inv: "history_inv L B oid p Mp H" by (rule histories.holds [OF assms(1)])
  then have lin: "linear_inv p (now H)" and some: "list_all (\<lambda>t. request_of (svc (now H)) t \<noteq> None) ?q"
    by (simp_all add: history_inv_def)
  from mset_eq_setD [OF mset_served [OF lin]] have "set (served ?q) = set ?q" .
  then have ops: "list_all (uses_repository \<circ> snd) (map (request_at (now H)) (served ?q))"
    using assms(5) by (simp add: list_all_iff)
  from assms(4) obtain a where "currentRepo (manager (svc (now H))) = Some a" by blast
  from perform_all_defined [OF assms(3) this assms(2) ops, of B oid "promises (svc (now H))"] obtain Mp' where
    "perform_all L B oid (map (request_at (now H)) (served ?q)) (manager (svc (now H)), promises (svc (now H))) = Inr Mp'" by blast
  then have turn: "pump_turn L B oid p (now H) = Inr (after_turn p (now H) Mp')"
    using turn_performs [OF lin some [unfolded queue_def], of L B oid] by (simp add: request_at_def [abs_def] queue_def)
  let ?H = "H\<lparr>now := after_turn p (now H) Mp', performed := performed H @ map (request_at (now H)) (served ?q)\<rparr>"
  have step: "history_step L B oid cap p H ?H" by (rule turn_step [OF turn])
  then have inv': "history_inv L B oid p Mp ?H" using inv by (rule history_step_inv)
  have none: "queue p (now ?H) = []" by (simp add: after_turn_def queue_def)
  then have all: "mset (performed ?H) = mset (issued ?H)" using inv' by (simp add: history_inv_def)
  have "b \<in> dom (promises (svc (now ?H)))" if "(Some b, x) \<in> set (issued ?H)" for b x
  proof -
    have "(Some b, x) \<in> set (performed ?H)" using that mset_eq_setD [OF all] by blast
    then obtain xs ys where "performed ?H = xs @ (Some b, x) # ys" by (rule split_list [THEN exE]) blast
    from performed_answer [OF inv' this] show ?thesis by blast
  qed
  with step none all show ?thesis by (intro exI [of _ ?H]) auto
qed

theorem pending_requests_are_answered_witness:
  "\<exists>H'. history_step mem_git debug_build [] 3 0 both_asked H' \<and> queue 0 (now H') = [] \<and> issued H' = issued both_asked \<and>
    mset (performed H') = mset (issued H') \<and> {a. \<exists>x. (Some a, x) \<in> set (issued H')} \<subseteq> dom (promises (svc (now H')))"
proof (rule pending_requests_are_answered [OF both_asked_of mem_git_stores_handles])
  have "manager (svc (now both_asked)) = demo_open" by code_simp
  then show "healthy (manager (svc (now both_asked)))" "currentRepo (manager (svc (now both_asked))) \<noteq> None"
    by (simp_all add: demo_open_healthy) (simp add: demo_open_def)
  show "list_all (uses_repository \<circ> snd) (map (request_at (now both_asked)) (queue 0 (now both_asked)))" by code_simp
qed

end
