(* ===== verification/Ipc_Channel.thy ===== *)
theory Ipc_Channel
  imports Prelude
begin

text \<open>
  \<^verbatim>\<open>base/ipc\<close> and \<^verbatim>\<open>base/platform/linux/ipc\<close>: a pair of connected sockets as the two ends of a channel.
  \<open>pair\<close> is what \<^verbatim>\<open>socketpair\<close> returns, \<open>None\<close> if it fails; the ends are made non-blocking when
  \<^verbatim>\<open>fcntl\<close> succeeds (\<open>fcntl_ok\<close>). Members that were never stored are \<open>None\<close>.
\<close>

record PlatformChannelPair =
  pipes :: "(int \<times> int) option"
  nonblocking :: "int set"

definition PlatformChannelPair_new :: "(int \<times> int) option \<Rightarrow> (int \<Rightarrow> bool) \<Rightarrow> PlatformChannelPair" where
  "PlatformChannelPair_new pair fcntl_ok =
     (case pair of
        None \<Rightarrow> \<lparr>pipes = None, nonblocking = {}\<rparr>
      | Some (a, b) \<Rightarrow>
          \<lparr>pipes = Some (a, b),
           nonblocking = (if fcntl_ok a then {a} else {}) \<union> (if fcntl_ok b then {b} else {})\<rparr>)"

definition Pair_GetClientHandle :: "PlatformChannelPair \<Rightarrow> int result" where
  "Pair_GetClientHandle C = (case pipes C of None \<Rightarrow> Inl UninitRead | Some (a, b) \<Rightarrow> Inr b)"

text \<open>The constructor of the channel is empty, so its pair is never set, and writing does nothing.\<close>

record IPCChannel = channelBacking :: "PlatformChannelPair option"

definition IPCChannel_new :: IPCChannel where
  "IPCChannel_new = \<lparr>channelBacking = None\<rparr>"

definition WriteMessage :: "byte list \<Rightarrow> IPCChannel \<Rightarrow> IPCChannel" where
  "WriteMessage buffer C = C"

definition GetClientHandle :: "IPCChannel \<Rightarrow> int result" where
  "GetClientHandle C =
     (case channelBacking C of None \<Rightarrow> Inl UninitRead | Some P \<Rightarrow> Pair_GetClientHandle P)"

text \<open>
  A pair hands out the second of its two sockets, both non-blocking; a channel, whatever was written to
  it, reads an uninitialised pointer.
\<close>

lemma channel_has_no_backing:
  "Pair_GetClientHandle (PlatformChannelPair_new (Some (a, b)) (\<lambda>_. True)) = Inr b"
  "nonblocking (PlatformChannelPair_new (Some (a, b)) (\<lambda>_. True)) = {a, b}"
  "GetClientHandle (fold WriteMessage msgs IPCChannel_new) = Inl UninitRead"
proof -
  have "fold WriteMessage msgs C = C" for C by (induction msgs arbitrary: C) (simp_all add: WriteMessage_def)
  then show "GetClientHandle (fold WriteMessage msgs IPCChannel_new) = Inl UninitRead"
    by (simp add: GetClientHandle_def IPCChannel_new_def)
qed (auto simp: Pair_GetClientHandle_def PlatformChannelPair_new_def)

end
