(* ===== verification/Diagnostics.thy ===== *)
theory Diagnostics
  imports Base_Utils Logging
begin

text \<open>
  Diagnostics: the backtrace of \<^verbatim>\<open>base/Utils.cpp\<close> and the memory figures of \<^verbatim>\<open>base/platform/linux/memtrack.cpp\<close>.
  \<open>frames\<close> are the symbols of the calling stack from the innermost on, \<open>alloc_ok\<close> says whether
  \<^verbatim>\<open>backtrace_symbols\<close> could allocate its result; the numbers of \<^verbatim>\<open>getrusage\<close>, \<^verbatim>\<open>sysconf\<close> and
  \<^verbatim>\<open>/proc/self/statm\<close> are arguments, a field that cannot be read being \<open>0\<close> as the stream leaves it.
  The \<^verbatim>\<open>double\<close> results are exact below two to the power 53, so they are rational numbers here.
\<close>

section \<open>Backtraces\<close>

definition backtrace_max :: nat where
  "backtrace_max = 100"

definition OutputBacktrace ::
    "bool \<Rightarrow> (string \<Rightarrow> bool) \<Rightarrow> int \<Rightarrow> string \<Rightarrow> string \<Rightarrow> bool \<Rightarrow> string list \<Rightarrow> Logging \<Rightarrow> Logging result" where
  "OutputBacktrace debug can_open tid prog file alloc_ok frames L =
     (if \<not> alloc_ok then writeToLog_entry can_open tid prog ''Failed to get backtrace'' L
      else
        let strings = take backtrace_max frames in
        fold (\<lambda>j r. bindr r (LOG_ARGS debug can_open tid prog file 137 (strings ! j @ [newline]))) [0..<length strings] (Inr L))"

lemma LOG_ARGS_True: "LOG_ARGS True can_open tid prog file line = Log can_open tid prog file line"
  by (intro ext) (simp add: LOG_ARGS_def)

lemma backtrace_entries:
  assumes "filename L = Some name" and "fs L name = Some content" and "can_open name" and "CHR 0x00 \<notin> set prog"
  shows "\<exists>L'. OutputBacktrace True can_open tid prog file True frames L = Inr L' \<and>
           fs L' name = Some (content @ concat (map (\<lambda>f. log_line tid prog (file, 137, f @ [newline])) (take 100 frames)))"
    and "OutputBacktrace False can_open tid prog file True frames L = Inr L"
proof -
  let ?s = "take backtrace_max frames"
  have "fold (\<lambda>j r. bindr r (LOG_ARGS True can_open tid prog file 137 (?s ! j @ [newline]))) js (Inr L) =
      fold (\<lambda>(tag, line, formatted) r. bindr r (Log can_open tid prog tag line formatted))
        (map (\<lambda>j. (file, 137, ?s ! j @ [newline])) js) (Inr L)" for js
    by (simp add: fold_map Fun.comp_def LOG_ARGS_True)
  moreover have "map (\<lambda>j. (file, 137 :: int, ?s ! j @ [newline])) [0..<length ?s] = map (\<lambda>f. (file, 137 :: int, f @ [newline])) ?s"
    by (rule nth_equalityI) simp_all
  ultimately have "OutputBacktrace True can_open tid prog file True frames L =
      fold (\<lambda>(tag, line, formatted) r. bindr r (Log can_open tid prog tag line formatted))
        (map (\<lambda>f. (file, 137, f @ [newline])) ?s) (Inr L)"
    by (simp add: OutputBacktrace_def Let_def del: length_take)
  with Logs_append [where can_open = can_open and tid = tid, OF assms(1,2) _ assms(4), of "map (\<lambda>f. (file, 137, f @ [newline])) ?s"]
  show "\<exists>L'. OutputBacktrace True can_open tid prog file True frames L = Inr L' \<and>
           fs L' name = Some (content @ concat (map (\<lambda>f. log_line tid prog (file, 137, f @ [newline])) (take 100 frames)))"
    using assms(3) by (auto simp: backtrace_max_def Fun.comp_def)
  have "fold (\<lambda>j r. bindr r (LOG_ARGS False can_open tid prog file 137 (g j))) js (Inr L) = Inr L" for js :: "nat list" and g
    by (induction js) (simp_all add: LOG_ARGS_def)
  then show "OutputBacktrace False can_open tid prog file True frames L = Inr L"
    by (simp add: OutputBacktrace_def Let_def)
qed

section \<open>Memory use\<close>

definition GetPeakMemoryUse :: "int \<Rightarrow> rat" where
  "GetPeakMemoryUse ru_maxrss = of_int (ru_maxrss div 1024)"

definition GetCurrentMemoryUse :: "int \<Rightarrow> int \<Rightarrow> int \<Rightarrow> rat" where
  "GetCurrentMemoryUse page_size resident share =
     (let page_size_kb = page_size div 1024;
          rss = of_int (resident * page_size_kb);
          shared_mem = of_int (share * page_size_kb)
      in (rss - shared_mem) / 1024)"

text \<open>
  The current figure is exact: the pages that are not shared, in megabytes. The peak is rounded down to
  whole megabytes, since both operands of that division are integers.
\<close>

lemma memory_figures:
  assumes "page_size = 4096"
  shows "GetCurrentMemoryUse page_size resident share * 256 = of_int (resident - share)"
    and "0 \<le> ru_maxrss \<Longrightarrow> GetPeakMemoryUse ru_maxrss \<le> of_int ru_maxrss / 1024 \<and>
           of_int ru_maxrss / 1024 < GetPeakMemoryUse ru_maxrss + 1"
proof -
  show "GetCurrentMemoryUse page_size resident share * 256 = of_int (resident - share)"
    using assms by (simp add: GetCurrentMemoryUse_def Let_def field_simps)
  let ?m = "of_int ru_maxrss :: rat" and ?q = "of_int (ru_maxrss div 1024) :: rat" and ?r = "of_int (ru_maxrss mod 1024) :: rat"
  have "?m = of_int (1024 * (ru_maxrss div 1024) + ru_maxrss mod 1024)" by (simp only: mult_div_mod_eq)
  then have "?m = 1024 * ?q + ?r" by (simp only: of_int_add of_int_mult of_int_numeral)
  moreover have "0 \<le> ?r" by simp
  moreover have "?r < 1024" using pos_mod_bound [of 1024 ru_maxrss] by (simp only: of_int_less_numeral_iff)
  ultimately show "GetPeakMemoryUse ru_maxrss \<le> ?m / 1024 \<and> ?m / 1024 < GetPeakMemoryUse ru_maxrss + 1"
    unfolding GetPeakMemoryUse_def by linarith
qed

end
