(* ===== verification/Thread_Local.thy ===== *)
theory Thread_Local
  imports Prelude
begin

text \<open>
  Thread-local storage: \<^verbatim>\<open>base/threading/tls\<close> and its only implementation, \<^verbatim>\<open>ThreadLocalStorageWin.cpp\<close>. The
  slots are the operating system's: \<open>free\<close> is the slot it hands out, \<open>None\<close> when there is none left;
  a new slot holds null on every thread, and the calls fail for a slot that is not allocated.

  Freeing and storing are written inside of \<^verbatim>\<open>assert\<close>. With \<^verbatim>\<open>NDEBUG\<close> (\<open>ndebug\<close>) the whole expression is
  gone, the call with it.
\<close>

record tls =
  tls_allocated :: "32 word set"
  tls_values :: "nat \<Rightarrow> 32 word \<Rightarrow> ptr"

definition TLS_OUT_OF_INDEXES :: "32 word" where
  "TLS_OUT_OF_INDEXES = -1"

definition AllocateTLSSlot :: "32 word option \<Rightarrow> tls \<Rightarrow> 32 word \<times> tls" where
  "AllocateTLSSlot free S =
     (case free of
        None \<Rightarrow> (TLS_OUT_OF_INDEXES, S)
      | Some k \<Rightarrow> (k, S\<lparr>tls_allocated := insert k (tls_allocated S),
                        tls_values := (\<lambda>t. (tls_values S t)(k := Null))\<rparr>))"

definition FreeTLSSlot :: "bool \<Rightarrow> 32 word \<Rightarrow> tls \<Rightarrow> tls result" where
  "FreeTLSSlot ndebug slot S =
     (if ndebug then Inr S
      else if slot \<in> tls_allocated S then Inr (S\<lparr>tls_allocated := tls_allocated S - {slot}\<rparr>)
      else Inl AssertFailed)"

definition GetTLSSlotValue :: "nat \<Rightarrow> 32 word \<Rightarrow> tls \<Rightarrow> ptr" where
  "GetTLSSlotValue t slot S = (if slot \<in> tls_allocated S then tls_values S t slot else Null)"

definition SetTLSSlotValue :: "bool \<Rightarrow> nat \<Rightarrow> ptr \<Rightarrow> 32 word \<Rightarrow> tls \<Rightarrow> tls result" where
  "SetTLSSlotValue ndebug t value' slot S =
     (if ndebug then Inr S
      else if slot \<in> tls_allocated S
      then Inr (S\<lparr>tls_values := (tls_values S)(t := (tls_values S t)(slot := value'))\<rparr>)
      else Inl AssertFailed)"

section \<open>Thread-local pointers\<close>

record ThreadLocalPointer = tlp_slot :: "32 word"

definition ThreadLocalPointer_new :: "32 word option \<Rightarrow> tls \<Rightarrow> ThreadLocalPointer \<times> tls" where
  "ThreadLocalPointer_new free S = (let (k, S) = AllocateTLSSlot free S in (\<lparr>tlp_slot = k\<rparr>, S))"

definition ThreadLocalPointer_delete :: "bool \<Rightarrow> ThreadLocalPointer \<Rightarrow> tls \<Rightarrow> tls result" where
  "ThreadLocalPointer_delete ndebug p S = FreeTLSSlot ndebug (tlp_slot p) S"

definition ThreadLocalPointer_Get :: "nat \<Rightarrow> ThreadLocalPointer \<Rightarrow> tls \<Rightarrow> ptr" where
  "ThreadLocalPointer_Get t p S = GetTLSSlotValue t (tlp_slot p) S"

definition ThreadLocalPointer_Set :: "bool \<Rightarrow> nat \<Rightarrow> ptr \<Rightarrow> ThreadLocalPointer \<Rightarrow> tls \<Rightarrow> tls result" where
  "ThreadLocalPointer_Set ndebug t v p S = SetTLSSlotValue ndebug t v (tlp_slot p) S"

lemmas tls_defs = AllocateTLSSlot_def FreeTLSSlot_def GetTLSSlotValue_def SetTLSSlotValue_def
  ThreadLocalPointer_new_def ThreadLocalPointer_delete_def ThreadLocalPointer_Get_def ThreadLocalPointer_Set_def

section \<open>Properties\<close>

text \<open>
  A thread-local pointer works in debug builds only: what a thread stores it reads back, and no other
  thread and no other pointer sees it, until the destructor gives the slot back. Where \<open>NDEBUG\<close> is
  defined, storing does nothing, so every thread reads null for ever, and the slot is never freed.
\<close>

theorem thread_local_needs_debug:
  assumes "ThreadLocalPointer_new (Some k) S = (p, S1)" and "k \<notin> tls_allocated S" and "t' \<noteq> t"
    and "tlp_slot q \<in> tls_allocated S"
  shows "(\<exists>S2 S3. ThreadLocalPointer_Set False t v p S1 = Inr S2 \<and> ThreadLocalPointer_Get t p S2 = v \<and>
             ThreadLocalPointer_Get t' p S2 = Null \<and> ThreadLocalPointer_Get t q S2 = ThreadLocalPointer_Get t q S \<and>
             ThreadLocalPointer_delete False p S2 = Inr S3 \<and> tls_allocated S3 = tls_allocated S) \<and>
         (\<exists>S2 S3. ThreadLocalPointer_Set True t v p S1 = Inr S2 \<and> ThreadLocalPointer_Get t p S2 = Null \<and>
             ThreadLocalPointer_delete True p S2 = Inr S3 \<and> tls_allocated S3 = insert k (tls_allocated S))"
  using assms by (auto simp: tls_defs)

theorem thread_local_needs_debug_witness:
  "(let S = \<lparr>tls_allocated = {4}, tls_values = (\<lambda>t k. Ptr t)\<rparr>; p = \<lparr>tlp_slot = 5\<rparr>; q = \<lparr>tlp_slot = 4\<rparr>;
        S1 = snd (ThreadLocalPointer_new (Some 5) S) in
    (\<exists>S2 S3. ThreadLocalPointer_Set False 1 (Ptr 9) p S1 = Inr S2 \<and> ThreadLocalPointer_Get 1 p S2 = Ptr 9 \<and>
             ThreadLocalPointer_Get 2 p S2 = Null \<and> ThreadLocalPointer_Get 1 q S2 = ThreadLocalPointer_Get 1 q S \<and>
             ThreadLocalPointer_delete False p S2 = Inr S3 \<and> tls_allocated S3 = tls_allocated S) \<and>
    (\<exists>S2 S3. ThreadLocalPointer_Set True 1 (Ptr 9) p S1 = Inr S2 \<and> ThreadLocalPointer_Get 1 p S2 = Null \<and>
             ThreadLocalPointer_delete True p S2 = Inr S3 \<and> tls_allocated S3 = insert 5 (tls_allocated S)))"
  unfolding Let_def
  by (rule thread_local_needs_debug) (simp_all add: ThreadLocalPointer_new_def AllocateTLSSlot_def)

end
