(* ===== verification/Windows_Threads.thy ===== *)
theory Windows_Threads
  imports Platform_Threads
begin

text \<open>
  The Windows versions of threads and condition variables: \<^verbatim>\<open>PlatformThreadWin.cpp\<close> and
  \<^verbatim>\<open>ConditionVariableWin.cpp\<close> of \<^verbatim>\<open>base/platform/win/threading\<close>.

  \<open>tid\<close> is the id \<^verbatim>\<open>CreateThread\<close> assigns, \<open>None\<close> if it fails; \<open>release_mode\<close> says that \<^verbatim>\<open>assert\<close> is compiled
  away. A critical section is \<open>None\<close> until it is initialised; after that it has its owner and how often
  the owner entered it. A thread that has to wait for another to leave the section does not return.
\<close>

section \<open>Threads\<close>

text \<open>Naming a thread raises an exception for the debugger, which takes a name of any length.\<close>

definition Win_SetThreadName :: "string \<Rightarrow> platform_threads \<Rightarrow> platform_threads" where
  "Win_SetThreadName name T = T\<lparr>thread_names := (thread_names T)(threadHandle T \<mapsto> c_str name)\<rparr>"

definition Win_CreateThreadInternal ::
    "bool \<Rightarrow> ThreadID option \<Rightarrow> ThreadStartInfo \<Rightarrow> platform_threads \<Rightarrow> (ThreadID \<times> platform_threads) result" where
  "Win_CreateThreadInternal release_mode tid tsi T =
     (case tid of
        Some t \<Rightarrow> let T = T\<lparr>threadHandle := t, created := created T @ [(t, tsi)]\<rparr> in Inr (threadHandle T, T)
      | None \<Rightarrow> if release_mode then Inr (threadHandle T, T) else Inl AssertFailed)"

definition Win_PlatformThread_Create ::
    "bool \<Rightarrow> ThreadID option \<Rightarrow> nat \<Rightarrow> string \<Rightarrow> platform_threads \<Rightarrow> (ThreadID \<times> platform_threads) result" where
  "Win_PlatformThread_Create release_mode tid delegate name T =
     Win_CreateThreadInternal release_mode tid \<lparr>ThreadDelegate = delegate, threadName = name\<rparr> T"

definition Win_ThreadStartFunction ::
    "(nat \<Rightarrow> 's \<Rightarrow> 's result) \<Rightarrow> ThreadStartInfo \<Rightarrow> platform_threads \<times> (nat \<Rightarrow> Delegate) \<times> 's
       \<Rightarrow> (platform_threads \<times> (nat \<Rightarrow> Delegate) \<times> 's) result" where
  "Win_ThreadStartFunction run tsi = (\<lambda>(T, ds, s).
     let T = Win_SetThreadName (threadName tsi) T;
         ds = ds(ThreadDelegate tsi := (ds (ThreadDelegate tsi))\<lparr>del_Id := 0\<rparr>) in
     bindr (run (ThreadDelegate tsi) s) (\<lambda>s. Inr (T, ds, s)))"

section \<open>The condition variable\<close>

record WinConditionVariable =
  cond_set :: bool
  cs :: "(ThreadID \<times> nat) option option"
  sleepers :: "ThreadID list"

definition WinConditionVariable_new :: WinConditionVariable where
  "WinConditionVariable_new = \<lparr>cond_set = True, cs = None, sleepers = []\<rparr>"

definition WinConditionVariable_new_mutex :: "'m \<Rightarrow> WinConditionVariable" where
  "WinConditionVariable_new_mutex mutex = \<lparr>cond_set = False, cs = None, sleepers = []\<rparr>"

definition EnterCriticalSection :: "ThreadID \<Rightarrow> WinConditionVariable \<Rightarrow> WinConditionVariable result" where
  "EnterCriticalSection t c =
     (case cs c of
        None \<Rightarrow> Inl UninitRead
      | Some None \<Rightarrow> Inr (c\<lparr>cs := Some (Some (t, 1))\<rparr>)
      | Some (Some (u, n)) \<Rightarrow> if u = t then Inr (c\<lparr>cs := Some (Some (u, Suc n))\<rparr>) else Inl NoReturn)"

definition LeaveCriticalSection :: "ThreadID \<Rightarrow> WinConditionVariable \<Rightarrow> WinConditionVariable result" where
  "LeaveCriticalSection t c =
     (case cs c of
        None \<Rightarrow> Inl UninitRead
      | Some None \<Rightarrow> Inl NotOwner
      | Some (Some (u, n)) \<Rightarrow>
          if u \<noteq> t then Inl NotOwner
          else Inr (c\<lparr>cs := Some (if n \<le> 1 then None else Some (u, n - 1))\<rparr>))"

text \<open>Sleeping gives the section up, which the thread must have entered exactly once.\<close>

definition SleepConditionVariableCS :: "ThreadID \<Rightarrow> WinConditionVariable \<Rightarrow> WinConditionVariable result" where
  "SleepConditionVariableCS t c =
     (if \<not> cond_set c then Inl UninitRead
      else if cs c = Some (Some (t, 1)) then Inr (c\<lparr>cs := Some None, sleepers := sleepers c @ [t]\<rparr>)
      else Inl NotOwner)"

text \<open>The thread woken up enters the section again before it goes on; \<open>k\<close> picks it.\<close>

definition WakeConditionVariable :: "nat \<Rightarrow> WinConditionVariable \<Rightarrow> WinConditionVariable result" where
  "WakeConditionVariable k c =
     (if \<not> cond_set c then Inl UninitRead
      else if k < length (sleepers c)
      then Inr (c\<lparr>cs := (if cs c = Some None then Some (Some (sleepers c ! k, 1)) else cs c),
                  sleepers := take k (sleepers c) @ drop (Suc k) (sleepers c)\<rparr>)
      else Inr c)"

definition Win_CV_Wait :: "ThreadID \<Rightarrow> WinConditionVariable \<Rightarrow> WinConditionVariable result" where
  "Win_CV_Wait t c = bindr (EnterCriticalSection t c) (SleepConditionVariableCS t)"

definition Win_CV_Signal :: "ThreadID \<Rightarrow> nat \<Rightarrow> WinConditionVariable \<Rightarrow> WinConditionVariable result" where
  "Win_CV_Signal t k c = bindr (LeaveCriticalSection t c) (WakeConditionVariable k)"

lemmas win_cv_defs = Win_CV_Wait_def Win_CV_Signal_def EnterCriticalSection_def LeaveCriticalSection_def
  SleepConditionVariableCS_def WakeConditionVariable_def

section \<open>Runs\<close>

text \<open>What the threads of a process do with one variable, in the order they do it.\<close>

datatype cv_call = CallWait ThreadID | CallSignal ThreadID nat

fun cv_do :: "cv_call \<Rightarrow> WinConditionVariable \<Rightarrow> WinConditionVariable result" where
  "cv_do (CallWait t) c = Win_CV_Wait t c"
| "cv_do (CallSignal t k) c = Win_CV_Signal t k c"

fun cv_run :: "cv_call list \<Rightarrow> WinConditionVariable \<Rightarrow> WinConditionVariable result" where
  "cv_run [] c = Inr c"
| "cv_run (x # xs) c = bindr (cv_do x c) (cv_run xs)"

fun waits :: "cv_call \<Rightarrow> ThreadID list" where
  "waits (CallWait t) = [t]"
| "waits (CallSignal t k) = []"

lemma cv_run_only_waits:
  assumes "cv_run xs c = Inr c'" and "cs c = Some None"
  shows "cs c' = Some None \<and> sleepers c' = sleepers c @ concat (map waits xs) \<and> list_all (\<lambda>x. waits x \<noteq> []) xs"
  using assms
proof (induction xs arbitrary: c)
  case (Cons x xs)
  from Cons.prems obtain c1 where c1: "cv_do x c = Inr c1" "cv_run xs c1 = Inr c'" by (auto simp: fault_simps)
  with Cons.prems(2) have "cs c1 = Some None \<and> sleepers c1 = sleepers c @ waits x \<and> waits x \<noteq> []"
    by (cases x) (auto simp: win_cv_defs split: if_splits)
  with Cons.IH [OF c1(2)] show ?case by simp
qed simp

text \<open>
  A Windows build cannot wait or signal. Neither constructor initialises the critical section, so
  the first call of either function uses a section that does not exist. Were it initialised and free, a
  signal would still leave a section its thread has not entered, so in every sequence of calls that
  goes without an error nobody signals, and every thread that ever waited is still asleep.
\<close>

theorem windows_signal_never_works:
  assumes "c \<in> {WinConditionVariable_new, WinConditionVariable_new_mutex m}"
    and "cv_run xs (c\<lparr>cs := Some None\<rparr>) = Inr c'"
  shows "Win_CV_Wait t c = Inl UninitRead \<and> Win_CV_Signal t k c = Inl UninitRead \<and>
    sleepers c' = concat (map waits xs) \<and> list_all (\<lambda>x. waits x \<noteq> []) xs"
  using assms(1) cv_run_only_waits [OF assms(2)]
  by (auto simp: win_cv_defs WinConditionVariable_new_def WinConditionVariable_new_mutex_def)

theorem windows_signal_never_works_witness:
  "(let c = WinConditionVariable_new; xs = [CallWait 1, CallWait 2]; c' = projr (cv_run xs (c\<lparr>cs := Some None\<rparr>)) in
    Win_CV_Wait 1 c = Inl UninitRead \<and> Win_CV_Signal 1 0 c = Inl UninitRead \<and>
    sleepers c' = concat (map waits xs) \<and> list_all (\<lambda>x. waits x \<noteq> []) xs)"
  unfolding Let_def
  by (rule windows_signal_never_works [where m = "()"]) (simp, code_simp)

text \<open>
  In a release build a thread that could not be created is reported with the id of the thread
  created before; every delegate is given the id 0 when its thread starts.
\<close>

lemma failed_creation_returns_old_id:
  "bindr (Win_PlatformThread_Create True (Some t) d n T) (\<lambda>(_, T). Win_PlatformThread_Create True None d' n' T) =
     Inr (t, T\<lparr>threadHandle := t, created := created T @ [(t, \<lparr>ThreadDelegate = d, threadName = n\<rparr>)]\<rparr>)"
  by (simp add: Win_PlatformThread_Create_def Win_CreateThreadInternal_def)

lemma delegates_lose_their_id:
  "Win_ThreadStartFunction run tsi (T, ds, s) = Inr (T', ds', s') \<Longrightarrow>
     del_Id (ds' (ThreadDelegate tsi)) = 0 \<and> thread_names T' (threadHandle T) = Some (c_str (threadName tsi))"
  by (auto simp: Win_ThreadStartFunction_def Win_SetThreadName_def Let_def fault_simps)

end
