(* ===== verification/Windows_Pipe.thy ===== *)
theory Windows_Pipe
  imports Logging
begin

text \<open>
  The named pipe of \<^verbatim>\<open>base/platform/win/ipc/PlatformPipeWin.cpp\<close> and \<^verbatim>\<open>GetLastErrorStdStr\<close> of \<^verbatim>\<open>base/Utils.cpp\<close>, the
  two users of the Windows interface for input and output. The class \<^verbatim>\<open>PlatformPipe\<close> is declared nowhere, and
  the build leaves the file out.

  The calls of the operating system are the fields of \<open>win_io\<close>, functions of a world \<open>'w\<close>; handles are
  numbers, \<open>None\<close> an invalid one. A read that does not end at once fills the buffer until its event is set.
\<close>

section \<open>The operating system\<close>

record 'w win_io =
  CreateEvent :: "bool \<Rightarrow> 'w \<Rightarrow> nat \<times> 'w"
  CreateNamedPipe :: "string \<Rightarrow> 'w \<Rightarrow> nat option \<times> 'w"
  CreateIoCompletionPort :: "nat option \<Rightarrow> 'w \<Rightarrow> nat option \<times> 'w"
  ConnectNamedPipe :: "nat option \<Rightarrow> nat \<Rightarrow> 'w \<Rightarrow> 'w"
  WaitForSingleObject :: "nat \<Rightarrow> 'w \<Rightarrow> bool \<times> 'w"
  ReadFile :: "nat option \<Rightarrow> nat \<Rightarrow> nat \<Rightarrow> 'w \<Rightarrow> bool \<times> byte list \<times> 'w"
  PostQueuedCompletionStatus :: "nat option \<Rightarrow> nat \<Rightarrow> nat \<Rightarrow> 'w \<Rightarrow> bool \<times> 'w"
  GetLastError :: "'w \<Rightarrow> nat"
  FormatMessage :: "nat \<Rightarrow> 'w \<Rightarrow> string"

section \<open>Operations\<close>

definition GetLastErrorStdStr :: "'w win_io \<Rightarrow> 'w \<Rightarrow> string" where
  "GetLastErrorStdStr O' w =
     (let err = GetLastError O' w in
      if err \<noteq> 0 then
        let result = FormatMessage O' err w in
        if length result \<noteq> 0 then result else []
      else [])"

definition backslash :: char where
  "backslash = CHR 0x5C"

text \<open>\<^verbatim>\<open>snprintf\<close> writes at most 127 characters and a NUL.\<close>

definition GeneratePipeName :: "nat \<Rightarrow> string \<Rightarrow> string" where
  "GeneratePipeName pid channelName =
     take 127 ([backslash, backslash, CHR ''.'', backslash] @ ''pipe'' @ [backslash] @ c_str channelName @ ''.'' @ nat_to_string pid)"

record PlatformPipe =
  pipe_handle :: "nat option"
  completionPort :: "nat option"
  connect_event :: nat

record ChannelInfo =
  channel_epollFD :: "int option"
  channel_pipeFDs :: "(int \<times> int) option"

definition CreatePipe :: "'w win_io \<Rightarrow> nat \<Rightarrow> string \<Rightarrow> 'w \<Rightarrow> ChannelInfo \<times> PlatformPipe \<times> 'w" where
  "CreatePipe O' pid channelName w =
     (let pipeName = GeneratePipeName pid channelName;
          (e, w) = CreateEvent O' True w;
          (p, w) = CreateNamedPipe O' (c_str pipeName) w;
          (port, w) = CreateIoCompletionPort O' p w in
      (\<lparr>channel_epollFD = None, channel_pipeFDs = None\<rparr>,
       \<lparr>pipe_handle = p, completionPort = port, connect_event = e\<rparr>, w))"

definition ConnectToPipe :: "'w win_io \<Rightarrow> PlatformPipe \<Rightarrow> 'w \<Rightarrow> bool \<times> 'w" where
  "ConnectToPipe O' P w =
     (let w = ConnectNamedPipe O' (pipe_handle P) (connect_event P) w in
      WaitForSingleObject O' (connect_event P) w)"

text \<open>Writing makes an event and returns a null pointer.\<close>

definition Pipe_WriteMessage :: "'w win_io \<Rightarrow> byte list \<Rightarrow> 'w \<Rightarrow> ptr \<times> 'w" where
  "Pipe_WriteMessage O' buffer w = (let (e, w) = CreateEvent O' False w in (Null, w))"

definition fill :: "byte list \<Rightarrow> byte list \<Rightarrow> byte list" where
  "fill data buffer = take (length buffer) data @ drop (length data) buffer"

text \<open>How many bytes were read is not asked for; the answer is the whole buffer.\<close>

definition Pipe_ReadMessage :: "'w win_io \<Rightarrow> PlatformPipe \<Rightarrow> 'w \<Rightarrow> byte list \<times> 'w" where
  "Pipe_ReadMessage O' P w =
     (let (e, w) = CreateEvent O' False w;
          message = replicate 4096 0;
          (ok, data, w) = ReadFile O' (pipe_handle P) 4096 e w;
          message = fill data message;
          w = (if ok then snd (PostQueuedCompletionStatus O' (completionPort P) 4096 e w)
               else snd (WaitForSingleObject O' e w)) in
      (message, w))"

section \<open>Lemmas\<close>

text \<open>Whatever the client wrote, a message read has 4096 bytes: the data, then zeros.\<close>

lemma read_message_is_padded:
  assumes "ReadFile O' (pipe_handle P) 4096 e w1 = (ok, data, w2)" and "CreateEvent O' False w = (e, w1)"
  shows "fst (Pipe_ReadMessage O' P w) = take 4096 data @ replicate (4096 - length data) 0 \<and>
         length (fst (Pipe_ReadMessage O' P w)) = 4096"
  using assms by (simp add: Pipe_ReadMessage_def fill_def Let_def split_def)

lemma pipe_name_length: "length (GeneratePipeName pid n) \<le> 127"
  by (simp add: GeneratePipeName_def)

text \<open>
  The name of a pipe has the process id in it to tell processes apart; a channel name of 117
  characters or more leaves no room for it, and two processes make the same pipe.
\<close>

lemma long_pipe_names_collide:
  assumes "117 \<le> length (c_str n)"
  shows "GeneratePipeName pid n = GeneratePipeName pid' n"
  using assms by (simp add: GeneratePipeName_def take_append take_Cons')

lemma nat_to_string_nonempty [simp]: "nat_to_string k \<noteq> []" "[] \<noteq> nat_to_string k"
  by (simp_all add: nat_to_string.simps [of k])

lemma digit_inj: "d < 10 \<Longrightarrow> e < 10 \<Longrightarrow> digit d = digit e \<longleftrightarrow> d = e"
  by (auto simp: digit_def char_of_eq_iff take_bit_eq_mod)

lemma nat_to_string_inj: "nat_to_string m = nat_to_string n \<Longrightarrow> m = n"
proof (induction m arbitrary: n rule: nat_to_string.induct)
  case (1 m)
  have split: "nat_to_string k = (if k < 10 then [] else nat_to_string (k div 10)) @ [digit (k mod 10)]" for k
    by (simp add: nat_to_string.simps [of k])
  from 1(2) have last: "m mod 10 = n mod 10"
    and front: "(if m < 10 then [] else nat_to_string (m div 10)) = (if n < 10 then [] else nat_to_string (n div 10))"
    unfolding split [of m] split [of n] by (simp_all add: digit_inj)
  have "m div 10 = n div 10"
  proof (cases "m < 10")
    case True
    with front have "n < 10" by (simp split: if_splits)
    with True show ?thesis by simp
  next
    case False
    with front have "nat_to_string (m div 10) = nat_to_string (n div 10)" by (simp split: if_splits)
    with False show ?thesis by (rule 1(1))
  qed
  with last show ?case by (metis div_mult_mod_eq)
qed

lemma short_pipe_names_differ:
  assumes "length (c_str n) + length (nat_to_string pid) \<le> 117" and "length (c_str n) + length (nat_to_string pid') \<le> 117"
  shows "GeneratePipeName pid n = GeneratePipeName pid' n \<longleftrightarrow> pid = pid'"
  using assms nat_to_string_inj by (auto simp: GeneratePipeName_def)

end
