(* ===== verification/Android_Pump.thy ===== *)
theory Android_Pump
  imports Message_Pump
begin

text \<open>
  \<^verbatim>\<open>base/platform/android/MessagePumpAndroid.cpp\<close>: a pump that sends the addresses of tasks through a pipe, which a
  looper of the operating system watches. The file includes a header that is not in the repository and its
  functions have fewer parameters than the class declares, so it is not part of any build; the model follows
  the function bodies.

  Of \<^verbatim>\<open>AndroidAppState\<close> only the members are modelled that the bodies use: the looper, the pipe and the mutex
  \<^verbatim>\<open>blockFDWrites\<close>. \<open>extra_of\<close> is what the member \<^verbatim>\<open>extra\<close> of a thread holds; nothing in the repository sets it.
  \<open>mutex_held\<close>: the thread that performs the operation holds the mutex. A bound function may post, so \<open>exec\<close>
  works on the pumps too. \<open>cb\<close> stands for \<^verbatim>\<open>InvokeWithCallback\<close>, which the task class does not have.
\<close>

section \<open>State\<close>

record 't AndroidAppState =
  threadLooper :: bool
  app_fds :: bool
  app_pipe :: "'t list"
  mutex_held :: bool

type_synonym ('f, 'o, 'a, 's) apps = "(nat \<Rightarrow> ('f, 'o, 'a) Task AndroidAppState) \<times> 's"

section \<open>Operations\<close>

definition LooperCallback ::
    "(('f, 'o, 'a) call \<Rightarrow> ('f, 'o, 'a, 's) apps \<Rightarrow> ('f, 'o, 'a, 's) apps result)
       \<Rightarrow> (('f, 'o, 'a) Task \<Rightarrow> ('f, 'o, 'a, 's) apps \<Rightarrow> ('f, 'o, 'a, 's) apps result)
       \<Rightarrow> nat \<Rightarrow> ('f, 'o, 'a, 's) apps \<Rightarrow> ('f, 'o, 'a, 's) apps result" where
  "LooperCallback exec cb a = (\<lambda>(A, s).
     if mutex_held (A a) then Inl SelfDeadlock
     else
       case app_pipe (A a) of
         [] \<Rightarrow> Inl NoReturn
       | task # rest \<Rightarrow>
           let A = A(a := (A a)\<lparr>mutex_held := True, app_pipe := rest\<rparr>) in
           bindr (if HasCallback task then cb task (A, s) else bindr (Invoke task) (\<lambda>(c, _). exec c (A, s))) (\<lambda>(A, s).
           Inr (A(a := (A a)\<lparr>mutex_held := False\<rparr>), s)))"

text \<open>The looper calls the function as long as there is something to read.\<close>

fun ALooper_pollAll ::
    "nat \<Rightarrow> (('f, 'o, 'a) call \<Rightarrow> ('f, 'o, 'a, 's) apps \<Rightarrow> ('f, 'o, 'a, 's) apps result)
       \<Rightarrow> (('f, 'o, 'a) Task \<Rightarrow> ('f, 'o, 'a, 's) apps \<Rightarrow> ('f, 'o, 'a, 's) apps result)
       \<Rightarrow> nat \<Rightarrow> ('f, 'o, 'a, 's) apps \<Rightarrow> ('f, 'o, 'a, 's) apps result option" where
  "ALooper_pollAll 0 exec cb a As = None"
| "ALooper_pollAll (Suc n) exec cb a As =
     (if threadLooper (fst As a) \<and> app_pipe (fst As a) \<noteq> []
      then case LooperCallback exec cb a As of Inl e \<Rightarrow> Some (Inl e) | Inr As \<Rightarrow> ALooper_pollAll n exec cb a As
      else Some (Inr As))"

definition StartMessageLoop_android ::
    "nat \<Rightarrow> (('f, 'o, 'a) call \<Rightarrow> ('f, 'o, 'a, 's) apps \<Rightarrow> ('f, 'o, 'a, 's) apps result)
       \<Rightarrow> (('f, 'o, 'a) Task \<Rightarrow> ('f, 'o, 'a, 's) apps \<Rightarrow> ('f, 'o, 'a, 's) apps result)
       \<Rightarrow> nat \<Rightarrow> bool \<times> ('f, 'o, 'a, 's) apps \<Rightarrow> (bool \<times> ('f, 'o, 'a, 's) apps) result option" where
  "StartMessageLoop_android n exec cb a = (\<lambda>(started, As).
     map_option (\<lambda>r. bindr r (\<lambda>As. Inr (True, As))) (ALooper_pollAll n exec cb a As))"

text \<open>\<^verbatim>\<open>MakeMessagePump\<close> up to the loop; \<open>pipe_ok\<close> says whether \<^verbatim>\<open>pipe\<close> succeeds.\<close>

definition MakeMessagePump_android ::
    "Dispatcher \<Rightarrow> (Thread \<Rightarrow> ptr) \<Rightarrow> bool \<Rightarrow> string \<Rightarrow> ('f, 'o, 'a, 's) apps \<Rightarrow> ('f, 'o, 'a, 's) apps result" where
  "MakeMessagePump_android D extra_of pipe_ok name = (\<lambda>(A, s).
     case GetThread name D of
       None \<Rightarrow> Inl NullDeref
     | Some t \<Rightarrow>
         (case extra_of t of
            Uninit \<Rightarrow> Inl UninitRead
          | Null \<Rightarrow> Inr (A, s)
          | Ptr a \<Rightarrow> Inr (A(a := \<lparr>threadLooper = True, app_fds = pipe_ok, app_pipe = [], mutex_held = False\<rparr>), s)))"

text \<open>Posting to a pump that has started.\<close>

definition PostMessageToThread_android ::
    "Dispatcher \<Rightarrow> (Thread \<Rightarrow> ptr) \<Rightarrow> string \<Rightarrow> ('f, 'o, 'a) Task \<Rightarrow> ('f, 'o, 'a, 's) apps \<Rightarrow> ('f, 'o, 'a, 's) apps result" where
  "PostMessageToThread_android D extra_of thread task = (\<lambda>(A, s).
     case GetThread thread D of
       None \<Rightarrow> Inr (A, s)
     | Some t \<Rightarrow>
         bindr (deref (extra_of t)) (\<lambda>a.
         if mutex_held (A a) then Inl SelfDeadlock
         else if app_fds (A a) then Inr (A(a := (A a)\<lparr>app_pipe := app_pipe (A a) @ [task]\<rparr>), s)
         else Inr (A, s)))"

section \<open>Serving the pipe\<close>

text \<open>A function that leaves the pumps alone.\<close>

definition leaves_pumps ::
    "(('f, 'o, 'a) call \<Rightarrow> 's \<Rightarrow> 's result) \<Rightarrow> ('f, 'o, 'a) call \<Rightarrow> ('f, 'o, 'a, 's) apps \<Rightarrow> ('f, 'o, 'a, 's) apps result" where
  "leaves_pumps ex c = (\<lambda>(A, s). bindr (ex c s) (\<lambda>s. Inr (A, s)))"

lemma android_posts:
  assumes "GetThread n D = Some t" and "extra_of t = Ptr a" and "app_fds (A a)" and "\<not> mutex_held (A a)"
  shows "fold (\<lambda>x r. bindr r (PostMessageToThread_android D extra_of n x)) ts (Inr (A, s)) =
           Inr (A(a := (A a)\<lparr>app_pipe := app_pipe (A a) @ ts\<rparr>), s)"
  using assms
proof (induction ts arbitrary: A)
  case (Cons x ts)
  let ?A = "A(a := (A a)\<lparr>app_pipe := app_pipe (A a) @ [x]\<rparr>)"
  have "PostMessageToThread_android D extra_of n x (A, s) = Inr (?A, s)"
    using Cons.prems by (simp add: PostMessageToThread_android_def)
  moreover have "fold (\<lambda>x r. bindr r (PostMessageToThread_android D extra_of n x)) ts (Inr (?A, s)) =
      Inr (?A(a := (?A a)\<lparr>app_pipe := app_pipe (?A a) @ ts\<rparr>), s)"
    using Cons.prems by (intro Cons.IH) simp_all
  ultimately show ?case by (simp add: fun_upd_def cong: if_cong)
qed simp

lemma android_serves:
  assumes "threadLooper (A a)" and "\<not> mutex_held (A a)" and "list_all (\<lambda>t. \<not> HasCallback t \<and> \<not> IsComplete t) (app_pipe (A a))"
    and "length (app_pipe (A a)) < n"
  shows "ALooper_pollAll n (leaves_pumps ex) cb a (A, s) =
           Some (bindr (run_list ex (app_pipe (A a)) s) (\<lambda>s. Inr (A(a := (A a)\<lparr>app_pipe := []\<rparr>), s)))"
  using assms
proof (induction n arbitrary: A s)
  case (Suc n)
  show ?case
  proof (cases "app_pipe (A a)")
    case Nil
    then show ?thesis by (simp add: fun_upd_idem)
  next
    case (Cons t ts)
    let ?A = "A(a := (A a)\<lparr>app_pipe := ts\<rparr>)"
    have call: "LooperCallback (leaves_pumps ex) cb a (A, s) =
        bindr (Invoke t) (\<lambda>(c, _). bindr (ex c s) (\<lambda>s. Inr (?A, s)))"
      using Cons Suc.prems
      by (auto simp: LooperCallback_def leaves_pumps_def bindr_def split: sum.split)
    have IH: "ALooper_pollAll n (leaves_pumps ex) cb a (?A, s') =
        Some (bindr (run_list ex ts s') (\<lambda>s. Inr (A(a := (A a)\<lparr>app_pipe := []\<rparr>), s)))" for s'
      using Suc.IH [of ?A s'] Suc.prems Cons by (simp add: fun_upd_def cong: if_cong)
    show ?thesis
      using Cons Suc.prems
      by (auto simp: call IH bindr_def split: sum.split)
  qed
qed simp

section \<open>Properties\<close>

text \<open>
  The Android pump runs the tasks posted to a thread in the order they were posted, whatever
  their priorities, each once; but a task that posts to the thread it runs on, as the Linux pump's
  initial task does, waits for ever for the mutex its own looper holds.
\<close>

theorem android_pump_serves_in_order:
  assumes "GetThread n D = Some t" and "extra_of t = Ptr a"
    and "MakeMessagePump_android D extra_of True n (A0, s) = Inr (A, s)"
    and "list_all (\<lambda>t. \<not> HasCallback t \<and> \<not> IsComplete t) ts" and "\<not> HasCallback p" and "Invoke p = Inr (c, p')"
    and "exec c = PostMessageToThread_android D extra_of n x"
  shows "\<exists>A'. fold (\<lambda>x r. bindr r (PostMessageToThread_android D extra_of n x)) ts (Inr (A, s)) = Inr (A', s) \<and>
           ALooper_pollAll (Suc (length ts)) (leaves_pumps ex) cb a (A', s) =
             Some (bindr (run_list ex ts s) (\<lambda>s. Inr (A, s))) \<and>
         bindr (PostMessageToThread_android D extra_of n p (A, s)) (LooperCallback exec cb a) = Inl SelfDeadlock"
proof -
  from assms(1-3) have A: "A a = \<lparr>threadLooper = True, app_fds = True, app_pipe = [], mutex_held = False\<rparr>"
    by (auto simp: MakeMessagePump_android_def)
  let ?A = "A(a := (A a)\<lparr>app_pipe := ts\<rparr>)"
  have "fold (\<lambda>x r. bindr r (PostMessageToThread_android D extra_of n x)) ts (Inr (A, s)) = Inr (?A, s)"
    using android_posts [of n D t extra_of a A ts s] assms(1,2) A by simp
  moreover have "ALooper_pollAll (Suc (length ts)) (leaves_pumps ex) cb a (?A, s) = Some (bindr (run_list ex ts s) (\<lambda>s. Inr (A, s)))"
    using android_serves [of ?A a "Suc (length ts)" ex cb s] A assms(4) by (simp add: fun_upd_idem)
  moreover have "bindr (PostMessageToThread_android D extra_of n p (A, s)) (LooperCallback exec cb a) = Inl SelfDeadlock"
    using A assms(1,2,5-) by (simp add: PostMessageToThread_android_def LooperCallback_def)
  ultimately show ?thesis by blast
qed

definition android_thread :: Thread where
  "android_thread = \<lparr>thread_Id = 7, thread_dmp = Ptr 0, dispatchWinName = ''UI'', thread_sts = Null\<rparr>"

definition android_app :: "(nat \<Rightarrow> (nat, nat, nat) Task AndroidAppState) \<times> nat list" where
  "android_app = ((\<lambda>_. \<lparr>threadLooper = False, app_fds = False, app_pipe = [], mutex_held = False\<rparr>), [])"

theorem android_pump_serves_in_order_witness:
  "(let D = AddNamedThread ''UI'' android_thread Dispatcher_new;
        A = fst (projr (MakeMessagePump_android D (\<lambda>_. Ptr 0) True ''UI'' android_app));
        ts = [NEW_TASK0 0 3 10, NEW_TASK0 0 3 11] in
    \<exists>A'. fold (\<lambda>x r. bindr r (PostMessageToThread_android D (\<lambda>_. Ptr 0) ''UI'' x)) ts (Inr (A, [] :: nat list)) = Inr (A', []) \<and>
           ALooper_pollAll (Suc (length ts)) (leaves_pumps log_call) (\<lambda>_. Inr) 0 (A', []) =
             Some (bindr (run_list log_call ts []) (\<lambda>s. Inr (A, s))) \<and>
         bindr (PostMessageToThread_android D (\<lambda>_. Ptr 0) ''UI'' (NEW_TASK0 0 3 12) (A, [] :: nat list))
           (LooperCallback (\<lambda>c. PostMessageToThread_android D (\<lambda>_. Ptr 0) ''UI'' (NEW_TASK0 0 3 13)) (\<lambda>_. Inr) 0) = Inl SelfDeadlock)"
  unfolding Let_def
  by (rule android_pump_serves_in_order [where t = android_thread and ?A0.0 = "fst android_app" and ex = log_call
        and x = "NEW_TASK0 0 3 13" and c = "\<lparr>callee = 12, object_ref = Some 3, argument = None\<rparr>"
        and p' = "snd (projr (Invoke (NEW_TASK0 0 3 12)))"
        and exec = "\<lambda>c. PostMessageToThread_android (AddNamedThread ''UI'' android_thread Dispatcher_new) (\<lambda>_. Ptr 0) ''UI'' (NEW_TASK0 0 3 13)"])
     (simp_all add: AddNamedThread_def Dispatcher_new_def GetThread_def android_app_def MakeMessagePump_android_def
        android_thread_def HasCallback_def IsComplete_def Invoke_def ClassMethod_def create_defs bind_defs)

end
