(* ===== verification/Runner_Signals.thy ===== *)
theory Runner_Signals
  imports Tm_Threads Platform_Threads
begin

text \<open>
  The condition variables of the task manager's runners. \<^verbatim>\<open>Runner\<close> makes one for itself; \<^verbatim>\<open>InitRunnerForThreadPool\<close>
  would replace it by one that the runners of a pool share. A runner is named by the thread it runs on, and
  waits for and signals the variable its pointer refers to; variables are never deleted, so an address is a
  position in \<open>cond_vars\<close>.

  The model of the runners has one flag per runner for waiting. Here it is shown to be right for runners
  with a variable of their own, and wrong for those that share one.
\<close>

record runner_signals =
  newTaskSignal :: "ThreadID \<Rightarrow> nat"
  cond_vars :: "ConditionVariable list"

text \<open>The part of the constructor that makes the variable.\<close>

definition Runner_new_signal :: "ThreadID \<Rightarrow> runner_signals \<Rightarrow> runner_signals" where
  "Runner_new_signal t S =
     S\<lparr>newTaskSignal := (newTaskSignal S)(t := length (cond_vars S)), cond_vars := cond_vars S @ [ConditionVariable_new]\<rparr>"

definition InitRunnerForThreadPool :: "nat \<Rightarrow> ThreadID \<Rightarrow> runner_signals \<Rightarrow> runner_signals" where
  "InitRunnerForThreadPool taskSignal t S = S\<lparr>newTaskSignal := (newTaskSignal S)(t := taskSignal)\<rparr>"

text \<open>\<^verbatim>\<open>newTaskSignal->Wait()\<close> in \<^verbatim>\<open>StartTaskRunner\<close>, and \<^verbatim>\<open>Runner::Signal\<close>.\<close>

definition on_signal :: "(ConditionVariable \<Rightarrow> ConditionVariable) \<Rightarrow> ThreadID \<Rightarrow> runner_signals \<Rightarrow> runner_signals" where
  "on_signal f t S = S\<lparr>cond_vars := (cond_vars S)[newTaskSignal S t := f (cond_vars S ! newTaskSignal S t)]\<rparr>"

definition Runner_wait :: "ThreadID \<Rightarrow> runner_signals \<Rightarrow> runner_signals" where
  "Runner_wait t = on_signal (CV_Wait t) t"

definition Runner_signal :: "nat \<Rightarrow> ThreadID \<Rightarrow> runner_signals \<Rightarrow> runner_signals" where
  "Runner_signal k t = on_signal (CV_Signal k) t"

definition waiting_for_task :: "ThreadID \<Rightarrow> runner_signals \<Rightarrow> bool" where
  "waiting_for_task t S \<longleftrightarrow> t \<in> set (waiters (cond_vars S ! newTaskSignal S t))"

section \<open>Variables of their own\<close>

definition private_signals :: "ThreadID set \<Rightarrow> runner_signals \<Rightarrow> bool" where
  "private_signals ts S \<longleftrightarrow>
     (\<forall>t \<in> ts. newTaskSignal S t < length (cond_vars S) \<and> waiters (cond_vars S ! newTaskSignal S t) \<in> {[], [t]}) \<and>
     inj_on (newTaskSignal S) ts"

lemma on_signal_simps [simp]:
  "newTaskSignal (on_signal f t S) = newTaskSignal S" "length (cond_vars (on_signal f t S)) = length (cond_vars S)"
  by (simp_all add: on_signal_def)

lemma on_signal_private:
  assumes "private_signals ts S" and "t \<in> ts" and "u \<in> ts"
  shows "cond_vars (on_signal f t S) ! newTaskSignal S u =
    (if u = t then f (cond_vars S ! newTaskSignal S t) else cond_vars S ! newTaskSignal S u)"
  using assms by (auto simp: on_signal_def private_signals_def inj_on_def nth_list_update)

lemma private_signalsI:
  assumes "private_signals ts S" and "t \<in> ts" and "waiters (f (cond_vars S ! newTaskSignal S t)) \<in> {[], [t]}"
  shows "private_signals ts (on_signal f t S)"
  using assms on_signal_private [OF assms(1,2)] unfolding private_signals_def by auto

text \<open>A new runner has a variable of its own.\<close>

lemma Runner_new_signal_private:
  assumes "private_signals ts S" and "t \<notin> ts"
  shows "private_signals (insert t ts) (Runner_new_signal t S)"
  using assms
  by (auto simp: private_signals_def Runner_new_signal_def ConditionVariable_new_def nth_append inj_on_def)

section \<open>Who is woken\<close>

text \<open>
  A runner with a condition variable of its own waits when it asked to and is woken by exactly the signals meant
  for it, as the flag in the model of the runners says.
\<close>

theorem private_signals_are_flags:
  assumes "private_signals ts S" and "t \<in> ts" and "u \<in> ts"
  shows "(if waiting_for_task t S then True else private_signals ts (Runner_wait t S)) \<and> private_signals ts (Runner_signal 0 t S) \<and>
    waiting_for_task u (Runner_wait t S) = (u = t \<or> waiting_for_task u S) \<and>
    waiting_for_task u (Runner_signal 0 t S) = (u \<noteq> t \<and> waiting_for_task u S)"
proof -
  note at = on_signal_private [OF assms]
  from assms(1,2) have w: "waiters (cond_vars S ! newTaskSignal S t) \<in> {[], [t]}" by (auto simp: private_signals_def)
  then show ?thesis
    using private_signalsI [OF assms(1,2)]
    by (auto simp: waiting_for_task_def Runner_wait_def Runner_signal_def at CV_Wait_def CV_Signal_def)
qed

theorem private_signals_are_flags_witness:
  "(let S = Runner_new_signal 2 (Runner_new_signal 1 \<lparr>newTaskSignal = (\<lambda>_. 0), cond_vars = []\<rparr>) in
    (if waiting_for_task 1 S then True else private_signals {1, 2} (Runner_wait 1 S)) \<and> private_signals {1, 2} (Runner_signal 0 1 S) \<and>
    waiting_for_task 2 (Runner_wait 1 S) = (2 = (1 :: ThreadID) \<or> waiting_for_task 2 S) \<and>
    waiting_for_task 2 (Runner_signal 0 1 S) = (2 \<noteq> (1 :: ThreadID) \<and> waiting_for_task 2 S))"
  unfolding Let_def
  by (rule private_signals_are_flags)
     (simp_all add: Runner_new_signal_def private_signals_def ConditionVariable_new_def inj_on_def)

text \<open>
  Two runners that were given the same variable: a signal for the second one to wait wakes the first, and the second
  keeps waiting with the task it was signalled for.
\<close>

lemma shared_signal_wakes_another:
  assumes "t \<noteq> u" and "a < length (cond_vars S)" and "waiters (cond_vars S ! a) = []"
    and "S' = Runner_wait u (Runner_wait t (InitRunnerForThreadPool a u (InitRunnerForThreadPool a t S)))"
  shows "waiting_for_task t S' \<and> waiting_for_task u S' \<and>
    \<not> waiting_for_task t (Runner_signal 0 u S') \<and> waiting_for_task u (Runner_signal 0 u S')"
  using assms
  by (simp add: waiting_for_task_def Runner_wait_def Runner_signal_def InitRunnerForThreadPool_def on_signal_def
      CV_Wait_def CV_Signal_def)

end
