(* ===== verification/Spec2Isabelle.thy ===== *)
theory Spec2Isabelle
  imports Git_Service Push_Session Pump_Atomicity Base64 Pickle_Wire Event_Hub Tm_Threads Metrics Server_App
    Shared_Pack Ipc_Channel Diagnostics Thread_Local Windows_Threads Windows_Pipe Android_Pump
    Runner_Signals
begin

text \<open>
  A verification development for gitrpc, a server that gives access to git repositories over gRPC.
  All paths are relative to \<^verbatim>\<open>src/src\<close>.

  \<^bold>\<open>The program.\<close> A main thread runs a message loop (\<^verbatim>\<open>base/threading\<close>, \<^verbatim>\<open>base/platform/linux\<close>). For every
  kind of call a handler thread (\<^verbatim>\<open>services/git/requests\<close>) takes events from a gRPC completion queue and
  drives the state machine of its requests. A handler does not touch a repository itself: it calls
  \<^verbatim>\<open>RepoProxy\<close>, which packs the arguments into an object, binds an operation of \<^verbatim>\<open>RepositoryManager\<close> to a
  \<^verbatim>\<open>Task\<close>, has the \<^verbatim>\<open>Dispatcher\<close> post it to the main loop, and returns a future. The loop runs the
  task; the manager works on its current \<^verbatim>\<open>GitRepo\<close>, a wrapper of libgit2, and fulfils the promise.
  Beside this core there are a synchronous version of the service, an event hub, an experimental
  task manager, metrics, logging, and a library of utilities (pickles, base64, strings, threads).

  \<^bold>\<open>Conventions.\<close> \<open>Prelude\<close> has the machine types and the type \<open>'a result\<close>: a value, or the fault the
  code runs into. Undefined behaviour (null, dangling and uninitialised pointers, memory outside of
  a block, calls of unset functions), failed assertions, uncaught exceptions and blocking on an own
  lock are faults, never HOL default values. Heap objects that several parties share are numbered
  (\<open>ptr\<close>, addresses). Third-party code and the operating system are parameters: \<open>'w libgit2\<close> is a
  record of the library's functions over an abstract world, sockets, pipes, clocks and random
  numbers are arguments. \<open>Mem_Git\<close> is an executable instance of the library, so that every theorem about
  the library's users has a witness that computes. What uninitialised memory holds is an argument
  too (\<open>junk\<close>). Machine integers keep their width where it matters (\<open>Word\<close>). The step
  relations share \<open>Step_Systems\<close>: the states they reach, and a locale of invariants that each interprets.

  \<^bold>\<open>Repositories.\<close>
  \<^item> \<open>Git_Common\<close>: \<^verbatim>\<open>common/GitServiceCommon.h\<close>, \<^verbatim>\<open>services/git/repository/GitRepoCommon.h\<close>, the library's interface.
  \<^item> \<open>Git_Repo\<close>: \<^verbatim>\<open>GitRepo.cpp\<close>, one definition per member function.
  \<^item> \<open>Repository_Manager\<close>: \<^verbatim>\<open>RepositoryManager.cpp\<close> over a heap of repository objects; invariant of all reachable
    states, answers and safety of sessions, and what a failed or a missing open leads to.

  \<^bold>\<open>Tasks and loops.\<close>
  \<^item> \<open>Std_Heap\<close>: \<^verbatim>\<open>std::priority_queue\<close> as the binary heap it is, the locale of priority queues and its
    interpretation on the heap.
  \<^item> \<open>Task_Types\<close>: \<^verbatim>\<open>DispatcherTypes.h\<close>, \<^verbatim>\<open>TaskHelpers.h\<close>: function slots, \<^verbatim>\<open>Bind\<close>, \<^verbatim>\<open>Invoke\<close>, for the
    overloads that can be instantiated (the one for a static function cannot).
  \<^item> \<open>Dispatcher\<close>: \<^verbatim>\<open>Dispatcher.cpp\<close>, \<^verbatim>\<open>TaskRunner.cpp\<close>, \<^verbatim>\<open>Thread.cpp\<close>: the registries and the routing of tasks, with a
    locale for registries that both of its maps interpret.
  \<^item> \<open>Message_Pump\<close>: \<^verbatim>\<open>MessagePumpEPoll.cpp\<close>, sequentially: starting, posting, one turn of the loop, which serves the
    queue like a list sorted by priority.
  \<^item> \<open>Pump_Protocol\<close>: the same code as a step relation of the loop and any number of posting threads: no wakeup is lost,
    every pushed task can be served once, and where the protocol gets stuck, spurious wake-ups of a condition variable
    included. \<open>Pump_Atomicity\<close>: it refines a machine that
    pushes one task or serves the whole queue in one step, which is what the other theories work with.
  \<^item> \<open>Windows_Threads\<close>, \<open>Windows_Pipe\<close>: \<^verbatim>\<open>base/platform/win\<close>: threads and condition variables (a signal never works), the
    named pipe and the text of system errors.
  \<^item> \<open>Android_Pump\<close>: \<^verbatim>\<open>MessagePumpAndroid.cpp\<close>: tasks are served in the order of posting, and one that posts to its own
    thread blocks.
  \<^item> \<open>Platform_Threads\<close>, \<open>Thread_Local\<close>, \<open>Ipc_Channel\<close>: threads, condition variables, thread-local slots, channels.

  \<^bold>\<open>Requests.\<close>
  \<^item> \<open>Repo_Proxy\<close>: \<^verbatim>\<open>RepoProxy.cpp\<close> composed with dispatcher, pump and manager: posting and one turn of the loop
    refine the call of the manager's operation. \<open>Proxy_Types\<close>: the \<^verbatim>\<open>void*\<close> casts of the manager are right in every
    reachable state. \<open>Linearization\<close>: requests of several handlers that meet in the queue take effect one after the
    other, by priority; the specification (\<open>repo_op\<close>, \<open>perform_all\<close>) knows no pointers, tasks or heaps.
  \<^item> \<open>Histories\<close>: whole runs with any number of handlers: what they asked for, what was performed, and that the answers are
    those of the performed order. \<open>Shared_Pack\<close>: what the library is then asked to do with the
    pack writer all clients share, and when everybody gets an answer.
  \<^item> \<open>Unary_Requests\<close>: \<^verbatim>\<open>WriteReference\<close>, \<^verbatim>\<open>RepoStateChange\<close>, \<^verbatim>\<open>ListRefRequests\<close> as step relations with gRPC as the environment,
    which also shuts down and completes answers of lost calls; such a completion is ignored and its request never deleted.
  \<^item> \<open>Recv_Pack_Stream\<close>: \<^verbatim>\<open>RecvPackStream.cpp\<close>: a pack that is streamed in pieces.
  \<^item> \<open>Push_Session\<close>: the composition. A locale says when an operation on a detailed state answers as one on an
    abstract state does, another that the whole stream handler then behaves alike over both; they are
    interpreted on the calls of the proxy and the operations of the manager. On top of it a client's push
    (\<open>push_session\<close>): open, stream, write a reference, down to the calls of the library.
  \<^item> \<open>Git_Service\<close>: \<^verbatim>\<open>GitServiceImpl.cpp\<close>, the synchronous service.
  \<^item> \<open>Server_App\<close>: \<^verbatim>\<open>main.cpp\<close>, \<^verbatim>\<open>app/\<close>, \<^verbatim>\<open>base/app/\<close>, \<^verbatim>\<open>common/GRPC.cpp\<close>, \<^verbatim>\<open>GitServiceAsyncImpl\<close>: the server comes up.

  \<^bold>\<open>The library.\<close>
  \<^item> \<open>Base64\<close>: \<^verbatim>\<open>base/base64.cpp\<close>; \<open>Pickle\<close>, \<open>Pickle_Iterator\<close>, \<open>Pickle_Wire\<close>: \<^verbatim>\<open>base/pickle\<close>, writing, reading, sending.
  \<^item> \<open>Base_Utils\<close>, \<open>Logging\<close>, \<open>Diagnostics\<close>: \<^verbatim>\<open>base/Utils.cpp\<close>, \<^verbatim>\<open>base/StringView.h\<close>, \<^verbatim>\<open>base/logging.cpp\<close>, \<^verbatim>\<open>memtrack.cpp\<close>.
  \<^item> \<open>Event_Hub\<close>: \<^verbatim>\<open>base/events\<close>, delivery through dispatcher and pump.
  \<^item> \<open>Tm_Tasks\<close>, \<open>Task_Manager\<close>, \<open>Tm_Threads\<close>: \<^verbatim>\<open>base/taskmanager\<close>; vectors have allocation numbers, so that the pointers
    the code keeps into them can dangle. \<open>Runner_Signals\<close>: the condition variables of the runners, and when the
    single flag \<open>Task_Manager\<close> has in their place is right.
  \<^item> \<open>Metrics\<close>: \<^verbatim>\<open>base/metrics\<close>.

  \<^bold>\<open>Loops and fuel.\<close> The loops that serve a queue terminate by the length of the queue. The runner of the task manager
  takes fuel, since a task may post forever; a queue of \<open>n\<close> tasks that post nothing needs \<open>Suc n\<close>, and the theorem
  is about that amount. The pool's loop takes a schedule instead: for each of its turns, what the other threads
  do meanwhile; it may spin for ever while every thread is busy. The main loop itself never ends; its turns are what is modelled. The pipe of a pump has the capacity \<open>cap\<close>, any
  positive number. Bounds in hypotheses (payloads below two gigabytes) are those of the code's \<^verbatim>\<open>int\<close>.

  \<^bold>\<open>What the theorems show.\<close> The core does what it is meant to do under stated conditions: a pack is stored, a
  reference is written, every request is answered once, the queue is served by priority, nothing posted is
  lost. Where the code does not, the theorems say when: the properties of kind error and several of kind
  safety are about such states, and each names the condition that leads there.

  \<^bold>\<open>Interleaving.\<close> \<open>Pump_Protocol\<close> has all interleavings of posting threads and the loop. \<open>Push_Session\<close> has the one in which the
  loop serves a request before its handler goes on and nothing else is queued (\<open>idle\<close>); for the opening of a repository
  this means before \<^verbatim>\<open>RepoProxy::OpenRepo\<close> returns, since the name it passes ends with it. \<open>Linearization\<close> has any mix of
  requests and turns of the loop, with callers that may change or free their buffers in between, and \<open>Histories\<close> the
  same with callers that keep a buffer while a request points to it; the effects some orders have
  are the subject of \<open>open_request_dangles\<close>, \<open>close_then_open_reordered\<close> and \<open>close_during_push_crashes\<close>.

  \<^bold>\<open>Not modelled.\<close> \<^verbatim>\<open>MessagePumpWin.cpp\<close>, which does not compile: it calls \<^verbatim>\<open>Task::InvokeWithCallback\<close> and overrides
  \<^verbatim>\<open>RegisterMessageHandler\<close>, which the classes it uses do not have. Macros for exports and type names; the code under \<^verbatim>\<open>external\<close>, which is third-party; generated protocol code, of which the
  request types have the fields the handlers read. gRPC's own threads appear as the environment of the step relations.
  Memory that is leaked on purpose or by mistake is visible only where a theorem is about it.
\<close>

end
